(* ===== verification/Float_Arith.thy ===== *)
theory Float_Arith
  imports Complex_Main
begin

text \<open>
  Binary floating point as the program uses it.  A C++ \<open>double\<close> is a real number on a
  53-bit binary grid and an x87 \<open>long double\<close> one on a 64-bit grid; every arithmetic
  operation of the source is the exact real operation followed by one rounding to
  nearest, ties to even (\<open>dbl\<close> and \<open>ldbl\<close> below).  The exponent range is not bounded:
  overflow to infinity, subnormal numbers, NaN and the sign of zero are outside the
  model.  The locale \<open>rounding\<close> is the contract the statistics code relies on; \<open>dbl\<close> and
  \<open>ldbl\<close> are shown to satisfy it.
\<close>

section \<open>Rounding to nearest, ties to even\<close>

definition rne :: "real \<Rightarrow> int" where
  "rne x = (let f = \<lfloor>x\<rfloor>; d = x - of_int f in
     if d < 1/2 then f else if 1/2 < d then f + 1 else if even f then f else f + 1)"

definition ilog2 :: "real \<Rightarrow> int" where
  "ilog2 x = \<lfloor>log 2 \<bar>x\<bar>\<rfloor>"

definition fl :: "nat \<Rightarrow> real \<Rightarrow> real" where
  "fl p x = (if x = 0 then 0
     else let e = ilog2 x - (int p - 1) in of_int (rne (x / 2 powi e)) * 2 powi e)"

type_synonym double = real

abbreviation dbl :: "real \<Rightarrow> double" where "dbl \<equiv> fl 53"
abbreviation ldbl :: "real \<Rightarrow> real" where "ldbl \<equiv> fl 64"

definition representable :: "nat \<Rightarrow> real \<Rightarrow> bool" where
  "representable p x \<longleftrightarrow> (\<exists>m e. x = of_int m * 2 powi e \<and> \<bar>m\<bar> \<le> 2 ^ p)"

subsection \<open>The integer rounding\<close>

lemma rne_of_int [simp]: "rne (of_int k) = k"
  by (simp add: rne_def)

lemma rne_error: "\<bar>of_int (rne x) - x\<bar> \<le> 1/2"
  unfolding rne_def Let_def by (auto split: if_splits; linarith)

lemma rne_mono:
  assumes "x \<le> y"
  shows "rne x \<le> rne y"
proof (cases "\<lfloor>x\<rfloor> = \<lfloor>y\<rfloor>")
  case True
  with assms show ?thesis by (auto simp: rne_def Let_def)
next
  case False
  with floor_mono [OF assms] have "\<lfloor>x\<rfloor> + 1 \<le> \<lfloor>y\<rfloor>" by linarith
  moreover have "rne x \<le> \<lfloor>x\<rfloor> + 1" "\<lfloor>y\<rfloor> \<le> rne y" by (auto simp: rne_def Let_def)
  ultimately show ?thesis by linarith
qed

lemma rne_minus: "rne (- x) = - rne x"
proof (cases "x = of_int \<lfloor>x\<rfloor>")
  case True
  then have "- x = of_int (- \<lfloor>x\<rfloor>)" by simp
  then have "rne (- x) = - \<lfloor>x\<rfloor>" by (metis rne_of_int)
  moreover have "rne x = \<lfloor>x\<rfloor>" using True by (metis rne_of_int)
  ultimately show ?thesis by simp
next
  case False
  then have fm: "\<lfloor>- x\<rfloor> = - \<lfloor>x\<rfloor> - 1" by linarith
  have "of_int \<lfloor>x\<rfloor> \<le> x" "x < of_int \<lfloor>x\<rfloor> + 1" by linarith+
  then show ?thesis
    by (auto simp: rne_def Let_def fm)
qed

lemma rne_le_int: "x \<le> of_int k \<Longrightarrow> rne x \<le> k"
  using rne_mono [of x "of_int k"] by simp

lemma int_le_rne: "of_int k \<le> x \<Longrightarrow> k \<le> rne x"
  using rne_mono [of "of_int k" x] by simp

subsection \<open>The binary exponent\<close>

lemma powi_pos [simp]: "(0::real) < 2 powi k"
  by simp

lemma powi_add2: "(2::real) powi (a + b) = 2 powi a * 2 powi b"
  by (simp add: power_int_add)

lemma powr_powi: "(2::real) powr of_int k = 2 powi k"
  by (simp add: powr_real_of_int')

lemma powi_le_iff: "(2::real) powi a \<le> 2 powi b \<longleftrightarrow> a \<le> b"
  by (simp add: powr_powi [symmetric])

lemma powi_less_iff: "(2::real) powi a < 2 powi b \<longleftrightarrow> a < b"
  by (simp add: powr_powi [symmetric])

lemma ilog2_iff:
  assumes "x \<noteq> 0"
  shows "ilog2 x = k \<longleftrightarrow> 2 powi k \<le> \<bar>x\<bar> \<and> \<bar>x\<bar> < 2 powi (k + 1)"
  using floor_log_eq_powr_iff [of "\<bar>x\<bar>" 2 k] assms
  by (simp add: ilog2_def powr_powi del: of_int_add)

lemma ilog2_bounds:
  assumes "x \<noteq> 0"
  shows "2 powi ilog2 x \<le> \<bar>x\<bar>" and "\<bar>x\<bar> < 2 powi (ilog2 x + 1)"
  using ilog2_iff [OF assms, of "ilog2 x"] by simp_all

lemma ilog2_minus [simp]: "ilog2 (- x) = ilog2 x"
  by (simp add: ilog2_def)

lemma ilog2_mono: "0 < x \<Longrightarrow> x \<le> y \<Longrightarrow> ilog2 x \<le> ilog2 y"
  by (simp add: ilog2_def floor_mono)

lemma ilog2_powi:
  assumes "x \<noteq> 0"
  shows "ilog2 (x * 2 powi k) = ilog2 x + k"
proof -
  have "2 powi (ilog2 x + k) \<le> \<bar>x * 2 powi k\<bar>"
    using ilog2_bounds(1) [OF assms] by (simp add: abs_mult powi_add2)
  moreover have "\<bar>x * 2 powi k\<bar> < 2 powi (ilog2 x + k + 1)"
  proof -
    have "\<bar>x * 2 powi k\<bar> < 2 powi (ilog2 x + 1) * 2 powi k"
      using ilog2_bounds(2) [OF assms] by (simp add: abs_mult)
    then show ?thesis by (simp only: powi_add2 [symmetric] add_ac)
  qed
  moreover have "x * 2 powi k \<noteq> 0" using assms by simp
  ultimately show ?thesis using ilog2_iff by blast
qed

lemma ilog2_of_powi [simp]: "ilog2 (2 powi k) = k"
  by (subst ilog2_iff) (auto simp: powi_less_iff)

subsection \<open>Properties of the rounding\<close>

lemma fl_0 [simp]: "fl p 0 = 0"
  by (simp add: fl_def)

lemma fl_nonzero:
  "x \<noteq> 0 \<Longrightarrow> fl p x = of_int (rne (x / 2 powi (ilog2 x - (int p - 1)))) * 2 powi (ilog2 x - (int p - 1))"
  by (simp add: fl_def Let_def)

lemma fl_minus [simp]: "fl p (- x) = - fl p x"
  by (simp add: fl_def Let_def rne_minus)

lemma fl_scale: "fl p (x * 2 powi k) = fl p x * 2 powi k"
proof (cases "x = 0")
  case False
  have e: "ilog2 x + k - (int p - 1) = (ilog2 x - (int p - 1)) + k" by simp
  have nz: "x * 2 powi k \<noteq> 0" using False by simp
  show ?thesis
    unfolding fl_nonzero [OF nz] fl_nonzero [OF False] ilog2_powi [OF False] e
    by (simp add: powi_add2)
qed simp

lemma fl_double: "fl p (2 * x) = 2 * fl p x"
  using fl_scale [of p x 1] by (simp add: mult.commute)

lemma fl_half: "fl p (x / 2) = fl p x / 2"
  using fl_scale [of p x "-1"] by (simp add: power_int_minus field_simps)

lemma scaled_bounds:
  assumes "0 < x"
  shows "2 powi (int p - 1) \<le> x / 2 powi (ilog2 x - (int p - 1))"
    and "x / 2 powi (ilog2 x - (int p - 1)) < 2 powi int p"
proof -
  have "x = x / 2 powi (ilog2 x - (int p - 1)) * 2 powi (ilog2 x - (int p - 1))" by simp
  moreover have "2 powi (ilog2 x) = (2 powi (int p - 1) * 2 powi (ilog2 x - (int p - 1)) :: real)"
    by (simp only: powi_add2 [symmetric]) simp
  moreover have "2 powi (ilog2 x + 1) = (2 powi int p * 2 powi (ilog2 x - (int p - 1)) :: real)"
    by (simp only: powi_add2 [symmetric]) simp
  moreover have "2 powi (ilog2 x) \<le> x" "x < 2 powi (ilog2 x + 1)"
    using ilog2_bounds [of x] assms by simp_all
  ultimately show "2 powi (int p - 1) \<le> x / 2 powi (ilog2 x - (int p - 1))"
    "x / 2 powi (ilog2 x - (int p - 1)) < 2 powi int p"
    by (simp_all add: le_divide_eq divide_less_eq)
qed

lemma powi_nat: "(2::real) powi int n = of_int (2 ^ n)"
  by simp

lemma fl_upper:
  assumes "0 < x"
  shows "fl p x \<le> 2 powi (ilog2 x + 1)"
proof -
  let ?e = "ilog2 x - (int p - 1)"
  have "x / 2 powi ?e \<le> of_int (2 ^ p)"
    using scaled_bounds(2) [OF assms, of p] by simp
  then have "rne (x / 2 powi ?e) \<le> 2 ^ p" by (rule rne_le_int)
  then have "of_int (rne (x / 2 powi ?e)) \<le> (2 powi int p :: real)"
    by (metis of_int_le_iff powi_nat)
  then have "fl p x \<le> 2 powi int p * 2 powi ?e"
    using assms by (simp add: fl_nonzero)
  also have "\<dots> = 2 powi (ilog2 x + 1)" by (simp only: powi_add2 [symmetric]) simp
  finally show ?thesis .
qed

lemma fl_lower:
  assumes "0 < x" and "0 < p"
  shows "2 powi ilog2 x \<le> fl p x"
proof -
  let ?e = "ilog2 x - (int p - 1)"
  have pp: "int p - 1 = int (p - 1)" using \<open>0 < p\<close> by simp
  have "of_int (2 ^ (p - 1)) \<le> x / 2 powi ?e"
    using scaled_bounds(1) [OF assms(1), of p] by (simp add: pp)
  then have "2 ^ (p - 1) \<le> rne (x / 2 powi ?e)" by (rule int_le_rne)
  then have "(2 powi (int p - 1) :: real) \<le> of_int (rne (x / 2 powi ?e))"
    by (metis of_int_le_iff powi_nat pp)
  then have "2 powi (int p - 1) * 2 powi ?e \<le> fl p x"
    using assms by (simp add: fl_nonzero)
  moreover have "2 powi (int p - 1) * 2 powi ?e = (2 powi ilog2 x :: real)"
    by (simp only: powi_add2 [symmetric]) simp
  ultimately show ?thesis by simp
qed

lemma fl_pos: "0 < x \<Longrightarrow> 0 < p \<Longrightarrow> 0 < fl p x"
  using fl_lower [of x p] powi_pos [of "ilog2 x"] by linarith

lemma fl_mono_pos:
  assumes "0 < x" "x \<le> y" "0 < p"
  shows "fl p x \<le> fl p y"
proof (cases "ilog2 x = ilog2 y")
  case True
  have "rne (x / 2 powi (ilog2 y - (int p - 1))) \<le> rne (y / 2 powi (ilog2 y - (int p - 1)))"
    using assms by (intro rne_mono divide_right_mono) simp_all
  then show ?thesis using assms True by (simp add: fl_nonzero)
next
  case False
  then have "ilog2 x + 1 \<le> ilog2 y" using ilog2_mono [of x y] assms by simp
  then have "fl p x \<le> 2 powi ilog2 y"
    using fl_upper [of x p] assms by (meson order_trans powi_le_iff)
  also have "\<dots> \<le> fl p y" using fl_lower [of y p] assms by simp
  finally show ?thesis .
qed

lemma fl_mono:
  assumes "x \<le> y" "0 < p"
  shows "fl p x \<le> fl p y"
proof (cases "0 < x")
  case True
  with assms show ?thesis by (intro fl_mono_pos)
next
  case x: False
  show ?thesis
  proof (cases "y < 0")
    case True
    then have "fl p (- y) \<le> fl p (- x)" using assms by (intro fl_mono_pos) simp_all
    then show ?thesis by simp
  next
    case False
    have "fl p x \<le> 0" using x fl_pos [of "- x" p] \<open>0 < p\<close> by (cases "x = 0") auto
    moreover have "0 \<le> fl p y" using False fl_pos [of y p] \<open>0 < p\<close> by (cases "y = 0") auto
    ultimately show ?thesis by simp
  qed
qed

subsection \<open>Representable values\<close>

lemma representable_0 [simp]: "representable p 0"
  unfolding representable_def by (intro exI [of _ 0]) simp

lemma representable_of_int: "\<bar>m\<bar> \<le> 2 ^ p \<Longrightarrow> representable p (of_int m)"
  unfolding representable_def by (intro exI [of _ m] exI [of _ 0]) simp

lemma representable_minus: "representable p (- x) \<longleftrightarrow> representable p x"
proof -
  have "representable p y \<Longrightarrow> representable p (- y)" for y
    unfolding representable_def by (metis abs_minus_cancel mult_minus_left of_int_minus)
  from this [of x] this [of "- x"] show ?thesis by auto
qed

lemma representable_fl_pos:
  assumes x: "0 < x"
  shows "representable p (fl p x)"
proof -
  let ?e = "ilog2 x - (int p - 1)" and ?m = "rne (x / 2 powi (ilog2 x - (int p - 1)))"
  have "x / 2 powi ?e \<le> of_int (2 ^ p)" using scaled_bounds(2) [OF x, of p] by simp
  then have "?m \<le> 2 ^ p" by (rule rne_le_int)
  moreover have "0 \<le> ?m" using x by (intro int_le_rne) simp
  ultimately show ?thesis unfolding representable_def
    by (intro exI [of _ ?m] exI [of _ ?e]) (use x in \<open>simp add: fl_nonzero\<close>)
qed

lemma representable_fl: "representable p (fl p x)"
proof (cases "x < 0")
  case True
  then have "representable p (fl p (- x))" by (intro representable_fl_pos) simp
  then show ?thesis by (simp add: representable_minus)
next
  case False
  then show ?thesis by (cases "x = 0") (simp_all add: representable_fl_pos)
qed

lemma fl_exact_pos:
  assumes x: "x = of_int m * 2 powi e" and m: "0 < m" "m \<le> 2 ^ p" and p: "0 < p"
  shows "fl p x = x"
proof -
  have x0: "0 < x" using x m by simp
  let ?e = "ilog2 x - (int p - 1)"
  have grid: "\<exists>k::int. x / 2 powi ?e = of_int k"
  proof (cases "m = 2 ^ p")
    case True
    then have "x = 2 powi (int p + e)" using x by (simp add: powi_add2)
    then have "x / 2 powi ?e = 2 powi (int (p - 1))"
      using p by (simp add: power_int_diff [symmetric])
    then show ?thesis by (intro exI [of _ "2 ^ (p - 1)"]) simp
  next
    case False
    with m have "(of_int m :: real) < of_int (2 ^ p)" by (simp only: of_int_less_iff)
    then have "x < 2 powi (int p + e)" using x by (simp add: powi_add2)
    then have "2 powi ilog2 x < (2 powi (int p + e) :: real)"
      using ilog2_bounds(1) [of x] x0 by simp
    then have "ilog2 x < int p + e" by (simp add: powi_less_iff)
    then have "?e \<le> e" by simp
    then obtain n where n: "e = ?e + int n" by (metis zle_iff_zadd)
    have "of_int m * 2 powi e = of_int (m * 2 ^ n) * (2 powi ?e :: real)"
      by (subst n) (simp add: powi_add2)
    with x have "x = of_int (m * 2 ^ n) * 2 powi ?e" by simp
    then have "x / 2 powi ?e = of_int (m * 2 ^ n)" 
      by (metis nonzero_mult_div_cancel_right powi_pos less_irrefl)
    then show ?thesis by blast
  qed
  then obtain k :: int where k: "x / 2 powi ?e = of_int k" by blast
  have "fl p x = of_int k * 2 powi ?e"
    using x0 by (simp only: fl_nonzero k rne_of_int less_irrefl)
  also have "\<dots> = x" using k by (metis nonzero_eq_divide_eq less_irrefl powi_pos)
  finally show ?thesis .
qed

lemma fl_representable:
  assumes "representable p x" and "0 < p"
  shows "fl p x = x"
proof -
  from assms(1) obtain m e where x: "x = of_int m * 2 powi e" and m: "\<bar>m\<bar> \<le> 2 ^ p"
    unfolding representable_def by blast
  consider "m = 0" | "0 < m" | "m < 0" by linarith
  then show ?thesis
  proof cases
    case 1 then show ?thesis using x by simp
  next
    case 2 then show ?thesis using fl_exact_pos [OF x] m assms(2) by simp
  next
    case 3
    have "- x = of_int (- m) * 2 powi e" using x by simp
    then have "fl p (- x) = - x" using fl_exact_pos [of "- x" "- m" e] 3 m assms(2) by simp
    then show ?thesis by simp
  qed
qed

lemma fl_idem: "0 < p \<Longrightarrow> fl p (fl p x) = fl p x"
  by (simp add: fl_representable representable_fl)

lemma fl_of_int: "\<bar>m\<bar> \<le> 2 ^ p \<Longrightarrow> 0 < p \<Longrightarrow> fl p (of_int m) = of_int m"
  by (simp add: fl_representable representable_of_int)

lemma fl_of_nat: "n \<le> 2 ^ p \<Longrightarrow> 0 < p \<Longrightarrow> fl p (of_nat n) = of_nat n"
  using fl_of_int [of "int n" p] by (simp flip: of_nat_power)

lemma fl_1 [simp]: "0 < p \<Longrightarrow> fl p 1 = 1"
  using fl_of_int [of 1 p] by simp

lemma fl_fl_le: "p \<le> q \<Longrightarrow> 0 < q \<Longrightarrow> fl q (fl p x) = fl p x"
proof (rule fl_representable)
  assume "p \<le> q"
  then have "(2::int) ^ p \<le> 2 ^ q" by (simp add: power_increasing)
  then show "representable q (fl p x)"
    using representable_fl [of p x] unfolding representable_def by (meson order_trans)
qed

lemma fl_error:
  assumes "0 < p"
  shows "\<bar>fl p x - x\<bar> \<le> \<bar>x\<bar> / 2 ^ p"
proof (cases "x = 0")
  case False
  let ?e = "ilog2 x - (int p - 1)"
  have "fl p x - x = (of_int (rne (x / 2 powi ?e)) - x / 2 powi ?e) * 2 powi ?e"
    using fl_nonzero [OF False, of p] by (simp add: left_diff_distrib)
  then have "\<bar>fl p x - x\<bar> = \<bar>of_int (rne (x / 2 powi ?e)) - x / 2 powi ?e\<bar> * 2 powi ?e"
    by (simp add: abs_mult)
  also have "\<dots> \<le> 1/2 * 2 powi ?e" by (intro mult_right_mono rne_error) simp
  also have "\<dots> = 2 powi (ilog2 x) / 2 ^ p"
    by (simp add: power_int_diff power_int_add)
  also have "\<dots> \<le> \<bar>x\<bar> / 2 ^ p"
    using ilog2_bounds(1) [OF False] by (intro divide_right_mono) simp_all
  finally show ?thesis .
qed simp

section \<open>The contract of a rounding\<close>

text \<open>
  What the statistics code needs of its arithmetic: a monotone, odd and idempotent
  rounding that commutes with halving.  From this alone a rounded midpoint stays between
  its arguments and rounded sums are monotone.
\<close>

definition acc_sum :: "(real \<Rightarrow> real) \<Rightarrow> real list \<Rightarrow> real" where
  "acc_sum rnd xs = foldl (\<lambda>s v. rnd (s + v)) 0 xs"

locale rounding =
  fixes rnd :: "real \<Rightarrow> real"
  assumes mono: "x \<le> y \<Longrightarrow> rnd x \<le> rnd y"
    and odd: "rnd (- x) = - rnd x"
    and idem: "rnd (rnd x) = rnd x"
    and half: "rnd (x / 2) = rnd x / 2"
begin

lemma zero [simp]: "rnd 0 = 0"
  using half [of 0] by simp

lemma nonneg: "0 \<le> x \<Longrightarrow> 0 \<le> rnd x"
  using mono [of 0 x] by simp

lemma double: "rnd (2 * x) = 2 * rnd x"
  using half [of "2 * x"] by simp

lemma le_iff: "rnd a = a \<Longrightarrow> a \<le> x \<Longrightarrow> a \<le> rnd x"
  using mono [of a x] by simp

lemma ge_iff: "rnd a = a \<Longrightarrow> x \<le> a \<Longrightarrow> rnd x \<le> a"
  using mono [of x a] by simp

lemma midpoint:
  assumes "rnd a = a" "rnd b = b" "a \<le> b"
  shows "a \<le> rnd (rnd (a + b) / 2)" and "rnd (rnd (a + b) / 2) \<le> b"
proof -
  have "rnd (2 * a) \<le> rnd (a + b)" "rnd (a + b) \<le> rnd (2 * b)"
    using assms(3) by (simp_all add: mono)
  then have "2 * a \<le> rnd (a + b)" "rnd (a + b) \<le> 2 * b"
    using assms(1,2) by (simp_all add: double)
  then show "a \<le> rnd (rnd (a + b) / 2)" and "rnd (rnd (a + b) / 2) \<le> b"
    by (simp_all add: half idem)
qed

lemma midpoint_between:
  assumes "rnd a = a" "rnd b = b" "lo \<le> a" "lo \<le> b" "a \<le> hi" "b \<le> hi"
  shows "lo \<le> rnd (rnd (a + b) / 2)" and "rnd (rnd (a + b) / 2) \<le> hi"
  using midpoint [of a b] midpoint [of b a] assms
  by (cases "a \<le> b"; simp add: add.commute)+

lemma acc_sum_nonneg: "\<forall>x\<in>set xs. 0 \<le> x \<Longrightarrow> 0 \<le> acc_sum rnd xs"
  by (induction xs rule: rev_induct) (simp_all add: acc_sum_def nonneg)

lemma abs: "rnd \<bar>x\<bar> = \<bar>rnd x\<bar>"
  using nonneg [of x] nonneg [of "- x"] by (cases "0 \<le> x") (simp_all add: odd)

end

text \<open>A rounding with unit roundoff \<open>u\<close>: error bounds of one operation and of a sum.\<close>

locale rounding_error = rounding +
  fixes u :: real
  assumes u: "0 \<le> u" and err: "\<bar>rnd x - x\<bar> \<le> u * \<bar>x\<bar>"
begin

lemma err_le: "\<bar>x\<bar> \<le> y \<Longrightarrow> \<bar>rnd x - x\<bar> \<le> u * y"
  using err [of x] mult_left_mono [OF _ u, of "\<bar>x\<bar>" y] by linarith

lemma bound: "\<bar>rnd x\<bar> \<le> (1 + u) * \<bar>x\<bar>"
  using err [of x] by (simp add: algebra_simps)

lemma le_bound: "x \<le> y \<Longrightarrow> 0 \<le> y \<Longrightarrow> rnd x \<le> (1 + u) * y"
  using bound [of y] mono [of x y] by simp

lemma ge_bound: "y \<le> x \<Longrightarrow> 0 \<le> y \<Longrightarrow> (1 - u) * y \<le> rnd x"
  using err [of y] mono [of y x] by (simp add: algebra_simps abs_le_iff)

lemma acc_sum_error:
  "\<bar>acc_sum rnd xs - sum_list xs\<bar> \<le> ((1 + u) ^ length xs - 1) * sum_list (map abs xs)"
proof (induction xs rule: rev_induct)
  case Nil
  then show ?case by (simp add: acc_sum_def)
next
  case (snoc v xs)
  let ?S = "acc_sum rnd xs" and ?A = "sum_list (map abs xs)" and ?q = "(1 + u) ^ length xs"
  have q: "1 \<le> ?q" and qs: "1 + u \<le> ?q * (1 + u)"
    using u by (simp_all add: one_le_power mult_le_cancel_right1)
  have A: "\<bar>sum_list xs\<bar> \<le> ?A" by (rule sum_list_abs)
  have S: "\<bar>?S + v\<bar> \<le> ?q * ?A + \<bar>v\<bar>" using snoc.IH A by (simp add: left_diff_distrib)
  have step: "acc_sum rnd (xs @ [v]) = rnd (?S + v)" by (simp add: acc_sum_def)
  have "\<bar>rnd (?S + v) - (?S + v)\<bar> \<le> u * (?q * ?A + \<bar>v\<bar>)"
    using err [of "?S + v"] mult_left_mono [OF S u] by linarith
  then have "\<bar>acc_sum rnd (xs @ [v]) - sum_list (xs @ [v])\<bar>
      \<le> u * (?q * ?A + \<bar>v\<bar>) + (?q - 1) * ?A"
    using snoc.IH unfolding step by simp
  also have "\<dots> = (?q * (1 + u) - 1) * ?A + u * \<bar>v\<bar>" by (simp add: algebra_simps)
  also have "\<dots> \<le> (?q * (1 + u) - 1) * ?A + (?q * (1 + u) - 1) * \<bar>v\<bar>"
    using qs by (intro add_left_mono mult_right_mono) simp_all
  finally show ?case by (simp add: algebra_simps)
qed

end

lemma rounding_fl: "0 < p \<Longrightarrow> rounding (fl p)"
  by unfold_locales (simp_all add: fl_mono fl_idem fl_half)

interpretation dbl: rounding_error dbl "1 / 2 ^ 53"
proof -
  have "rounding (fl 53)" by (rule rounding_fl) simp
  moreover have "\<bar>fl 53 x - x\<bar> \<le> 1 / 2 ^ 53 * \<bar>x\<bar>" for x
    using fl_error [of 53 x] by simp
  ultimately show "rounding_error (fl 53) (1 / 2 ^ 53)"
    by (intro rounding_error.intro rounding_error_axioms.intro) simp_all
qed

interpretation ldbl: rounding_error ldbl "1 / 2 ^ 64"
proof -
  have "rounding (fl 64)" by (rule rounding_fl) simp
  moreover have "\<bar>fl 64 x - x\<bar> \<le> 1 / 2 ^ 64 * \<bar>x\<bar>" for x
    using fl_error [of 64 x] by simp
  ultimately show "rounding_error (fl 64) (1 / 2 ^ 64)"
    by (intro rounding_error.intro rounding_error_axioms.intro) simp_all
qed

lemma acc_sum_Nil [simp]: "acc_sum rnd [] = 0"
  by (simp add: acc_sum_def)

lemma acc_sum_snoc: "acc_sum rnd (xs @ [v]) = rnd (acc_sum rnd xs + v)"
  by (simp add: acc_sum_def)

text \<open>A sum of naturals is exact as long as the total fits the mantissa.\<close>

lemma acc_sum_of_nat:
  assumes "0 < p" and "sum_list ns \<le> 2 ^ p"
  shows "acc_sum (fl p) (map of_nat ns) = of_nat (sum_list ns)"
  using assms(2)
proof (induction ns rule: rev_induct)
  case (snoc n ns)
  then have "acc_sum (fl p) (map of_nat (ns @ [n])) = fl p (of_nat (sum_list (ns @ [n])))"
    by (simp add: acc_sum_snoc)
  with snoc.prems show ?case using assms(1) by (simp only: fl_of_nat)
qed simp

section \<open>Evaluation on rationals\<close>

text \<open>Code equations: on a rational argument the rounding and the rounded square root compute.\<close>

fun int_log2 :: "int \<Rightarrow> int" where
  "int_log2 n = (if n \<le> 1 then 0 else int_log2 (n div 2) + 1)"

declare int_log2.simps [simp del]

lemma int_log2_bounds: "0 < n \<Longrightarrow> 0 \<le> int_log2 n \<and> 2 ^ nat (int_log2 n) \<le> n \<and> n < 2 ^ nat (int_log2 n + 1)"
proof (induction n rule: int_log2.induct)
  case (1 n)
  show ?case
  proof (cases "n \<le> 1")
    case False
    let ?k = "int_log2 (n div 2)"
    have IH: "0 \<le> ?k" "2 ^ nat ?k \<le> n div 2" "n div 2 < 2 ^ nat (?k + 1)"
      using 1 False by simp_all
    have "nat (?k + 1) = Suc (nat ?k)" "nat (?k + 2) = Suc (nat (?k + 1))" using IH(1) by linarith+
    then have "(2::int) ^ nat (?k + 1) = 2 * 2 ^ nat ?k" "(2::int) ^ nat (?k + 2) = 2 * 2 ^ nat (?k + 1)"
      by simp_all
    then have "2 ^ nat (?k + 1) \<le> n" "n < 2 ^ nat (?k + 2)" using IH(2,3) by linarith+
    moreover have "int_log2 n = ?k + 1" using False by (simp add: int_log2.simps [of n])
    ultimately show ?thesis using IH(1) by (simp add: add.assoc)
  qed (use 1 in \<open>simp add: int_log2.simps\<close>)
qed

definition ilog2_rat :: "rat \<Rightarrow> int" where
  "ilog2_rat r = (let (n, d) = quotient_of \<bar>r\<bar>; k = int_log2 n - int_log2 d in
     if (if 0 \<le> k then 2 ^ nat k * d \<le> n else d \<le> 2 ^ nat (- k) * n) then k else k - 1)"

lemma int_log2_powi:
  assumes "0 < n"
  shows "2 powi (int_log2 n) \<le> (of_int n :: real)" and "(of_int n :: real) < 2 powi (int_log2 n + 1)"
proof -
  have b: "0 \<le> int_log2 n" "2 ^ nat (int_log2 n) \<le> n" "n < 2 ^ nat (int_log2 n + 1)"
    using int_log2_bounds [OF assms] by simp_all
  then have "(of_int (2 ^ nat (int_log2 n)) :: real) \<le> of_int n"
    "(of_int n :: real) < of_int (2 ^ nat (int_log2 n + 1))"
    by (simp_all only: of_int_le_iff of_int_less_iff)
  with b(1) show "2 powi (int_log2 n) \<le> (of_int n :: real)" "(of_int n :: real) < 2 powi (int_log2 n + 1)"
    by (simp_all add: power_int_def)
qed

lemma powi_of_pow: "0 \<le> k \<Longrightarrow> (of_int (2 ^ nat k) :: real) = 2 powi k"
  by (simp add: power_int_def)

lemma powi_shift: "a \<le> 2 powi (- k) * b \<longleftrightarrow> 2 powi k * a \<le> (b :: real)"
  by (simp add: power_int_minus divide_simps mult.commute)

lemma ilog2_code [code]: "ilog2 (Ratreal r) = (if r = 0 then 0 else ilog2_rat r)"
proof (cases "r = 0")
  case False
  obtain n d where q: "quotient_of \<bar>r\<bar> = (n, d)" by fastforce
  then have d: "0 < d" by (rule quotient_of_denom_pos)
  have r: "\<bar>r\<bar> = of_int n / of_int d" by (rule quotient_of_div [OF q])
  with False d have n: "0 < n"
    by (metis abs_of_pos divide_eq_0_iff of_int_0_less_iff zero_less_abs_iff zero_less_divide_iff
        less_asym)
  let ?k = "int_log2 n - int_log2 d"
  have abs: "\<bar>Ratreal r\<bar> = of_int n / of_int d"
    using arg_cong [OF r, of "of_rat :: rat \<Rightarrow> real"] by (simp add: of_rat_divide abs_real_def abs_rat_def
        of_rat_minus split: if_splits)
  have up: "\<bar>Ratreal r\<bar> < 2 powi (?k + 1)"
  proof -
    have "of_int n < (2 powi (?k + 1) * 2 powi (int_log2 d) :: real)"
      using int_log2_powi(2) [OF n] by (simp only: powi_add2 [symmetric]) simp
    also have "\<dots> \<le> 2 powi (?k + 1) * of_int d"
      using int_log2_powi(1) [OF d] by (intro mult_left_mono) simp_all
    finally show ?thesis using d unfolding abs by (simp add: divide_less_eq)
  qed
  have lo: "2 powi (?k - 1) \<le> \<bar>Ratreal r\<bar>"
  proof -
    have "2 powi (?k - 1) * of_int d \<le> (2 powi (?k - 1) * 2 powi (int_log2 d + 1) :: real)"
      using int_log2_powi(2) [OF d] by (intro mult_left_mono) simp_all
    also have "\<dots> \<le> of_int n"
      using int_log2_powi(1) [OF n] by (simp only: powi_add2 [symmetric]) (simp add: algebra_simps)
    finally show ?thesis using d unfolding abs by (simp add: le_divide_eq)
  qed
  let ?t = "if 0 \<le> ?k then 2 ^ nat ?k * d \<le> n else d \<le> 2 ^ nat (- ?k) * n"
  have t: "?t \<longleftrightarrow> 2 powi ?k \<le> \<bar>Ratreal r\<bar>"
  proof (cases "0 \<le> ?k")
    case True
    then have "?t \<longleftrightarrow> (of_int (2 ^ nat ?k) * of_int d :: real) \<le> of_int n"
      by (simp only: of_int_mult [symmetric] of_int_le_iff) simp
    with True show ?thesis using d by (simp only: powi_of_pow abs le_divide_eq) simp
  next
    case F: False
    then have "?t \<longleftrightarrow> (of_int d :: real) \<le> of_int (2 ^ nat (- ?k)) * of_int n"
      by (simp only: of_int_mult [symmetric] of_int_le_iff) simp
    also have "\<dots> \<longleftrightarrow> (of_int d :: real) \<le> 2 powi (- ?k) * of_int n"
      using F by (simp add: power_int_def)
    also have "\<dots> \<longleftrightarrow> 2 powi ?k * of_int d \<le> (of_int n :: real)"
      by (rule powi_shift)
    also have "\<dots> \<longleftrightarrow> 2 powi ?k \<le> \<bar>Ratreal r\<bar>" using d unfolding abs by (simp add: le_divide_eq)
    finally show ?thesis .
  qed
  have nz: "Ratreal r \<noteq> 0" using False by simp
  have "ilog2_rat r = (if ?t then ?k else ?k - 1)" by (simp add: ilog2_rat_def q)
  moreover have "ilog2 (Ratreal r) = (if ?t then ?k else ?k - 1)"
    using up lo t ilog2_iff [OF nz] by auto
  ultimately show ?thesis using False by simp
qed (simp add: ilog2_def log_def)

fun isqrt :: "int \<Rightarrow> int" where
  "isqrt n = (if n \<le> 0 then 0
     else let r = 2 * isqrt (n div 4) in if (r + 1) * (r + 1) \<le> n then r + 1 else r)"

declare isqrt.simps [simp del]

lemma isqrt_spec:
  "0 \<le> n \<Longrightarrow> 0 \<le> isqrt n \<and> isqrt n * isqrt n \<le> n \<and> n < (isqrt n + 1) * (isqrt n + 1)"
proof (induction n rule: isqrt.induct)
  case (1 n)
  show ?case
  proof (cases "n \<le> 0")
    case False
    let ?r = "isqrt (n div 4)"
    have IH: "0 \<le> ?r" "?r * ?r \<le> n div 4" "n div 4 < (?r + 1) * (?r + 1)" using 1 False by simp_all
    have n: "4 * (n div 4) \<le> n" "n < 4 * (n div 4) + 4" by linarith+
    have "2 * ?r * (2 * ?r) \<le> n" using IH(2) n by (simp add: algebra_simps)
    moreover have "n < (2 * ?r + 2) * (2 * ?r + 2)"
    proof -
      have "n div 4 + 1 \<le> (?r + 1) * (?r + 1)" using IH(3) by simp
      then have "4 * (n div 4) + 4 \<le> 4 * ((?r + 1) * (?r + 1))" by linarith
      then show ?thesis using n(2) by (simp add: algebra_simps)
    qed
    moreover have "isqrt n = (if (2 * ?r + 1) * (2 * ?r + 1) \<le> n then 2 * ?r + 1 else 2 * ?r)"
      using False by (simp add: isqrt.simps [of n] Let_def)
    ultimately show ?thesis using IH(1) by (simp add: add.assoc)
  qed (use 1 in \<open>simp add: isqrt.simps\<close>)
qed

lemma floor_sqrt_isqrt:
  assumes "0 \<le> y"
  shows "\<lfloor>sqrt y\<rfloor> = isqrt \<lfloor>y\<rfloor>"
proof -
  let ?n = "\<lfloor>y\<rfloor>" and ?r = "isqrt \<lfloor>y\<rfloor>"
  have n0: "0 \<le> ?n" using assms by simp
  note r = isqrt_spec [OF n0]
  have "of_int (?r * ?r) \<le> (of_int ?n :: real)" using r by (simp only: of_int_le_iff)
  then have "of_int ?r * of_int ?r \<le> y" by simp linarith
  then have lo: "of_int ?r \<le> sqrt y" by (intro real_le_rsqrt) (simp add: power2_eq_square)
  have "?n + 1 \<le> (?r + 1) * (?r + 1)" using r by simp
  then have "of_int (?n + 1) \<le> (of_int ((?r + 1) * (?r + 1)) :: real)" by (simp only: of_int_le_iff)
  moreover have "y < of_int (?n + 1)" by linarith
  ultimately have "y < of_int ((?r + 1) * (?r + 1))" by linarith
  then have "y < of_int (?r + 1) * of_int (?r + 1)" by (simp only: of_int_mult)
  then have "sqrt y < of_int (?r + 1)"
    using r by (intro real_less_lsqrt) (simp_all add: power2_eq_square)
  with lo show ?thesis by (intro floor_unique) simp_all
qed

definition fsqrt :: "nat \<Rightarrow> real \<Rightarrow> real" where
  "fsqrt p x = fl p (sqrt x)"

abbreviation dsqrt :: "double \<Rightarrow> double" where "dsqrt \<equiv> fsqrt 53"

definition rne_sqrt :: "real \<Rightarrow> int" where
  "rne_sqrt y = (let f = isqrt \<lfloor>y\<rfloor>; t = (of_int f + 1/2) * (of_int f + 1/2) in
     if y < t then f else if t < y then f + 1 else if even f then f else f + 1)"

lemma rne_sqrt:
  assumes "0 \<le> y"
  shows "rne (sqrt y) = rne_sqrt y"
proof -
  define f where "f = \<lfloor>sqrt y\<rfloor>"
  have f: "f = isqrt \<lfloor>y\<rfloor>" using assms by (simp add: f_def floor_sqrt_isqrt)
  define t :: real where "t = of_int f + 1/2"
  have t: "sqrt (t * t) = t" using assms by (simp add: t_def f_def)
  have "sqrt y - of_int f < 1/2 \<longleftrightarrow> sqrt y < sqrt (t * t)" unfolding t by (auto simp: t_def)
  then have lt: "sqrt y - of_int f < 1/2 \<longleftrightarrow> y < t * t" by (simp only: real_sqrt_less_iff)
  have "1/2 < sqrt y - of_int f \<longleftrightarrow> sqrt (t * t) < sqrt y" unfolding t by (auto simp: t_def)
  then have gt: "1/2 < sqrt y - of_int f \<longleftrightarrow> t * t < y" by (simp only: real_sqrt_less_iff)
  show ?thesis
    unfolding rne_def rne_sqrt_def Let_def f_def [symmetric] f [symmetric] lt gt t_def by simp
qed

lemma ilog2_sqrt:
  assumes "0 < x"
  shows "ilog2 (sqrt x) = ilog2 x div 2"
proof -
  have "log 2 (sqrt x) = log 2 x / 2" using assms by (simp add: log_def ln_sqrt)
  moreover have "ilog2 (sqrt x) = \<lfloor>log 2 (sqrt x)\<rfloor>" using assms by (simp add: ilog2_def)
  ultimately have "ilog2 (sqrt x) = \<lfloor>log 2 x / of_int 2\<rfloor>" by (simp only: of_int_numeral)
  also have "\<dots> = \<lfloor>log 2 x\<rfloor> div 2" by (rule floor_divide_real_eq_div) simp
  finally show ?thesis using assms by (simp add: ilog2_def)
qed

lemma fsqrt_code [code]:
  "fsqrt p x = (if x < 0 then - fsqrt p (- x) else if x = 0 then 0
     else let e = ilog2 x div 2 - (int p - 1) in of_int (rne_sqrt (x / 4 powi e)) * 2 powi e)"
proof -
  have "fsqrt p x = of_int (rne_sqrt (x / 4 powi e)) * 2 powi e"
    if x: "0 < x" and e: "e = ilog2 x div 2 - (int p - 1)" for e
  proof -
    have "(4::real) powi e = 2 powi e * 2 powi e"
      using power_int_mult_distrib [of "2::real" 2 e] by simp
    then have "sqrt (x / 4 powi e) = sqrt x / 2 powi e"
      by (simp add: real_sqrt_divide)
    moreover have "rne (sqrt (x / 4 powi e)) = rne_sqrt (x / 4 powi e)"
      using x by (intro rne_sqrt) simp
    ultimately show ?thesis
      using x by (simp add: fsqrt_def fl_nonzero ilog2_sqrt e)
  qed
  then show ?thesis by (auto simp: fsqrt_def real_sqrt_minus Let_def)
qed

lemma fsqrt_nonneg: "0 \<le> x \<Longrightarrow> 0 \<le> fsqrt 53 x"
  by (simp add: fsqrt_def dbl.nonneg)

lemma fsqrt_0 [simp]: "fsqrt p 0 = 0"
  by (simp add: fsqrt_def)

end
