(* ===== verification/Prelude.thy ===== *)
theory Prelude
  imports Float_Arith "HOL-Library.Word" "HOL-Library.Multiset"
begin

text \<open>
  Vocabulary and lemmas shared by the components: machine integer types, the two kinds
  of exception the code throws, the range of a C++ \<open>int\<close>, facts on sorted lists (every
  component that reports a median sorts and indexes), and the contract \<open>estimator\<close> of a
  location estimate.
\<close>

unbundle bit_operations_syntax

named_theorems estimator_simps

section \<open>Types of the model\<close>

type_synonym u8 = "8 word"
type_synonym u32 = "32 word"
type_synonym u64 = "64 word"

text \<open>\<open>std::invalid_argument\<close> and \<open>std::runtime_error\<close> with their messages.\<close>

datatype exn = InvalidArgument string | RuntimeError string

text \<open>Signed 32-bit results: \<open>None\<close> stands for the undefined behaviour of an overflow.\<close>

definition i32_min :: int where "i32_min = - 2147483648"
definition i32_max :: int where "i32_max = 2147483647"

definition in_i32 :: "int \<Rightarrow> bool" where
  "in_i32 x \<longleftrightarrow> i32_min \<le> x \<and> x \<le> i32_max"

definition i32 :: "int \<Rightarrow> int option" where
  "i32 x = (if in_i32 x then Some x else None)"

lemma i32_Some [simp]: "i32 x = Some y \<longleftrightarrow> y = x \<and> in_i32 x"
  by (auto simp: i32_def)

lemma i32_in: "in_i32 x \<Longrightarrow> i32 x = Some x"
  by simp

lemma i32_None [simp]: "i32 x = None \<longleftrightarrow> \<not> in_i32 x"
  by (simp add: i32_def)

lemma in_i32_between: "in_i32 a \<Longrightarrow> in_i32 b \<Longrightarrow> a \<le> x \<Longrightarrow> x \<le> b \<Longrightarrow> in_i32 x"
  by (simp add: in_i32_def)

text \<open>A value held in a C++ \<open>double\<close>, and the conversion of an unsigned 64-bit integer.\<close>

abbreviation is_double :: "real \<Rightarrow> bool" where
  "is_double x \<equiv> dbl x = x"

definition double_of_nat :: "nat \<Rightarrow> double" where
  "double_of_nat n = dbl (of_nat n)"

definition double_of_u64 :: "u64 \<Rightarrow> double" where
  "double_of_u64 w = double_of_nat (unat w)"

lemma is_double_double_of_nat [simp]: "is_double (double_of_nat n)"
  by (simp add: double_of_nat_def dbl.idem)

lemma double_of_nat_nonneg [simp]: "0 \<le> double_of_nat n"
  by (simp add: double_of_nat_def dbl.nonneg)

lemma double_of_nat_exact: "n \<le> 2 ^ 53 \<Longrightarrow> double_of_nat n = of_nat n"
  by (simp add: double_of_nat_def fl_of_nat)

lemma double_of_nat_mono: "m \<le> n \<Longrightarrow> double_of_nat m \<le> double_of_nat n"
  by (simp add: double_of_nat_def dbl.mono)

lemma double_of_nat_0 [simp]: "double_of_nat 0 = 0"
  by (simp add: double_of_nat_def)

lemma double_of_nat_1 [simp]: "double_of_nat (Suc 0) = 1"
  by (simp add: double_of_nat_def)

lemma double_of_nat_pos: "0 < n \<Longrightarrow> 0 < double_of_nat n"
  using double_of_nat_mono [of 1 n] by simp

lemma is_double_double_of_u64 [simp]: "is_double (double_of_u64 w)"
  by (simp add: double_of_u64_def)

lemma double_of_u64_nonneg [simp]: "0 \<le> double_of_u64 w"
  by (simp add: double_of_u64_def)

lemma double_of_u64_mono: "v \<le> w \<Longrightarrow> double_of_u64 v \<le> double_of_u64 w"
  by (simp add: double_of_u64_def double_of_nat_mono word_le_nat_alt)

text \<open>Natural numbers that fit a word.\<close>

lemma unat_word_of_nat64: "n < 2 ^ 64 \<Longrightarrow> unat (word_of_nat n :: u64) = n"
  and unat_word_of_nat32: "n < 2 ^ 32 \<Longrightarrow> unat (word_of_nat n :: u32) = n"
  by (simp_all add: unsigned_of_nat take_bit_nat_eq_self)

section \<open>Percentages\<close>

lemma dbl_100: "is_double 100"
  using fl_of_nat [of 100 53] by simp

lemma dbl_percent:
  assumes "0 \<le> x" "x \<le> 1"
  shows "0 \<le> dbl (100 * x) \<and> dbl (100 * x) \<le> 100"
  using assms by (intro conjI dbl.nonneg dbl.ge_iff dbl_100) simp_all

lemma dbl_ratio:
  assumes "a \<le> b"
  shows "0 \<le> dbl (double_of_nat a / double_of_nat b) \<and> dbl (double_of_nat a / double_of_nat b) \<le> 1"
proof -
  have "double_of_nat a / double_of_nat b \<le> 1"
    using double_of_nat_mono [OF assms] by (cases "double_of_nat b = 0")
      (simp_all add: divide_le_eq less_le)
  then show ?thesis by (intro conjI dbl.nonneg dbl.ge_iff) simp_all
qed

lemma dbl_percentage:
  assumes "a \<le> b" "0 < b" "b \<le> 2 ^ 46"
  shows "0 \<le> dbl (dbl (100 * double_of_nat a) / double_of_nat b)
     \<and> dbl (dbl (100 * double_of_nat a) / double_of_nat b) \<le> 100"
proof -
  have e: "double_of_nat a = of_nat a" "double_of_nat b = of_nat b"
    using assms by (simp_all add: double_of_nat_exact)
  have "dbl (of_nat (100 * a)) = of_nat (100 * a)" using assms by (intro fl_of_nat) simp_all
  then have "dbl (100 * double_of_nat a) = 100 * of_nat a" by (simp add: e)
  moreover have "(100 * of_nat a :: real) / of_nat b \<le> 100" using assms(1,2) by (simp add: divide_le_eq)
  ultimately show ?thesis
    using e by (intro conjI dbl.nonneg dbl.ge_iff dbl_100) simp_all
qed

section \<open>Words\<close>

lemma unat_and_not_mask: "unat (a AND NOT (mask k) :: 'a::len word) = unat a div 2 ^ k * 2 ^ k"
proof -
  let ?y = "take_bit k a"
  have "(a AND NOT (mask k)) + ?y = (a AND NOT (mask k)) OR ?y"
    by (rule disjunctive_add) (auto simp: bit_simps)
  also have "\<dots> = a" by (rule bit_word_eqI) (auto simp: bit_simps)
  finally have "a AND NOT (mask k) = a - ?y" by (simp add: eq_diff_eq)
  moreover have y: "unat ?y = unat a mod 2 ^ k" unfolding unsigned_take_bit_eq by (rule take_bit_eq_mod)
  then have "?y \<le> a" by (simp add: word_le_nat_alt)
  ultimately show ?thesis using y by (simp add: unat_sub minus_mod_eq_div_mult)
qed

section \<open>Lists\<close>

lemma upt_0_Suc: "[0..<Suc n] = 0 # map Suc [0..<n]"
  by (simp add: upt_conv_Cons map_Suc_upt del: upt_Suc)

lemma map_filter_map: "List.map_filter f (map g xs) = List.map_filter (\<lambda>x. f (g x)) xs"
  by (induction xs) (auto simp: List.map_filter_simps split: option.splits)

lemma set_map_filter: "x \<in> set (List.map_filter f xs) \<longleftrightarrow> (\<exists>y\<in>set xs. f y = Some x)"
  by (induction xs) (auto simp: List.map_filter_simps split: option.splits)

section \<open>Sorted lists\<close>

lemma sort_cong_mset: "mset xs = mset ys \<Longrightarrow> sort xs = sort ys"
  by (simp add: properties_for_sort)

lemma sort_nth_mem: "i < length xs \<Longrightarrow> sort xs ! i \<in> set xs"
  using nth_mem [of i "sort xs"] by simp

lemma half_less_length: "xs \<noteq> [] \<Longrightarrow> length xs div 2 < length xs"
  by (cases xs) simp_all

lemma sort_nth_mono: "i \<le> j \<Longrightarrow> j < length xs \<Longrightarrow> sort xs ! i \<le> sort xs ! j"
  by (simp add: sorted_nth_mono)

lemma length_filter_sort: "length (filter P (sort xs)) = length (filter P xs)"
  by (metis mset_filter mset_sort size_mset)

text \<open>The rank of the element at an index of a sorted list, from below and from above.\<close>

lemma rank_below:
  assumes "i < length xs"
  shows "i + 1 \<le> length (filter (\<lambda>x. x \<le> sort xs ! i) xs)"
proof -
  let ?ys = "sort xs"
  have "filter (\<lambda>x. x \<le> ?ys ! i) (take (i + 1) ?ys) = take (i + 1) ?ys"
    using assms by (auto simp: filter_id_conv in_set_conv_nth sort_nth_mono)
  then have "i + 1 \<le> length (filter (\<lambda>x. x \<le> ?ys ! i) (take (i + 1) ?ys @ drop (i + 1) ?ys))"
    using assms by (simp del: append_take_drop_id)
  then show ?thesis by (simp add: length_filter_sort)
qed

lemma rank_above:
  assumes "i < length xs"
  shows "length xs - i \<le> length (filter (\<lambda>x. sort xs ! i \<le> x) xs)"
proof -
  let ?ys = "sort xs"
  have "filter (\<lambda>x. ?ys ! i \<le> x) (drop i ?ys) = drop i ?ys"
    using assms by (auto simp: filter_id_conv in_set_conv_nth sort_nth_mono)
  then have "length xs - i \<le> length (filter (\<lambda>x. ?ys ! i \<le> x) (take i ?ys @ drop i ?ys))"
    by (simp del: append_take_drop_id)
  then show ?thesis by (simp add: length_filter_sort)
qed

lemma length_filter_mono:
  "(\<And>x. x \<in> set xs \<Longrightarrow> P x \<Longrightarrow> Q x) \<Longrightarrow> length (filter P xs) \<le> length (filter Q xs)"
  by (induction xs) (auto simp: le_SucI)

section \<open>The contract of a location estimate\<close>

text \<open>
  What the reports rely on when they print a median: the estimate depends only on the
  multiset of the samples and lies between any bounds that hold for all of them.
\<close>

locale estimator =
  fixes est :: "real list \<Rightarrow> real"
  assumes perm: "mset xs = mset ys \<Longrightarrow> est xs = est ys"
    and between: "xs \<noteq> [] \<Longrightarrow> (\<And>x. x \<in> set xs \<Longrightarrow> is_double x \<and> lo \<le> x \<and> x \<le> hi)
      \<Longrightarrow> lo \<le> est xs \<and> est xs \<le> hi"
begin

lemma const: "is_double c \<Longrightarrow> 0 < n \<Longrightarrow> est (replicate n c) = c"
  using between [of "replicate n c" c c] by (simp add: order_antisym)

lemma nonneg: "xs \<noteq> [] \<Longrightarrow> (\<And>x. x \<in> set xs \<Longrightarrow> is_double x \<and> 0 \<le> x) \<Longrightarrow> 0 \<le> est xs"
  using between [of xs 0 "Max (set xs)"] by simp

lemma min_max:
  assumes "xs \<noteq> []" "\<And>x. x \<in> set xs \<Longrightarrow> is_double x"
  shows "Min (set xs) \<le> est xs \<and> est xs \<le> Max (set xs)"
  using assms by (intro between) simp_all

end

text \<open>
  The upper median, \<open>v[v.size() / 2]\<close> after sorting, as \<open>timer.cpp\<close> and
  \<open>bandwidth_measurer.cpp\<close> compute it.
\<close>

definition upper_median :: "'a::linorder list \<Rightarrow> 'a" where
  "upper_median xs = sort xs ! (length xs div 2)"

lemma upper_median_mem: "xs \<noteq> [] \<Longrightarrow> upper_median xs \<in> set xs"
  by (simp add: upper_median_def sort_nth_mem half_less_length)

lemma upper_median_rank:
  assumes "xs \<noteq> []"
  shows "length xs < 2 * length (filter (\<lambda>x. x \<le> upper_median xs) xs)"
    and "length xs \<le> 2 * length (filter (\<lambda>x. upper_median xs \<le> x) xs)"
  using rank_below [OF half_less_length [OF assms]] rank_above [OF half_less_length [OF assms]]
  unfolding upper_median_def by linarith+

lemma upper_median_below: "2 * length (filter (\<lambda>x. x < upper_median xs) xs) \<le> length xs" if "xs \<noteq> []"
  using upper_median_rank(2) [OF that] sum_length_filter_compl [of "\<lambda>x. upper_median xs \<le> x" xs]
  by (simp add: not_le)

lemma upper_median_above: "2 * length (filter (\<lambda>x. upper_median xs < x) xs) < length xs" if "xs \<noteq> []"
  using upper_median_rank(1) [OF that] sum_length_filter_compl [of "\<lambda>x. x \<le> upper_median xs" xs]
  by (simp add: not_le)

text \<open>The two counts determine the upper median.\<close>

lemma upper_median_unique:
  fixes y :: "'a::linorder"
  assumes "2 * length (filter (\<lambda>x. x < y) xs) \<le> length xs" "2 * length (filter (\<lambda>x. y < x) xs) < length xs"
  shows "y = upper_median xs"
proof -
  have ne: "xs \<noteq> []" using assms(2) by auto
  have mono: "length (filter P xs) \<le> length (filter Q xs)" if "\<And>x. P x \<Longrightarrow> Q x" for P Q
    using that by (induction xs) (auto simp: le_SucI)
  have "\<not> y < upper_median xs"
    using mono [of "\<lambda>x. upper_median xs \<le> x" "\<lambda>x. y < x"] assms(2) upper_median_rank(2) [OF ne] by force
  moreover have "\<not> upper_median xs < y"
    using mono [of "\<lambda>x. x \<le> upper_median xs" "\<lambda>x. x < y"] assms(1) upper_median_rank(1) [OF ne] by force
  ultimately show ?thesis by simp
qed

interpretation upper: estimator upper_median
proof
  fix xs ys :: "real list"
  assume "mset xs = mset ys"
  then show "upper_median xs = upper_median ys"
    unfolding upper_median_def by (metis sort_cong_mset mset_eq_length)
next
  fix xs :: "real list" and lo hi
  assume "xs \<noteq> []" and "\<And>x. x \<in> set xs \<Longrightarrow> is_double x \<and> lo \<le> x \<and> x \<le> hi"
  then show "lo \<le> upper_median xs \<and> upper_median xs \<le> hi"
    using upper_median_mem by blast
qed

end
