(* ===== verification/Statistics.thy ===== *)
theory Statistics
  imports Prelude
begin

text \<open>
  Model of \<open>src/statistics.cpp\<close>: the interpolated quantile of a sorted vector and the
  summary (count, mean, median, p95, p99, sample standard deviation, minimum, maximum)
  that every measurement reports.  Sums run in \<open>long double\<close> from left to right, the
  results are rounded to \<open>double\<close>.
\<close>

section \<open>Definitions\<close>

record summary =
  s_count :: nat
  s_mean :: double
  s_median :: double
  s_p95 :: double
  s_p99 :: double
  s_stddev :: double
  s_min :: double
  s_max :: double

definition empty_summary :: summary where
  "empty_summary = \<lparr>s_count = 0, s_mean = 0, s_median = 0, s_p95 = 0, s_p99 = 0,
     s_stddev = 0, s_min = 0, s_max = 0\<rparr>"

definition quantile_position :: "nat \<Rightarrow> double \<Rightarrow> double" where
  "quantile_position n q = dbl (q * double_of_nat (n - 1))"

definition quantile :: "double list \<Rightarrow> double \<Rightarrow> double" where
  "quantile ys q =
     (if ys = [] then 0
      else if length ys = 1 then hd ys
      else
        let position = quantile_position (length ys) q;
            lower = nat \<lfloor>position\<rfloor>;
            upper = nat \<lceil>position\<rceil>
        in if lower = upper then ys ! lower
           else
             let weight = dbl (position - double_of_nat lower)
             in dbl (dbl (ys ! lower * dbl (1 - weight)) + dbl (ys ! upper * weight)))"

definition sample_mean :: "double list \<Rightarrow> double" where
  "sample_mean samples = dbl (ldbl (acc_sum ldbl samples / ldbl (of_nat (length samples))))"

definition squared_deviations :: "double list \<Rightarrow> double \<Rightarrow> real" where
  "squared_deviations samples mean =
     foldl (\<lambda>squared value. let diff = ldbl (value - mean) in ldbl (squared + ldbl (diff * diff)))
       0 samples"

definition sample_stddev :: "double list \<Rightarrow> double \<Rightarrow> double" where
  "sample_stddev samples mean =
     dsqrt (dbl (ldbl (squared_deviations samples mean / ldbl (of_nat (length samples - 1)))))"

definition summarize :: "double list \<Rightarrow> summary" where
  "summarize samples =
     (if samples = [] then empty_summary
      else
        let ys = sort samples;
            mean = sample_mean samples
        in \<lparr>s_count = length samples,
            s_mean = mean,
            s_median = quantile ys (dbl (50/100)),
            s_p95 = quantile ys (dbl (95/100)),
            s_p99 = quantile ys (dbl (99/100)),
            s_stddev = (if 2 \<le> length samples then sample_stddev samples mean else 0),
            s_min = hd ys,
            s_max = last ys\<rparr>)"

definition summarize_u64 :: "u64 list \<Rightarrow> summary" where
  "summarize_u64 samples = summarize (map double_of_u64 samples)"

section \<open>Quantiles\<close>

subsection \<open>The interpolation position\<close>

lemma quantile_position_exact:
  "n \<le> 2 ^ 53 \<Longrightarrow> quantile_position n q = dbl (q * of_nat (n - 1))"
  by (simp add: quantile_position_def double_of_nat_exact)

lemma quantile_position_bounds:
  assumes "0 \<le> q" "q \<le> 1" "n \<le> 2 ^ 53"
  shows "0 \<le> quantile_position n q" and "quantile_position n q \<le> of_nat (n - 1)"
proof -
  have d: "is_double (of_nat (n - 1))" using assms(3) by (intro fl_of_nat) simp_all
  have "q * of_nat (n - 1) \<le> 1 * of_nat (n - 1)" using assms by (intro mult_right_mono) simp_all
  with d show "quantile_position n q \<le> of_nat (n - 1)"
    using assms(3) by (simp add: quantile_position_exact dbl.ge_iff)
  show "0 \<le> quantile_position n q"
    using assms by (simp add: quantile_position_exact dbl.nonneg)
qed

lemma quantile_indices:
  assumes "0 \<le> q" "q \<le> 1" "0 < n" "n \<le> 2 ^ 53"
  shows "nat \<lfloor>quantile_position n q\<rfloor> \<le> nat \<lceil>quantile_position n q\<rceil>"
    and "nat \<lceil>quantile_position n q\<rceil> < n"
proof -
  note b = quantile_position_bounds [OF assms(1,2,4)]
  have "\<lceil>quantile_position n q\<rceil> \<le> int (n - 1)" using b(2) by (simp add: ceiling_le_iff)
  then show "nat \<lceil>quantile_position n q\<rceil> < n" using assms(3) by linarith
  show "nat \<lfloor>quantile_position n q\<rfloor> \<le> nat \<lceil>quantile_position n q\<rceil>"
    by (intro nat_mono floor_le_ceiling)
qed

lemma quantile_weight:
  assumes "0 \<le> q" "q \<le> 1" "n \<le> 2 ^ 53"
  shows "0 \<le> dbl (quantile_position n q - double_of_nat (nat \<lfloor>quantile_position n q\<rfloor>))"
    and "dbl (quantile_position n q - double_of_nat (nat \<lfloor>quantile_position n q\<rfloor>)) \<le> 1"
proof -
  let ?p = "quantile_position n q"
  note b = quantile_position_bounds [OF assms]
  have "\<lfloor>?p\<rfloor> \<le> int (n - 1)" using b(2) by linarith
  then have "nat \<lfloor>?p\<rfloor> \<le> 2 ^ 53" using assms(3) by linarith
  then have "double_of_nat (nat \<lfloor>?p\<rfloor>) = of_nat (nat \<lfloor>?p\<rfloor>)" by (rule double_of_nat_exact)
  also have "\<dots> = of_int \<lfloor>?p\<rfloor>" using b(1) by simp
  finally have e: "double_of_nat (nat \<lfloor>?p\<rfloor>) = of_int \<lfloor>?p\<rfloor>" .
  show "0 \<le> dbl (?p - double_of_nat (nat \<lfloor>?p\<rfloor>))" by (simp add: e dbl.nonneg)
  show "dbl (?p - double_of_nat (nat \<lfloor>?p\<rfloor>)) \<le> 1"
    unfolding e by (intro dbl.ge_iff) (simp_all, linarith)
qed

subsection \<open>Interpolation error\<close>

text \<open>One rounded interpolation \<open>a * (1 - w) + b * w\<close> with the roundings of the source.\<close>

definition interpolate :: "double \<Rightarrow> double \<Rightarrow> double \<Rightarrow> double" where
  "interpolate a b w = dbl (dbl (a * dbl (1 - w)) + dbl (b * w))"

lemma interpolate_collect: "c * (b * (c * (1 - w))) + c * (c * (b * w)) = c * c * (b :: real)"
  by (simp add: algebra_simps)

lemma interpolate_upper:
  assumes "0 \<le> a" "a \<le> b" "0 \<le> w" "w \<le> 1"
  shows "interpolate a b w \<le> (1 + 1 / 2 ^ 53) ^ 3 * b"
proof -
  let ?c = "1 + 1 / 2 ^ 53 :: real"
  have c: "1 \<le> ?c" "0 \<le> ?c" by simp_all
  have "a * dbl (1 - w) \<le> b * (?c * (1 - w))"
    using assms dbl.le_bound [of "1 - w" "1 - w"] by (intro mult_mono) (simp_all add: dbl.nonneg)
  then have 1: "dbl (a * dbl (1 - w)) \<le> ?c * (b * (?c * (1 - w)))"
    using assms by (intro dbl.le_bound) simp_all
  have 2: "dbl (b * w) \<le> ?c * (?c * (b * w))"
  proof -
    have "dbl (b * w) \<le> ?c * (b * w)" using assms by (intro dbl.le_bound) simp_all
    also have "\<dots> \<le> ?c * (?c * (b * w))"
      using assms c mult_right_mono [of 1 ?c "b * w"] by (intro mult_left_mono) simp_all
    finally show ?thesis .
  qed
  have "dbl (a * dbl (1 - w)) + dbl (b * w) \<le> ?c * (b * (?c * (1 - w))) + ?c * (?c * (b * w))"
    using 1 2 by (rule add_mono)
  also have "\<dots> = ?c * ?c * b" by (rule interpolate_collect)
  finally have "interpolate a b w \<le> ?c * (?c * ?c * b)"
    unfolding interpolate_def using assms by (intro dbl.le_bound) simp_all
  then show ?thesis by (simp add: power3_eq_cube mult.assoc)
qed

lemma interpolate_lower:
  assumes "0 \<le> a" "a \<le> b" "0 \<le> w" "w \<le> 1"
  shows "(1 - 1 / 2 ^ 53) ^ 3 * a \<le> interpolate a b w"
proof -
  let ?c = "1 - 1 / 2 ^ 53 :: real"
  have c: "?c \<le> 1" "0 \<le> ?c" by simp_all
  have "a * (?c * (1 - w)) \<le> a * dbl (1 - w)"
    using assms dbl.ge_bound [of "1 - w" "1 - w"] by (intro mult_left_mono) simp_all
  then have 1: "?c * (a * (?c * (1 - w))) \<le> dbl (a * dbl (1 - w))"
    using assms c by (intro dbl.ge_bound) simp_all
  have 2: "?c * (?c * (a * w)) \<le> dbl (b * w)"
  proof -
    have "?c * (?c * (a * w)) \<le> ?c * (a * w)"
      using assms c mult_right_mono [of ?c 1 "a * w"] by (intro mult_left_mono) simp_all
    also have "\<dots> \<le> dbl (b * w)"
      using assms by (intro dbl.ge_bound mult_right_mono) simp_all
    finally show ?thesis .
  qed
  have "?c * ?c * a = ?c * (a * (?c * (1 - w))) + ?c * (?c * (a * w))"
    by (rule interpolate_collect [symmetric])
  also have "\<dots> \<le> dbl (a * dbl (1 - w)) + dbl (b * w)" using 1 2 by (rule add_mono)
  finally have "?c * (?c * ?c * a) \<le> interpolate a b w"
    unfolding interpolate_def using assms c by (intro dbl.ge_bound) simp_all
  then show ?thesis by (simp add: power3_eq_cube mult.assoc)
qed

lemma quantile_cases:
  "2 \<le> length ys \<Longrightarrow> quantile ys q =
     (let p = quantile_position (length ys) q in
      if nat \<lfloor>p\<rfloor> = nat \<lceil>p\<rceil> then ys ! nat \<lfloor>p\<rfloor>
      else interpolate (ys ! nat \<lfloor>p\<rfloor>) (ys ! nat \<lceil>p\<rceil>) (dbl (p - double_of_nat (nat \<lfloor>p\<rfloor>))))"
  by (auto simp: quantile_def interpolate_def Let_def)

lemma quantile_bounds:
  assumes "sorted ys" "ys \<noteq> []" "0 \<le> hd ys" "0 \<le> q" "q \<le> 1" "length ys \<le> 2 ^ 53"
  shows "(1 - 1 / 2 ^ 53) ^ 3 * hd ys \<le> quantile ys q"
    and "quantile ys q \<le> (1 + 1 / 2 ^ 53) ^ 3 * last ys"
proof -
  let ?n = "length ys" and ?c = "(1 - 1 / 2 ^ 53) ^ 3 :: real" and ?d = "(1 + 1 / 2 ^ 53) ^ 3 :: real"
  let ?p = "quantile_position ?n q"
  let ?l = "nat \<lfloor>?p\<rfloor>" and ?u = "nat \<lceil>?p\<rceil>"
  have n: "0 < ?n" using assms(2) by simp
  note ix = quantile_indices [OF assms(4,5) n assms(6)]
  have hd: "hd ys \<le> ys ! i" "0 \<le> ys ! i" if "i < ?n" for i
    using sorted_nth_mono [OF assms(1), of 0 i] that assms(2,3) by (simp_all add: hd_conv_nth)
  have last: "ys ! i \<le> last ys" if "i < ?n" for i
    using sorted_nth_mono [OF assms(1), of i "?n - 1"] that assms(2) by (simp add: last_conv_nth)
  have c: "?c \<le> 1" "0 \<le> ?c" and d: "1 \<le> ?d" by (simp_all add: power_le_one)
  have scale: "?c * x \<le> x" "x \<le> ?d * x" if "0 \<le> x" for x :: real
    using mult_right_mono [OF c(1) that] mult_right_mono [OF d that] by simp_all
  have "?c * hd ys \<le> quantile ys q \<and> quantile ys q \<le> ?d * last ys"
  proof (cases "2 \<le> ?n")
    case False
    with n have "length ys = 1" by linarith
    then obtain y where y: "ys = [y]" by (auto simp: length_Suc_conv)
    with assms(3) show ?thesis using scale [of y] by (simp add: quantile_def)
  next
    case True
    show ?thesis
    proof (cases "?l = ?u")
      case eq: True
      then have q: "quantile ys q = ys ! ?l" using True by (simp add: quantile_cases Let_def)
      have l: "?l < ?n" using ix by simp
      have "0 \<le> last ys" using last [OF l] hd(2) [OF l] by simp
      then show ?thesis using hd(1) [OF l] last [OF l] scale(1) [OF assms(3)] scale(2) [of "last ys"] q
        by linarith
    next
      case False
      let ?w = "dbl (?p - double_of_nat ?l)"
      have q: "quantile ys q = interpolate (ys ! ?l) (ys ! ?u) ?w"
        using True False by (simp add: quantile_cases Let_def)
      have l: "?l < ?n" using ix by simp
      have lu: "ys ! ?l \<le> ys ! ?u" using ix by (intro sorted_nth_mono [OF assms(1)])
      note w = quantile_weight [OF assms(4,5,6)]
      have "?c * hd ys \<le> ?c * ys ! ?l" using hd(1) [OF l] c(2) by (rule mult_left_mono)
      also have "\<dots> \<le> quantile ys q" unfolding q using hd(2) [OF l] lu w by (rule interpolate_lower)
      finally have "?c * hd ys \<le> quantile ys q" .
      moreover have "quantile ys q \<le> ?d * ys ! ?u"
        unfolding q using hd(2) [OF l] lu w by (rule interpolate_upper)
      moreover have "?d * ys ! ?u \<le> ?d * last ys"
        using last [OF ix(2)] by (intro mult_left_mono) simp_all
      ultimately show ?thesis by linarith
    qed
  qed
  then show "?c * hd ys \<le> quantile ys q" "quantile ys q \<le> ?d * last ys" by simp_all
qed

subsection \<open>The median\<close>

text \<open>
  At \<open>q = 0.50\<close> the position is exact, so the quantile is the middle element of an odd
  count and the rounded average of the two middle elements of an even one.
\<close>

lemma dbl_half [simp]: "dbl (1 / 2) = 1 / 2"
  using fl_half [of 53 1] by simp

lemma median_position:
  assumes "n \<le> 2 ^ 53"
  shows "quantile_position n (1/2) = of_nat (n - 1) / 2"
proof -
  have "dbl (of_nat (n - 1)) = of_nat (n - 1)" using assms by (intro fl_of_nat) simp_all
  then show ?thesis using assms by (simp add: quantile_position_exact fl_half)
qed

lemma quantile_median:
  assumes "ys \<noteq> []" "length ys \<le> 2 ^ 53" "\<And>y. y \<in> set ys \<Longrightarrow> is_double y"
  shows "quantile ys (1/2) =
     (if odd (length ys) then ys ! (length ys div 2)
      else dbl ((ys ! (length ys div 2 - 1) + ys ! (length ys div 2)) / 2))"
proof (cases "2 \<le> length ys")
  case False
  with assms(1) have "length ys = 1" by (cases ys) (auto simp: not_le less_Suc_eq)
  then show ?thesis by (auto simp: quantile_def length_Suc_conv)
next
  case True
  let ?n = "length ys" and ?k = "length ys div 2"
  note p = median_position [OF assms(2)]
  show ?thesis
  proof (cases "odd ?n")
    case odd: True
    then have "?n - 1 = 2 * ?k" by (metis add_diff_cancel_right' odd_two_times_div_two_succ)
    then have "of_nat (?n - 1) / 2 = (of_nat ?k :: real)" by simp
    then show ?thesis using True odd by (simp add: quantile_cases p Let_def)
  next
    case even: False
    then have n: "?n = 2 * ?k" by simp
    then have k: "1 \<le> ?k" using True by linarith
    with n have "of_nat (?n - 1) / 2 = (of_nat (?k - 1) + 1/2 :: real)" by (simp add: of_nat_diff)
    then have pos: "quantile_position ?n (1/2) = of_nat (?k - 1) + 1/2" using p by simp
    have fl: "nat \<lfloor>of_nat (?k - 1) + 1/2 :: real\<rfloor> = ?k - 1"
      "nat \<lceil>of_nat (?k - 1) + 1/2 :: real\<rceil> = ?k" using k by linarith+
    have "?k - 1 \<le> 2 ^ 53" using assms(2) n by linarith
    then have w: "double_of_nat (?k - 1) = of_nat (?k - 1)" by (rule double_of_nat_exact)
    have "quantile ys (1/2) = interpolate (ys ! (?k - 1)) (ys ! ?k) (1/2)"
    proof -
      have "?k - 1 \<noteq> ?k" using k by linarith
      then show ?thesis unfolding quantile_cases [OF True] Let_def pos fl w by simp
    qed
    also have "\<dots> = dbl ((ys ! (?k - 1) + ys ! ?k) / 2)"
    proof -
      have "ys ! (?k - 1) \<in> set ys" "ys ! ?k \<in> set ys" using k n by (intro nth_mem; linarith)+
      then have "is_double (ys ! (?k - 1))" "is_double (ys ! ?k)" by (simp_all add: assms(3))
      then show ?thesis by (simp add: interpolate_def fl_half add_divide_distrib)
    qed
    finally show ?thesis using even by simp
  qed
qed

section \<open>Means\<close>

text \<open>The rounded mean differs from the real mean by a relative error of the sum of magnitudes.\<close>

lemma ldbl_of_nat: "n \<le> 2 ^ 64 \<Longrightarrow> ldbl (of_nat n) = of_nat n"
  by (simp add: fl_of_nat)

lemma acc_sum_abs:
  "\<bar>acc_sum ldbl xs\<bar> \<le> (1 + 1 / 2 ^ 64) ^ length xs * sum_list (map abs xs)"
  using ldbl.acc_sum_error [of xs] sum_list_abs [of xs] by (simp add: left_diff_distrib)

lemma sample_mean_error:
  assumes "xs \<noteq> []" "length xs \<le> 2 ^ 64"
  shows "\<bar>sample_mean xs - sum_list xs / of_nat (length xs)\<bar>
     \<le> ((1 + 1 / 2 ^ 64) ^ (length xs + 1) * (1 + 1 / 2 ^ 53) - 1)
         * (sum_list (map abs xs) / of_nat (length xs))"
proof -
  define n :: real where "n = of_nat (length xs)"
  define S where "S = acc_sum ldbl xs"
  define A where "A = sum_list (map abs xs)"
  define Q :: real where "Q = (1 + 1 / 2 ^ 64) ^ length xs"
  define u :: real where "u = 1 / 2 ^ 64"
  define v :: real where "v = 1 / 2 ^ 53"
  have n: "0 < n" using assms(1) by (simp add: n_def)
  have mean: "sample_mean xs = dbl (ldbl (S / n))"
    using assms(2) by (simp add: sample_mean_def ldbl_of_nat n_def S_def)
  have uv: "0 \<le> u" "0 \<le> v" by (simp_all add: u_def v_def)
  have S: "\<bar>S / n\<bar> \<le> Q * A / n"
    using acc_sum_abs [of xs] n by (simp add: S_def Q_def A_def abs_divide divide_right_mono)
  have 1: "\<bar>S / n - sum_list xs / n\<bar> \<le> (Q - 1) * A / n"
  proof -
    have "\<bar>S / n - sum_list xs / n\<bar> = \<bar>S - sum_list xs\<bar> / n"
      using n by (simp add: diff_divide_distrib [symmetric] abs_divide)
    also have "\<dots> \<le> (Q - 1) * A / n"
      using ldbl.acc_sum_error [of xs] n by (intro divide_right_mono) (simp_all add: S_def Q_def A_def)
    finally show ?thesis .
  qed
  have 2: "\<bar>ldbl (S / n) - S / n\<bar> \<le> u * (Q * A / n)"
    unfolding u_def using S by (rule ldbl.err_le)
  have 3: "\<bar>dbl (ldbl (S / n)) - ldbl (S / n)\<bar> \<le> v * ((1 + u) * (Q * A / n))"
  proof -
    have "\<bar>ldbl (S / n)\<bar> \<le> u * (Q * A / n) + Q * A / n" using 2 S by linarith
    also have "\<dots> = (1 + u) * (Q * A / n)" by (simp only: distrib_right mult_1 add.commute)
    finally have "\<bar>ldbl (S / n)\<bar> \<le> (1 + u) * (Q * A / n)" .
    then show ?thesis unfolding v_def by (rule dbl.err_le)
  qed
  have "\<bar>sample_mean xs - sum_list xs / n\<bar>
      \<le> (Q - 1) * A / n + u * (Q * A / n) + v * ((1 + u) * (Q * A / n))"
    unfolding mean using 1 2 3 by linarith
  also have "\<dots> = (Q * (1 + u) * (1 + v) - 1) * (A / n)" using n by (simp add: field_simps)
  finally show ?thesis
    unfolding n_def A_def Q_def u_def v_def power_add power_one_right .
qed

text \<open>Whole-number samples whose total fits the \<open>long double\<close> mantissa are summed exactly.\<close>

lemma sample_mean_of_nat:
  assumes "length ns \<le> 2 ^ 64" "sum_list ns \<le> 2 ^ 64"
  shows "sample_mean (map of_nat ns) = dbl (ldbl (of_nat (sum_list ns) / of_nat (length ns)))"
  using assms by (simp add: sample_mean_def acc_sum_of_nat ldbl_of_nat)

lemma dbl_ldbl: "is_double x \<Longrightarrow> dbl (ldbl x) = x"
  using fl_fl_le [of 53 64 x] by simp

lemma dbl_ldbl_between:
  assumes "is_double a" "is_double b" "a \<le> x" "x \<le> b"
  shows "a \<le> dbl (ldbl x)" and "dbl (ldbl x) \<le> b"
  using dbl.mono [OF ldbl.mono [OF assms(3)]] dbl.mono [OF ldbl.mono [OF assms(4)]] assms(1,2)
  by (simp_all add: dbl_ldbl)

lemma sum_list_bounds:
  assumes "\<And>n. n \<in> set ns \<Longrightarrow> lo \<le> n \<and> n \<le> hi"
  shows "length ns * lo \<le> sum_list ns \<and> sum_list ns \<le> length ns * (hi::nat)"
  using assms by (induction ns) (fastforce simp: algebra_simps)+

lemma sample_mean_between:
  assumes "ns \<noteq> []" "length ns \<le> 2 ^ 64" "sum_list ns \<le> 2 ^ 64" "hi \<le> 2 ^ 53"
    and "\<And>n. n \<in> set ns \<Longrightarrow> lo \<le> n \<and> n \<le> hi"
  shows "of_nat lo \<le> sample_mean (map of_nat ns)" and "sample_mean (map of_nat ns) \<le> of_nat hi"
proof -
  obtain n where "n \<in> set ns" using assms(1) by (cases ns) auto
  then have "lo \<le> hi" using assms(5) by fastforce
  then have d: "is_double (of_nat lo)" "is_double (of_nat hi)"
    using assms(4) by (simp_all add: fl_of_nat)
  have l: "(0::real) < of_nat (length ns)" using assms(1) by simp
  have "length ns * lo \<le> sum_list ns" "sum_list ns \<le> length ns * hi"
    using sum_list_bounds [of ns lo hi] assms(5) by blast+
  then have "of_nat (length ns) * of_nat lo \<le> (of_nat (sum_list ns) :: real)"
    "(of_nat (sum_list ns) :: real) \<le> of_nat (length ns) * of_nat hi"
    by (simp_all only: of_nat_mult [symmetric] of_nat_le_iff)
  then have "of_nat lo \<le> of_nat (sum_list ns) / (of_nat (length ns) :: real)"
    "of_nat (sum_list ns) / (of_nat (length ns) :: real) \<le> of_nat hi"
    using l by (simp_all add: le_divide_eq divide_le_eq mult.commute)
  then show "of_nat lo \<le> sample_mean (map of_nat ns)" "sample_mean (map of_nat ns) \<le> of_nat hi"
    using dbl_ldbl_between [OF d] assms(2,3) by (simp_all add: sample_mean_of_nat)
qed

lemma sample_mean_const:
  assumes "0 < n" "n * c \<le> 2 ^ 64" "c \<le> 2 ^ 53" "n \<le> 2 ^ 64"
  shows "sample_mean (replicate n (of_nat c)) = of_nat c"
proof -
  have "sample_mean (map of_nat (replicate n c)) = dbl (ldbl (of_nat (n * c) / of_nat n))"
    using assms by (subst sample_mean_of_nat) (simp_all add: sum_list_replicate)
  also have "\<dots> = of_nat c" using assms by (simp add: dbl_ldbl fl_of_nat)
  finally show ?thesis by simp
qed

section \<open>The standard deviation\<close>

lemma squared_deviations_snoc:
  "squared_deviations (xs @ [v]) m =
     ldbl (squared_deviations xs m + ldbl (ldbl (v - m) * ldbl (v - m)))"
  by (simp add: squared_deviations_def Let_def)

lemma squared_deviations_Nil [simp]: "squared_deviations [] m = 0"
  by (simp add: squared_deviations_def)

lemma squared_deviations_nonneg: "0 \<le> squared_deviations xs m"
  by (induction xs rule: rev_induct) (simp_all add: squared_deviations_snoc ldbl.nonneg)

lemma sample_stddev_nonneg: "0 \<le> sample_stddev xs m"
  unfolding sample_stddev_def
  by (intro fsqrt_nonneg dbl.nonneg ldbl.nonneg divide_nonneg_nonneg squared_deviations_nonneg)
    simp

lemma squared_deviations_const: "squared_deviations (replicate n m) m = 0"
proof (induction n)
  case (Suc n)
  have "replicate (Suc n) m = replicate n m @ [m]" by (simp add: replicate_append_same)
  then show ?case using Suc by (simp only: squared_deviations_snoc) simp
qed simp

lemma sample_stddev_const: "sample_stddev (replicate n m) m = 0"
  by (simp add: sample_stddev_def squared_deviations_const)

section \<open>The summary\<close>

lemma summarize_Nil [simp]: "summarize [] = empty_summary"
  by (simp add: summarize_def)

lemma s_count_summarize [simp]: "s_count (summarize xs) = length xs"
  by (simp add: summarize_def empty_summary_def Let_def)

lemma summarize_min_max:
  assumes "xs \<noteq> []"
  shows "s_min (summarize xs) = Min (set xs)" and "s_max (summarize xs) = Max (set xs)"
proof -
  have ne: "0 < length xs" using assms by simp
  have hd: "hd (sort xs) = sort xs ! 0" and last: "last (sort xs) = sort xs ! (length xs - 1)"
    using assms by (metis hd_conv_nth last_conv_nth length_sort set_empty set_sort)+
  have ix: "\<exists>i<length xs. y = sort xs ! i" if "y \<in> set xs" for y
    using that by (metis in_set_conv_nth length_sort set_sort)
  have le: "sort xs ! 0 \<le> y" "y \<le> sort xs ! (length xs - 1)" if "y \<in> set xs" for y
    using ix [OF that] ne by (auto intro!: sort_nth_mono)
  have "Min (set xs) = hd (sort xs)"
    unfolding hd using ne le by (intro Min_eqI) (auto simp: sort_nth_mem)
  moreover have "Max (set xs) = last (sort xs)"
    unfolding last using ne le by (intro Max_eqI) (auto simp: sort_nth_mem)
  ultimately show "s_min (summarize xs) = Min (set xs)" "s_max (summarize xs) = Max (set xs)"
    using assms by (simp_all add: summarize_def Let_def)
qed

lemma s_mean_summarize: "xs \<noteq> [] \<Longrightarrow> s_mean (summarize xs) = sample_mean xs"
  by (simp add: summarize_def Let_def)

lemma s_median_summarize: "xs \<noteq> [] \<Longrightarrow> s_median (summarize xs) = quantile (sort xs) (1/2)"
  by (simp add: summarize_def Let_def)

lemma s_stddev_summarize:
  "s_stddev (summarize xs) = (if 2 \<le> length xs then sample_stddev xs (sample_mean xs) else 0)"
  by (simp add: summarize_def Let_def empty_summary_def)

lemma s_stddev_nonneg: "0 \<le> s_stddev (summarize xs)"
  by (simp add: s_stddev_summarize sample_stddev_nonneg)

lemma summary_median_between:
  assumes "xs \<noteq> []" "length xs \<le> 2 ^ 53" "\<And>x. x \<in> set xs \<Longrightarrow> is_double x \<and> lo \<le> x \<and> x \<le> hi"
  shows "lo \<le> s_median (summarize xs) \<and> s_median (summarize xs) \<le> hi"
proof -
  let ?ys = "sort xs" and ?k = "length xs div 2"
  have ne: "?ys \<noteq> []" using assms(1) by (metis set_empty set_sort)
  have k: "?k < length xs" using assms(1) by (rule half_less_length)
  have mem: "?ys ! (?k - 1) \<in> set xs" "?ys ! ?k \<in> set xs" using k by (simp_all add: sort_nth_mem)
  have m: "s_median (summarize xs) =
     (if odd (length xs) then ?ys ! ?k else dbl ((?ys ! (?k - 1) + ?ys ! ?k) / 2))"
    using assms quantile_median [OF ne] by (simp add: s_median_summarize)
  have "dbl (dbl (?ys ! (?k - 1) + ?ys ! ?k) / 2) = dbl ((?ys ! (?k - 1) + ?ys ! ?k) / 2)"
    by (simp add: fl_half dbl.idem)
  then show ?thesis
    using m mem assms(3) dbl.midpoint_between [of "?ys ! (?k - 1)" "?ys ! ?k" lo hi] by auto
qed

subsection \<open>Properties\<close>

text \<open>every quantile reads only existing elements of the sorted sample vector: for a
  fraction between 0 and 1 and up to 2^53 samples the two interpolation indices are in range
  and in order, and the interpolation weight is between 0 and 1.\<close>

theorem quantile_reads_in_range:
  assumes "0 \<le> q" "q \<le> 1" "0 < n" "n \<le> 2 ^ 53"
  shows "nat \<lfloor>quantile_position n q\<rfloor> \<le> nat \<lceil>quantile_position n q\<rceil>
     \<and> nat \<lceil>quantile_position n q\<rceil> < n
     \<and> 0 \<le> dbl (quantile_position n q - double_of_nat (nat \<lfloor>quantile_position n q\<rfloor>))
     \<and> dbl (quantile_position n q - double_of_nat (nat \<lfloor>quantile_position n q\<rfloor>)) \<le> 1"
  using quantile_indices [OF assms] quantile_weight [OF assms(1,2,4)] by simp

theorem quantile_reads_in_range_witness:
  "nat \<lceil>quantile_position 5 (dbl (95/100))\<rceil> < 5"
proof -
  have "0 \<le> dbl (95/100)" by (intro dbl.nonneg) simp
  moreover have "dbl (95/100) \<le> 1" by (intro dbl.ge_iff) simp_all
  ultimately show ?thesis using quantile_reads_in_range [of "dbl (95/100)" 5] by simp
qed

text \<open>C20: for nonnegative samples the reported median lies between minimum and maximum
  exactly, and the 95th and 99th percentiles do up to the three roundings of the interpolation,
  a factor (1 +- 2^-53)^3; minimum and maximum are those of the samples and the standard
  deviation is not negative.\<close>

theorem summary_within_range:
  assumes "xs \<noteq> []" "length xs \<le> 2 ^ 53" "\<forall>x\<in>set xs. is_double x \<and> 0 \<le> x"
  shows "s_min (summarize xs) = Min (set xs) \<and> s_max (summarize xs) = Max (set xs)
     \<and> s_min (summarize xs) \<le> s_median (summarize xs) \<and> s_median (summarize xs) \<le> s_max (summarize xs)
     \<and> (\<forall>p \<in> {s_p95 (summarize xs), s_p99 (summarize xs)}.
          (1 - 1 / 2 ^ 53) ^ 3 * s_min (summarize xs) \<le> p
          \<and> p \<le> (1 + 1 / 2 ^ 53) ^ 3 * s_max (summarize xs))
     \<and> 0 \<le> s_stddev (summarize xs)"
proof -
  let ?ys = "sort xs"
  have ne: "?ys \<noteq> []" using assms(1) by (metis set_empty set_sort)
  have hd0: "0 \<le> hd ?ys" using assms(3) ne by (metis hd_in_set set_sort)
  have q: "0 \<le> dbl (95/100)" "dbl (95/100) \<le> 1" "0 \<le> dbl (99/100)" "dbl (99/100) \<le> 1"
    by (auto intro: dbl.nonneg dbl.ge_iff)
  have len: "length ?ys \<le> 2 ^ 53" using assms(2) by simp
  have ext: "hd ?ys = s_min (summarize xs)" "last ?ys = s_max (summarize xs)"
    "quantile ?ys (dbl (95/100)) = s_p95 (summarize xs)"
    "quantile ?ys (dbl (99/100)) = s_p99 (summarize xs)"
    using assms(1) by (simp_all add: summarize_def Let_def)
  note b = quantile_bounds [OF sorted_sort ne hd0, OF _ _ len]
  have "s_min (summarize xs) \<le> s_median (summarize xs) \<and> s_median (summarize xs) \<le> s_max (summarize xs)"
    using assms summarize_min_max [OF assms(1)] by (intro summary_median_between) simp_all
  then show ?thesis
    using summarize_min_max [OF assms(1)] s_stddev_nonneg
      b [OF q(1,2), unfolded ext] b [OF q(3,4), unfolded ext] by simp
qed

theorem summary_within_range_witness:
  "s_median (summarize [5/4, 5/2, 15/4]) \<le> s_max (summarize [5/4, 5/2, 15/4])"
proof -
  have "is_double (5/4)" "is_double (5/2)" "is_double (15/4)" by code_simp+
  then show ?thesis using summary_within_range [of "[5/4, 5/2, 15/4]"] by simp
qed

text \<open>C21: the reported mean is the real average of the samples up to a relative error (of the
  average magnitude) of n + 1 \<open>long double\<close> roundings and one \<open>double\<close> rounding.\<close>

theorem summary_mean_error:
  assumes "xs \<noteq> []" "length xs \<le> 2 ^ 64"
  shows "\<bar>s_mean (summarize xs) - sum_list xs / of_nat (length xs)\<bar>
     \<le> ((1 + 1 / 2 ^ 64) ^ (length xs + 1) * (1 + 1 / 2 ^ 53) - 1)
         * (sum_list (map abs xs) / of_nat (length xs))"
  using sample_mean_error [OF assms] assms(1) by (simp add: s_mean_summarize)

theorem summary_mean_error_witness:
  "\<bar>s_mean (summarize [1, 2]) - 3 / 2\<bar>
     \<le> ((1 + 1 / 2 ^ 64) ^ 3 * (1 + 1 / 2 ^ 53) - 1) * (3 / 2)"
  using summary_mean_error [of "[1, 2]"] by (simp add: numeral_3_eq_3)

text \<open>cycle counts up to 2^53 whose total fits 64 bits are averaged without drift: the mean
  lies between the smallest and the largest count, as do the reported extremes.\<close>

theorem counter_mean_between:
  assumes "ws \<noteq> []" "length ws \<le> 2 ^ 64" "\<forall>w\<in>set ws. unat w \<le> 2 ^ 53"
    "sum_list (map unat ws) \<le> 2 ^ 64"
  shows "s_min (summarize_u64 ws) \<le> s_mean (summarize_u64 ws)
     \<and> s_mean (summarize_u64 ws) \<le> s_max (summarize_u64 ws)"
proof -
  let ?ns = "map unat ws"
  have eq: "map double_of_u64 ws = map of_nat ?ns"
    using assms(3) by (auto simp: double_of_u64_def double_of_nat_exact simp del: of_nat_unat)
  have ne: "?ns \<noteq> []" using assms(1) by simp
  have ex: "Min (of_nat ` set ?ns) = (of_nat (Min (set ?ns)) :: real)"
    "Max (of_nat ` set ?ns) = (of_nat (Max (set ?ns)) :: real)"
    using ne mono_Min_commute [of "of_nat :: nat \<Rightarrow> real" "set ?ns"]
      mono_Max_commute [of "of_nat :: nat \<Rightarrow> real" "set ?ns"] by (simp_all add: mono_def)
  have "Max (set ?ns) \<le> 2 ^ 53" using assms(1,3) by (subst Max_le_iff) auto
  then have "of_nat (Min (set ?ns)) \<le> sample_mean (map of_nat ?ns)
      \<and> sample_mean (map of_nat ?ns) \<le> of_nat (Max (set ?ns))"
    using sample_mean_between [of ?ns "Max (set ?ns)" "Min (set ?ns)"] assms(1,2,4) ne
    by (simp del: set_map)
  moreover have L: "map of_nat ?ns \<noteq> ([] :: real list)" using ne by simp
  moreover have "s_min (summarize (map of_nat ?ns)) = of_nat (Min (set ?ns))"
    "s_max (summarize (map of_nat ?ns)) = of_nat (Max (set ?ns))"
    unfolding summarize_min_max [OF L] ex [symmetric] by (simp_all add: image_image)
  ultimately show ?thesis
    unfolding summarize_u64_def eq s_mean_summarize [OF L] by simp
qed

theorem counter_mean_between_witness:
  "s_min (summarize_u64 [70, 74, 69]) \<le> s_mean (summarize_u64 [70, 74, 69])"
  using counter_mean_between [of "[70, 74, 69]"] by simp

text \<open>the order in which samples arrive changes none of the order statistics.\<close>

theorem order_statistics_perm:
  assumes "mset xs = mset ys"
  shows "s_count (summarize xs) = s_count (summarize ys)
     \<and> s_median (summarize xs) = s_median (summarize ys)
     \<and> s_p95 (summarize xs) = s_p95 (summarize ys) \<and> s_p99 (summarize xs) = s_p99 (summarize ys)
     \<and> s_min (summarize xs) = s_min (summarize ys) \<and> s_max (summarize xs) = s_max (summarize ys)"
proof -
  have "sort xs = sort ys" "length xs = length ys" "xs = [] \<longleftrightarrow> ys = []"
    using sort_cong_mset [OF assms] mset_eq_length [OF assms] assms by auto
  then show ?thesis unfolding summarize_def Let_def by simp
qed

theorem order_statistics_perm_witness:
  "s_median (summarize [3, 1, 2]) = s_median (summarize [2, 3, 1])"
  using order_statistics_perm [of "[3, 1, 2]" "[2, 3, 1]"] by simp

end
