(* ===== verification/Timing.thy ===== *)
theory Timing
  imports Prelude
begin

text \<open>
  Model of \<open>src/timer.cpp\<close>.  The hardware and the kernel are parameters: \<open>rdtscp k\<close> is
  what the \<open>k\<close>-th RDTSCP of the process returns (ticks and processor id), \<open>clock_raw k\<close> what
  the \<open>k\<close>-th \<open>clock_gettime(CLOCK_MONOTONIC_RAW)\<close> returns (seconds and nanoseconds, or
  \<open>None\<close> when it fails).  The state counts the reads and keeps the trace of instructions
  the timed sections are about: loads, stores, flushes and fences.  A compiler barrier emits
  no instruction and leaves no event.
\<close>

section \<open>The machine\<close>

datatype 'a event = Lfence | Mfence | Rdtscp | Load 'a | Store 'a | Flush 'a | Sleep int

record hardware =
  rdtscp :: "nat \<Rightarrow> u64 \<times> u32"
  clock_raw :: "nat \<Rightarrow> (u64 \<times> u64) option"

record 'a machine =
  tsc_reads :: nat
  clock_reads :: nat
  trace :: "'a event list"

definition emit :: "'a event list \<Rightarrow> 'a machine \<Rightarrow> 'a machine" where
  "emit es m = m\<lparr>trace := trace m @ es\<rparr>"

definition read_tsc_start :: "hardware \<Rightarrow> 'a machine \<Rightarrow> (u64 \<times> u32) \<times> 'a machine" where
  "read_tsc_start hw m =
     (rdtscp hw (tsc_reads m),
      emit [Lfence, Rdtscp, Lfence] (m\<lparr>tsc_reads := Suc (tsc_reads m)\<rparr>))"

definition read_tsc_end :: "hardware \<Rightarrow> 'a machine \<Rightarrow> (u64 \<times> u32) \<times> 'a machine" where
  "read_tsc_end hw m =
     (rdtscp hw (tsc_reads m),
      emit [Lfence, Rdtscp, Lfence] (m\<lparr>tsc_reads := Suc (tsc_reads m)\<rparr>))"

definition monotonic_raw_ns :: "hardware \<Rightarrow> 'a machine \<Rightarrow> (exn + u64) \<times> 'a machine" where
  "monotonic_raw_ns hw m =
     (case clock_raw hw (clock_reads m) of
        None \<Rightarrow> Inl (RuntimeError ''clock_gettime(CLOCK_MONOTONIC_RAW) failed'')
      | Some (tv_sec, tv_nsec) \<Rightarrow> Inr (tv_sec * 1000000000 + tv_nsec),
      m\<lparr>clock_reads := Suc (clock_reads m)\<rparr>)"

definition clflush :: "'a \<Rightarrow> 'a machine \<Rightarrow> 'a machine" where
  "clflush address m = emit [Flush address] m"

definition clflush_fence :: "'a machine \<Rightarrow> 'a machine" where
  "clflush_fence m = emit [Mfence] m"

section \<open>Calibration of the time stamp counter\<close>

definition tsc_estimate :: "u64 \<Rightarrow> u64 \<Rightarrow> double" where
  "tsc_estimate ticks elapsed_ns =
     dbl (double_of_u64 ticks / dbl (double_of_u64 elapsed_ns * dbl (1 / 10 ^ 9)))"

definition calibration_round ::
  "hardware \<Rightarrow> int \<Rightarrow> 'a machine \<Rightarrow> (exn + double option) \<times> 'a machine" where
  "calibration_round hw interval_ms m0 =
     (let (ns_start, m1) = monotonic_raw_ns hw m0 in
      case ns_start of Inl e \<Rightarrow> (Inl e, m1) | Inr ns_start \<Rightarrow>
      (let ((tsc_start, aux_start), m2) = read_tsc_start hw m1;
           m3 = emit [Sleep interval_ms] m2;
           ((tsc_end, aux_end), m4) = read_tsc_end hw m3;
           (ns_end, m5) = monotonic_raw_ns hw m4
       in case ns_end of Inl e \<Rightarrow> (Inl e, m5) | Inr ns_end \<Rightarrow>
         (let elapsed_ns = ns_end - ns_start in
          (Inr (if elapsed_ns = 0 \<or> aux_start \<noteq> aux_end then None
                else Some (tsc_estimate (tsc_end - tsc_start) elapsed_ns)), m5))))"

fun calibration_loop ::
  "hardware \<Rightarrow> int \<Rightarrow> nat \<Rightarrow> double list \<Rightarrow> 'a machine \<Rightarrow> (exn + double list) \<times> 'a machine" where
  "calibration_loop hw interval_ms 0 estimates m = (Inr estimates, m)"
| "calibration_loop hw interval_ms (Suc i) estimates m =
     (case calibration_round hw interval_ms m of
        (Inl e, m') \<Rightarrow> (Inl e, m')
      | (Inr None, m') \<Rightarrow> calibration_loop hw interval_ms i estimates m'
      | (Inr (Some x), m') \<Rightarrow> calibration_loop hw interval_ms i (estimates @ [x]) m')"

definition calibrate_tsc_hz ::
  "hardware \<Rightarrow> int \<Rightarrow> int \<Rightarrow> 'a machine \<Rightarrow> (exn + double) \<times> 'a machine" where
  "calibrate_tsc_hz hw rounds interval_ms m =
     (if rounds \<le> 0 \<or> interval_ms \<le> 0
      then (Inl (InvalidArgument ''TSC calibration parameters must be positive''), m)
      else case calibration_loop hw interval_ms (nat rounds) [] m of
        (Inl e, m') \<Rightarrow> (Inl e, m')
      | (Inr estimates, m') \<Rightarrow>
          (if estimates = [] then Inl (RuntimeError ''Unable to calibrate TSC rate'')
           else Inr (upper_median estimates), m'))"

section \<open>Overhead of the timing sequence\<close>

fun overhead_loop :: "hardware \<Rightarrow> nat \<Rightarrow> u64 list \<Rightarrow> 'a machine \<Rightarrow> u64 list \<times> 'a machine" where
  "overhead_loop hw 0 values m = (values, m)"
| "overhead_loop hw (Suc i) values m =
     (let ((t0, _), m1) = read_tsc_start hw m;
          ((t1, _), m2) = read_tsc_end hw m1
      in overhead_loop hw i (values @ [t1 - t0]) m2)"

definition measure_overhead_cycles :: "hardware \<Rightarrow> int \<Rightarrow> 'a machine \<Rightarrow> u64 \<times> 'a machine" where
  "measure_overhead_cycles hw samples m =
     (if samples \<le> 0 then (0, m)
      else let (values, m') = overhead_loop hw (nat samples) [] m in (upper_median values, m'))"

section \<open>Lemmas\<close>

lemmas timing_defs = read_tsc_start_def read_tsc_end_def monotonic_raw_ns_def emit_def
  clflush_def clflush_fence_def

lemma emit_simps [simp]:
  "tsc_reads (emit es m) = tsc_reads m"
  "clock_reads (emit es m) = clock_reads m"
  "trace (emit es m) = trace m @ es"
  by (simp_all add: emit_def)

lemma emit_emit [simp]: "emit es (emit ds m) = emit (ds @ es) m"
  by (simp add: emit_def)

lemma emit_Nil [simp]: "emit [] m = m"
  by (simp add: emit_def)

text \<open>The ticks between the two reads of the \<open>i\<close>-th timed section after read number \<open>r\<close>.\<close>

definition tick_delta :: "hardware \<Rightarrow> nat \<Rightarrow> nat \<Rightarrow> u64" where
  "tick_delta hw r i = fst (rdtscp hw (r + 2 * i + 1)) - fst (rdtscp hw (r + 2 * i))"

lemma tick_delta_shift: "tick_delta hw (r + 2) i = tick_delta hw r (Suc i)"
  by (simp add: tick_delta_def)

lemma overhead_loop_eq:
  "fst (overhead_loop hw n vs m) = vs @ map (tick_delta hw (tsc_reads m)) [0..<n]"
proof (induction n arbitrary: vs m)
  case (Suc n)
  then show ?case
    by (simp add: Let_def split_beta read_tsc_start_def read_tsc_end_def upt_0_Suc
        tick_delta_shift comp_def del: upt_Suc) (simp add: tick_delta_def)
qed simp

subsection \<open>Calibration\<close>

text \<open>What round \<open>k\<close> contributes when the clock works: nothing, or one estimate.\<close>

definition clock_ns :: "hardware \<Rightarrow> nat \<Rightarrow> u64" where
  "clock_ns hw k = (case clock_raw hw k of None \<Rightarrow> 0 | Some (s, ns) \<Rightarrow> s * 1000000000 + ns)"

definition round_estimate :: "hardware \<Rightarrow> nat \<Rightarrow> nat \<Rightarrow> nat \<Rightarrow> double option" where
  "round_estimate hw r c k =
     (let elapsed = clock_ns hw (c + 2 * k + 1) - clock_ns hw (c + 2 * k) in
      if elapsed = 0 \<or> snd (rdtscp hw (r + 2 * k)) \<noteq> snd (rdtscp hw (r + 2 * k + 1)) then None
      else Some (tsc_estimate (tick_delta hw r k) elapsed))"

lemma round_estimate_shift:
  "round_estimate hw (Suc (Suc r)) (Suc (Suc c)) k = round_estimate hw r c (Suc k)"
  using tick_delta_shift [of hw r k] by (simp add: round_estimate_def)

lemma calibration_round_ok:
  assumes "clock_raw hw (clock_reads m) \<noteq> None" "clock_raw hw (Suc (clock_reads m)) \<noteq> None"
  shows "fst (calibration_round hw ms m) = Inr (round_estimate hw (tsc_reads m) (clock_reads m) 0)"
    and "tsc_reads (snd (calibration_round hw ms m)) = Suc (Suc (tsc_reads m))"
    and "clock_reads (snd (calibration_round hw ms m)) = Suc (Suc (clock_reads m))"
  using assms
  by (auto simp: calibration_round_def timing_defs round_estimate_def clock_ns_def tick_delta_def
      Let_def split_beta)

lemma calibration_loop_ok:
  assumes "\<And>k. k < 2 * n \<Longrightarrow> clock_raw hw (clock_reads m + k) \<noteq> None"
  shows "fst (calibration_loop hw ms n es m)
     = Inr (es @ List.map_filter (round_estimate hw (tsc_reads m) (clock_reads m)) [0..<n])"
  using assms
proof (induction n arbitrary: es m)
  case (Suc n)
  obtain x m' where r: "calibration_round hw ms m = (x, m')" by fastforce
  have c: "clock_raw hw (clock_reads m) \<noteq> None" "clock_raw hw (Suc (clock_reads m)) \<noteq> None"
    using Suc.prems [of 0] Suc.prems [of 1] by simp_all
  have x: "x = Inr (round_estimate hw (tsc_reads m) (clock_reads m) 0)"
    and m': "tsc_reads m' = Suc (Suc (tsc_reads m))" "clock_reads m' = Suc (Suc (clock_reads m))"
    using calibration_round_ok [OF c, of ms] by (simp_all add: r)
  have "clock_raw hw (clock_reads m' + k) \<noteq> None" if "k < 2 * n" for k
    using Suc.prems [of "Suc (Suc k)"] that by (simp add: m')
  note IH = Suc.IH [of m', OF this]
  show ?case
    by (cases "round_estimate hw (tsc_reads m) (clock_reads m) 0")
      (simp_all add: r x IH m' round_estimate_shift upt_0_Suc map_filter_map
        List.map_filter_simps del: upt_Suc)
qed (simp add: List.map_filter_simps)

section \<open>Properties\<close>

text \<open>the calibrated overhead of the timing sequence is one of the differences actually
  read, more than half of the readings are at most this value and at least half are at least
  it; without samples it is 0.\<close>

theorem overhead_is_upper_median:
  assumes "0 < n"
  shows "fst (measure_overhead_cycles hw (int n) m)
        \<in> set (map (tick_delta hw (tsc_reads m)) [0..<n])
     \<and> n < 2 * length (filter (\<lambda>i. tick_delta hw (tsc_reads m) i
             \<le> fst (measure_overhead_cycles hw (int n) m)) [0..<n])
     \<and> n \<le> 2 * length (filter (\<lambda>i. fst (measure_overhead_cycles hw (int n) m)
             \<le> tick_delta hw (tsc_reads m) i) [0..<n])
     \<and> fst (measure_overhead_cycles hw 0 m) = 0"
proof -
  let ?vs = "map (tick_delta hw (tsc_reads m)) [0..<n]"
  have ne: "?vs \<noteq> []" using assms by simp
  have r: "fst (measure_overhead_cycles hw (int n) m) = upper_median ?vs"
    using assms by (simp add: measure_overhead_cycles_def overhead_loop_eq split_beta Let_def)
  show ?thesis
    using upper_median_mem [OF ne] upper_median_rank [OF ne]
    unfolding r by (simp add: filter_map comp_def measure_overhead_cycles_def)
qed

theorem overhead_is_upper_median_witness:
  "fst (measure_overhead_cycles \<lparr>rdtscp = (\<lambda>k. (of_nat (k * k), 0)), clock_raw = (\<lambda>_. None)\<rparr> 3
     (\<lparr>tsc_reads = 0, clock_reads = 0, trace = []\<rparr> :: nat machine)) \<in> {1, 5, 9}"
  using overhead_is_upper_median [of 3 "\<lparr>rdtscp = (\<lambda>k. (of_nat (k * k), 0)), clock_raw = (\<lambda>_. None)\<rparr>"
      "\<lparr>tsc_reads = 0, clock_reads = 0, trace = []\<rparr> :: nat machine"]
  by (simp add: tick_delta_def upt_rec)

text \<open>C22: TSC calibration: as long as the clock works, the rate is the upper median of the
  estimates of the rounds that were not discarded (no time elapsed, or the thread moved to
  another CPU).  It is one of these estimates, at most half of them are smaller and fewer than
  half of them are larger, which no other value satisfies; the calibration fails with the runtime error
  exactly when every round was discarded.\<close>

theorem calibrate_tsc_hz_result:
  assumes "0 < rounds" "0 < interval_ms"
    and clock: "\<forall>k < 2 * nat rounds. clock_raw hw (clock_reads m + k) \<noteq> None"
    and es: "es = List.map_filter (round_estimate hw (tsc_reads m) (clock_reads m)) [0..<nat rounds]"
  shows "case fst (calibrate_tsc_hz hw rounds interval_ms m) of
       Inl e \<Rightarrow> es = [] \<and> e = RuntimeError ''Unable to calibrate TSC rate''
     | Inr hz \<Rightarrow> hz \<in> set es
         \<and> 2 * length (filter (\<lambda>x. x < hz) es) \<le> length es
         \<and> 2 * length (filter (\<lambda>x. hz < x) es) < length es
         \<and> (\<forall>y. 2 * length (filter (\<lambda>x. x < y) es) \<le> length es
              \<and> 2 * length (filter (\<lambda>x. y < x) es) < length es \<longrightarrow> y = hz)"
proof -
  have "fst (calibration_loop hw interval_ms (nat rounds) [] m) = Inr es"
    using calibration_loop_ok [of "nat rounds" hw m interval_ms "[]"] clock es by simp
  then obtain m' where l: "calibration_loop hw interval_ms (nat rounds) [] m = (Inr es, m')"
    by (metis prod.collapse)
  have r: "fst (calibrate_tsc_hz hw rounds interval_ms m) =
     (if es = [] then Inl (RuntimeError ''Unable to calibrate TSC rate'') else Inr (upper_median es))"
    using assms(1,2) by (simp add: calibrate_tsc_hz_def l)
  show ?thesis
    using upper_median_mem [of es] upper_median_below [of es] upper_median_above [of es] upper_median_unique [of _ es]
    by (auto simp: r)
qed

text \<open>Five rounds at rates 3, 5, 4, 3 and 9 ticks per nanosecond; the fourth changes the processor, so the
  upper median of the four others is that of the second.\<close>

definition five_rounds :: hardware where
  "five_rounds =
     \<lparr>rdtscp = (\<lambda>k. ([0, 3, 0, 5, 0, 4, 0, 3, 0, 9] ! k, [0, 0, 0, 0, 0, 0, 0, 1, 0, 0] ! k)),
      clock_raw = (\<lambda>k. Some (0, of_nat k))\<rparr>"

theorem calibrate_tsc_hz_result_witness:
  "fst (calibrate_tsc_hz five_rounds 5 50 (\<lparr>tsc_reads = 0, clock_reads = 0, trace = []\<rparr> :: nat machine))
     = Inr (tsc_estimate 5 1)"
proof -
  let ?m = "\<lparr>tsc_reads = 0, clock_reads = 0, trace = []\<rparr> :: nat machine"
  let ?es = "[tsc_estimate 3 1, tsc_estimate 5 1, tsc_estimate 4 1, tsc_estimate 9 1]"
  have upto: "[0..<nat 5] = [0, 1, 2, 3, 4]" by code_simp
  have es: "?es = List.map_filter (round_estimate five_rounds (tsc_reads ?m) (clock_reads ?m)) [0..<nat 5]"
    unfolding upto by (simp add: five_rounds_def round_estimate_def clock_ns_def tick_delta_def List.map_filter_simps)
  have less: "tsc_estimate 3 1 < tsc_estimate 4 1" "tsc_estimate 4 1 < tsc_estimate 5 1" "tsc_estimate 5 1 < tsc_estimate 9 1"
    by code_simp+
  then have "tsc_estimate 3 1 < tsc_estimate 5 1" "tsc_estimate 3 1 < tsc_estimate 9 1" "tsc_estimate 4 1 < tsc_estimate 9 1"
    by linarith+
  note order = less this less [THEN less_not_sym] this [THEN less_not_sym]
  have clock: "\<forall>k < 2 * nat 5. clock_raw five_rounds (clock_reads ?m + k) \<noteq> None"
    by (simp add: five_rounds_def)
  have two: "2 * length (filter (\<lambda>x. x < tsc_estimate 5 1) ?es) \<le> length ?es"
    "2 * length (filter (\<lambda>x. tsc_estimate 5 1 < x) ?es) < length ?es"
    by (simp_all only: filter.simps order if_True if_False less_irrefl) simp_all
  show ?thesis
  proof (cases "fst (calibrate_tsc_hz five_rounds 5 50 ?m)")
    case (Inl e)
    then show ?thesis using calibrate_tsc_hz_result [OF _ _ clock es, of 50] by simp
  next
    case (Inr hz)
    then have "\<forall>y. 2 * length (filter (\<lambda>x. x < y) ?es) \<le> length ?es
        \<and> 2 * length (filter (\<lambda>x. y < x) ?es) < length ?es \<longrightarrow> y = hz"
      using calibrate_tsc_hz_result [OF _ _ clock es, of 50] by simp
    with two have "tsc_estimate 5 1 = hz" by blast
    with Inr show ?thesis by simp
  qed
qed

end
