(* ===== verification/Decimal.thy ===== *)
theory Decimal
  imports Prelude
begin

text \<open>
  Decimal text as the C++ standard library reads and writes it: \<open>std::to_string\<close> and
  \<open>operator<<\<close> on integers, \<open>std::stoi\<close> (leading white space and a sign are allowed,
  trailing characters are ignored, both exceptions are \<open>None\<close>) and \<open>std::from_chars\<close>
  (a minus sign and digits only; it reports where it stopped).
\<close>

section \<open>Digits\<close>

definition digit_char :: "nat \<Rightarrow> char" where
  "digit_char d = char_of (48 + d)"

definition is_digit :: "char \<Rightarrow> bool" where
  "is_digit c \<longleftrightarrow> 48 \<le> (of_char c :: nat) \<and> (of_char c :: nat) \<le> 57"

definition digit_value :: "char \<Rightarrow> nat" where
  "digit_value c = of_char c - 48"

fun to_dec :: "nat \<Rightarrow> string" where
  "to_dec n = (if n < 10 then [digit_char n] else to_dec (n div 10) @ [digit_char (n mod 10)])"

declare to_dec.simps [simp del]

definition to_string :: "int \<Rightarrow> string" where
  "to_string i = (if i < 0 then CHR ''-'' # to_dec (nat (- i)) else to_dec (nat i))"

definition of_dec :: "string \<Rightarrow> nat" where
  "of_dec ds = foldl (\<lambda>n c. 10 * n + digit_value c) 0 ds"

lemma digit_char_value [simp]: "d < 10 \<Longrightarrow> digit_value (digit_char d) = d"
  by (simp add: digit_value_def digit_char_def of_char_of)

lemma is_digit_digit_char [simp]: "d < 10 \<Longrightarrow> is_digit (digit_char d)"
  by (simp add: is_digit_def digit_char_def of_char_of)

lemma to_dec_not_Nil [simp]: "to_dec n \<noteq> []"
  by (subst to_dec.simps) simp

lemma to_dec_digits: "c \<in> set (to_dec n) \<Longrightarrow> is_digit c"
proof (induction n rule: to_dec.induct)
  case (1 n)
  then show ?case by (subst (asm) (2) to_dec.simps) (auto split: if_splits)
qed

lemma of_dec_snoc: "of_dec (ds @ [c]) = 10 * of_dec ds + digit_value c"
  by (simp add: of_dec_def)

lemma of_dec_to_dec [simp]: "of_dec (to_dec n) = n"
proof (induction n rule: to_dec.induct)
  case (1 n)
  show ?case
  proof (cases "n < 10")
    case True
    then show ?thesis by (subst to_dec.simps) (simp add: of_dec_def)
  next
    case False
    with 1 show ?thesis by (subst to_dec.simps) (simp add: of_dec_snoc)
  qed
qed

lemma to_dec_inj: "to_dec m = to_dec n \<longleftrightarrow> m = n"
  by (metis of_dec_to_dec)

lemma is_digit_not [simp]: "\<not> is_digit CHR ''-''" "\<not> is_digit CHR '',''" "\<not> is_digit CHR ''+''"
  "\<not> is_digit CHR '' ''"
  by (simp_all add: is_digit_def)

lemma takeWhile_digits: "takeWhile is_digit (to_dec n) = to_dec n"
  by (rule takeWhile_eq_all_conv [THEN iffD2]) (blast intro: to_dec_digits)

lemma takeWhile_digits_append:
  "takeWhile is_digit (to_dec n @ c # cs) = (if is_digit c then to_dec n @ c # takeWhile is_digit cs else to_dec n)"
  using takeWhile_append2 [of "to_dec n" is_digit "c # cs"] to_dec_digits by (auto simp del: takeWhile_append)

section \<open>Reading integers\<close>

definition is_space :: "char \<Rightarrow> bool" where
  "is_space c \<longleftrightarrow> c = CHR '' '' \<or> (9 \<le> (of_char c :: nat) \<and> (of_char c :: nat) \<le> 13)"

definition signed_value :: "bool \<Rightarrow> string \<Rightarrow> int option" where
  "signed_value neg ds = (if ds = [] then None
     else i32 (if neg then - int (of_dec ds) else int (of_dec ds)))"

definition stoi :: "string \<Rightarrow> int option" where
  "stoi text =
     (let t = dropWhile is_space text in
      case t of
        [] \<Rightarrow> None
      | c # cs \<Rightarrow>
          if c = CHR ''-'' then signed_value True (takeWhile is_digit cs)
          else if c = CHR ''+'' then signed_value False (takeWhile is_digit cs)
          else signed_value False (takeWhile is_digit t))"

text \<open>The value and the unread rest of the text; \<open>None\<close> when \<open>ec\<close> is an error.\<close>

definition from_chars :: "string \<Rightarrow> (int \<times> string) option" where
  "from_chars text =
     (let neg = (text \<noteq> [] \<and> hd text = CHR ''-'');
          t = (if neg then tl text else text)
      in map_option (\<lambda>v. (v, dropWhile is_digit t)) (signed_value neg (takeWhile is_digit t)))"

lemma digit_not_space: "is_digit c \<Longrightarrow> \<not> is_space c"
  by (auto simp: is_digit_def is_space_def)

lemma to_dec_Cons: obtains c cs where "to_dec n = c # cs" "is_digit c"
  by (metis list.exhaust list.set_intros(1) to_dec_digits to_dec_not_Nil)

lemma stoi_to_dec_append:
  assumes "int n \<le> i32_max" and "\<And>c cs. rest = c # cs \<Longrightarrow> \<not> is_digit c"
  shows "stoi (to_dec n @ rest) = Some (int n)"
proof -
  obtain c cs where c: "to_dec n = c # cs" "is_digit c" by (rule to_dec_Cons)
  have "takeWhile is_digit (to_dec n @ rest) = to_dec n"
    using assms(2) takeWhile_digits by (cases rest) (simp_all add: takeWhile_digits_append)
  moreover have "dropWhile is_space (to_dec n @ rest) = to_dec n @ rest"
    using c digit_not_space by simp
  moreover have "c \<noteq> CHR ''-''" "c \<noteq> CHR ''+''" using c(2) by auto
  moreover have "in_i32 (int n)" using assms(1) by (simp add: in_i32_def i32_min_def i32_max_def)
  moreover have "of_dec (c # cs) = n" using of_dec_to_dec [of n] by (simp add: c(1))
  ultimately show ?thesis
    using c by (simp add: stoi_def signed_value_def Let_def)
qed

lemma stoi_to_dec: "int n \<le> i32_max \<Longrightarrow> stoi (to_dec n) = Some (int n)"
  using stoi_to_dec_append [of n "[]"] by simp

lemma from_chars_to_string:
  assumes "in_i32 i"
  shows "from_chars (to_string i) = Some (i, [])"
proof (cases "i < 0")
  case True
  then show ?thesis using assms
    by (simp add: from_chars_def to_string_def signed_value_def takeWhile_digits Let_def
        dropWhile_eq_Nil_conv to_dec_digits)
next
  case False
  let ?t = "to_dec (nat i)"
  obtain c cs where c: "?t = c # cs" "is_digit c" by (rule to_dec_Cons)
  then have neg: "hd ?t \<noteq> CHR ''-''" by auto
  have "dropWhile is_digit ?t = []" by (simp add: dropWhile_eq_Nil_conv to_dec_digits)
  moreover have "signed_value False ?t = Some i" using assms False by (simp add: signed_value_def)
  ultimately show ?thesis
    using False neg by (simp add: from_chars_def to_string_def takeWhile_digits Let_def)
qed

end
