(* ===== verification/Memory.thy ===== *)
theory Memory
  imports Prelude
begin

text \<open>
  Memory from the operating system: the allocators the measurers call (\<open>mmap\<close>, \<open>malloc\<close>,
  libnuma) and the wrappers \<open>allocate_on_node\<close> and \<open>free_on_node\<close> of
  \<open>src/numa_support.cpp\<close>.  What the \<open>k\<close>-th allocation call of the process returns is a
  parameter (0 for \<open>nullptr\<close> and \<open>MAP_FAILED\<close>); the heap keeps the live blocks, each with
  the call that must release it.
\<close>

datatype deallocator = Munmap | Free | Numa_free

record memory_env =
  has_numa :: bool
  libnuma_available :: int
  alloc_result :: "nat \<Rightarrow> u64"

record heap =
  alloc_calls :: nat
  live :: "(deallocator \<times> u64 \<times> u64) multiset"

definition raw_alloc :: "memory_env \<Rightarrow> deallocator \<Rightarrow> u64 \<Rightarrow> heap \<Rightarrow> u64 \<times> heap" where
  "raw_alloc env d bytes h =
     (let p = alloc_result env (alloc_calls h) in
      (p, h\<lparr>alloc_calls := Suc (alloc_calls h),
            live := (if p = 0 then live h else add_mset (d, p, bytes) (live h))\<rparr>))"

definition raw_free :: "deallocator \<Rightarrow> u64 \<Rightarrow> u64 \<Rightarrow> heap \<Rightarrow> heap" where
  "raw_free d p bytes h = h\<lparr>live := live h - {#(d, p, bytes)#}\<rparr>"

definition numa_available :: "memory_env \<Rightarrow> bool" where
  "numa_available env \<longleftrightarrow> has_numa env \<and> 0 \<le> libnuma_available env"

definition allocate_on_node :: "memory_env \<Rightarrow> u64 \<Rightarrow> int \<Rightarrow> heap \<Rightarrow> u64 \<times> heap" where
  "allocate_on_node env bytes node h =
     (if has_numa env then
        if bytes = 0 \<or> node < 0 \<or> \<not> numa_available env then (0, h)
        else raw_alloc env Numa_free bytes h
      else (0, h))"

definition free_on_node :: "memory_env \<Rightarrow> u64 \<Rightarrow> u64 \<Rightarrow> heap \<Rightarrow> heap" where
  "free_on_node env ptr bytes h =
     (if has_numa env then
        if ptr \<noteq> 0 \<and> bytes \<noteq> 0 then raw_free Numa_free ptr bytes h else h
      else h)"

lemmas memory_defs = raw_alloc_def raw_free_def allocate_on_node_def free_on_node_def
  numa_available_def

text \<open>The contract of an allocator and its deallocator: a successful call adds one live block,
  a failed one none, and releasing the block removes exactly that block.\<close>

locale block_allocator =
  fixes acquire :: "u64 \<Rightarrow> heap \<Rightarrow> u64 \<times> heap"
    and release :: "u64 \<Rightarrow> u64 \<Rightarrow> heap \<Rightarrow> heap"
    and block :: "u64 \<Rightarrow> u64 \<Rightarrow> deallocator \<times> u64 \<times> u64"
  assumes acq: "acquire n h = (p, h') \<Longrightarrow>
      live h' = (if p = 0 then live h else add_mset (block p n) (live h))"
    and rel: "acquire n h = (p, h') \<Longrightarrow> p \<noteq> 0 \<Longrightarrow> live (release p n g) = live g - {#block p n#}"
begin

lemma failed_unchanged: "acquire n h = (0, h') \<Longrightarrow> live h' = live h"
  using acq [of n h 0 h'] by simp

lemma single: "acquire n h = (p, h') \<Longrightarrow> p \<noteq> 0 \<Longrightarrow> live (release p n h') = live h"
  by (simp add: rel acq)

lemma pair:
  assumes "acquire n h = (p, h1)" "acquire n h1 = (q, h2)" "p \<noteq> 0" "q \<noteq> 0"
  shows "live (release q n (release p n h2)) = live h"
  using acq [OF assms(1)] acq [OF assms(2)] rel [OF assms(1,3)] rel [OF assms(2,4)] assms(3,4)
  by simp

end

interpretation munmap: block_allocator "raw_alloc env Munmap" "raw_free Munmap" "\<lambda>p n. (Munmap, p, n)"
  by unfold_locales (auto simp: memory_defs Let_def)

interpretation malloc: block_allocator "raw_alloc env Free" "raw_free Free" "\<lambda>p n. (Free, p, n)"
  by unfold_locales (auto simp: memory_defs Let_def)

interpretation numa: block_allocator "\<lambda>n. allocate_on_node env n node" "free_on_node env"
    "\<lambda>p n. (Numa_free, p, n)"
  by unfold_locales (auto simp: memory_defs Let_def split: if_splits)

end
