(* ===== verification/Latency.thy ===== *)
theory Latency
  imports Statistics Timing Memory Decimal
begin

text \<open>
  Model of \<open>src/latency_measurer.cpp\<close> (class \<open>LatencyMeasurer\<close>).  The buffer is the list of
  the \<open>next\<close> fields of its 64-byte nodes; a pointer to a node is the index of the node, and
  \<open>node_address\<close> gives the machine address.  Every timed load, store and flush is an event
  of the machine trace.  \<open>std::shuffle\<close> with the seeded generator is a parameter.
\<close>

section \<open>The measurer\<close>

record latency_measurer =
  nodes :: "nat list"
  base_address :: u64
  buffer_size :: u64
  node_count :: nat
  cache_line_size :: nat
  sink :: u8
  timer_overhead_cycles :: u64
  random_order :: "nat list"
  numa_node :: int

definition min_buffer_size :: u64 where "min_buffer_size = 32 * 1024 * 1024"
definition kLatencyBatch :: nat where "kLatencyBatch = 128"
definition kStoreBatch :: nat where "kStoreBatch = 256"

definition node_address :: "latency_measurer \<Rightarrow> nat \<Rightarrow> u64" where
  "node_address L i = base_address L + 64 * of_nat i"

definition choose_buffer_size :: "u64 \<Rightarrow> u64" where
  "choose_buffer_size requested =
     (let s0 = (if requested = 0 then min_buffer_size else max requested min_buffer_size);
          s1 = s0 div 64 * 64
      in if s1 < min_buffer_size then min_buffer_size else s1)"

definition choose_line_size :: "nat \<Rightarrow> nat" where
  "choose_line_size requested =
     (let c = (if requested = 0 then 64 else requested) in if c \<noteq> 64 then 64 else c)"

definition build_self_loop :: "latency_measurer \<Rightarrow> latency_measurer" where
  "build_self_loop L = L\<lparr>nodes := (nodes L)[0 := 0]\<rparr>"

text \<open>\<open>for (i = 0; i < node_count; i += 512) buffer[i].next = &buffer[i]\<close>.\<close>

definition touch_pages :: "nat list \<Rightarrow> nat list" where
  "touch_pages ns = foldl (\<lambda>ns j. ns[512 * j := 512 * j]) ns [0..<(length ns + 511) div 512]"

definition new_latency_measurer ::
  "hardware \<Rightarrow> memory_env \<Rightarrow> u64 \<Rightarrow> nat \<Rightarrow> int \<Rightarrow> heap \<Rightarrow> nat machine
     \<Rightarrow> (exn + latency_measurer) \<times> heap \<times> nat machine" where
  "new_latency_measurer hw env requested_buffer_size line node h m =
     (let size = choose_buffer_size requested_buffer_size;
          got = (if 0 \<le> node then
                   if \<not> numa_available env
                   then (Inl (RuntimeError ''NUMA allocation requested but libnuma/NUMA is unavailable''), h)
                   else let (memory, h') = allocate_on_node env size node h in
                     (if memory = 0
                      then Inl (RuntimeError (''NUMA allocation failed for memory node '' @ to_string node))
                      else Inr memory, h')
                 else let (memory, h') = raw_alloc env Munmap size h in
                   (if memory = 0
                    then Inl (RuntimeError ''mmap failed while allocating latency buffer'')
                    else Inr memory, h'))
      in case got of
           (Inl e, h') \<Rightarrow> (Inl e, h', m)
         | (Inr memory, h') \<Rightarrow>
             (let count = unat (size div 64);
                  (overhead, m') = measure_overhead_cycles hw 2000 m;
                  L = build_self_loop \<lparr>nodes = [0..<count], base_address = memory, buffer_size = size,
                        node_count = count, cache_line_size = choose_line_size line, sink = 0,
                        timer_overhead_cycles = overhead, random_order = [], numa_node = node\<rparr>
              in (Inr (L\<lparr>nodes := touch_pages (nodes L)\<rparr>), h', m')))"

definition delete_latency_measurer :: "memory_env \<Rightarrow> latency_measurer \<Rightarrow> heap \<Rightarrow> heap" where
  "delete_latency_measurer env L h =
     (if base_address L = 0 then h
      else if 0 \<le> numa_node L then free_on_node env (base_address L) (buffer_size L) h
      else raw_free Munmap (base_address L) (buffer_size L) h)"

section \<open>Rings\<close>

definition build_random_ring :: "(nat list \<Rightarrow> nat list) \<Rightarrow> latency_measurer \<Rightarrow> latency_measurer" where
  "build_random_ring shuffle L =
     (let n = node_count L; order = shuffle [0..<n]
      in L\<lparr>random_order := order,
           nodes := foldl (\<lambda>ns i. ns[order ! i := order ! ((i + 1) mod n)]) (nodes L) [0..<n]\<rparr>)"

definition stride_lines :: "latency_measurer \<Rightarrow> nat \<Rightarrow> nat" where
  "stride_lines L stride_bytes = max 1 (stride_bytes div cache_line_size L)"

definition build_stride_ring :: "nat \<Rightarrow> latency_measurer \<Rightarrow> latency_measurer" where
  "build_stride_ring stride_bytes L =
     (let n = node_count L; k = stride_lines L stride_bytes
      in L\<lparr>nodes := foldl (\<lambda>ns i. ns[i := (i + k) mod n]) (nodes L) [0..<n]\<rparr>)"

section \<open>Timed sections\<close>

definition subtract_overhead :: "u64 \<Rightarrow> u64 \<Rightarrow> u64" where
  "subtract_overhead elapsed overhead = (if overhead < elapsed then elapsed - overhead else 0)"

text \<open>The nodes a dependent pointer chase loads, and the node it ends at.\<close>

fun chase :: "nat list \<Rightarrow> nat \<Rightarrow> nat \<Rightarrow> nat list \<times> nat" where
  "chase ns current 0 = ([], current)"
| "chase ns current (Suc i) = (let (vs, e) = chase ns (ns ! current) i in (current # vs, e))"

definition timed_pointer_chase ::
  "hardware \<Rightarrow> nat \<Rightarrow> nat \<Rightarrow> latency_measurer \<times> nat machine \<Rightarrow> double \<times> latency_measurer \<times> nat machine" where
  "timed_pointer_chase hw start steps s =
     (let (L, m) = s;
          ((t0, _), m1) = read_tsc_start hw m;
          (visited, current) = chase (nodes L) start steps;
          m2 = emit (map Load visited) m1;
          ((t1, _), m3) = read_tsc_end hw m2;
          L' = L\<lparr>sink := sink L XOR ucast (node_address L current)\<rparr>;
          net = subtract_overhead (t1 - t0) (timer_overhead_cycles L)
      in (dbl (double_of_u64 net / double_of_nat steps), L', m3))"

definition timed_store_batch ::
  "hardware \<Rightarrow> nat \<Rightarrow> latency_measurer \<times> nat machine \<Rightarrow> double \<times> latency_measurer \<times> nat machine" where
  "timed_store_batch hw steps s =
     (let (L, m) = s;
          ((t0, _), m1) = read_tsc_start hw m;
          slots = map (\<lambda>i. i mod 16) [0..<steps];
          L' = L\<lparr>nodes := foldl (\<lambda>ns slot. ns[slot := slot]) (nodes L) slots\<rparr>;
          m2 = emit (map Store slots) m1;
          ((t1, _), m3) = read_tsc_end hw m2;
          net = subtract_overhead (t1 - t0) (timer_overhead_cycles L)
      in (dbl (double_of_u64 net / double_of_nat steps), L', m3))"

definition flush_random_path :: "nat \<Rightarrow> nat \<Rightarrow> latency_measurer \<times> nat machine \<Rightarrow> latency_measurer \<times> nat machine" where
  "flush_random_path start_position steps s =
     (let (L, m) = s in
      (L, clflush_fence (foldl (\<lambda>m i. clflush (random_order L ! ((start_position + i) mod length (random_order L))) m)
            m [0..<steps])))"

text \<open>\<open>for (i = 0; i < n; ++i) samples.push_back(f(i))\<close>, from index \<open>i\<close> on.\<close>

fun collect :: "(nat \<Rightarrow> 's \<Rightarrow> 'a \<times> 's) \<Rightarrow> nat \<Rightarrow> nat \<Rightarrow> 's \<Rightarrow> 'a list \<times> 's" where
  "collect f i 0 s = ([], s)"
| "collect f i (Suc n) s = (let (x, s1) = f i s; (xs, s2) = collect f (Suc i) n s1 in (x # xs, s2))"

section \<open>Measurements\<close>

record measurement_result =
  label :: string
  stats :: summary
  result_overhead :: u64

definition invalid_configuration :: "int \<Rightarrow> int \<Rightarrow> int \<Rightarrow> bool" where
  "invalid_configuration iterations warmup rounds \<longleftrightarrow> iterations \<le> 0 \<or> warmup < 0 \<or> rounds \<le> 0"

definition measure_hit ::
  "hardware \<Rightarrow> int \<Rightarrow> int \<Rightarrow> int \<Rightarrow> latency_measurer \<times> nat machine
     \<Rightarrow> (exn + measurement_result) \<times> latency_measurer \<times> nat machine" where
  "measure_hit hw iterations warmup rounds s =
     (if invalid_configuration iterations warmup rounds
      then (Inl (InvalidArgument ''Invalid hit benchmark configuration''), s)
      else
        let (L, m) = s;
            (_, s1) = collect (\<lambda>_. timed_pointer_chase hw 0 kLatencyBatch) 0 (nat warmup)
              (build_self_loop L, m);
            (samples, s2) = collect (\<lambda>_. collect (\<lambda>_. timed_pointer_chase hw 0 kLatencyBatch) 0
              (nat iterations)) 0 (nat rounds) s1
        in (Inr \<lparr>label = ''Cache Hit (L1 pointer-chasing latency)'',
              stats = summarize (concat samples),
              result_overhead = timer_overhead_cycles (fst s2)\<rparr>, s2))"

definition forced_miss_sample ::
  "hardware \<Rightarrow> nat \<Rightarrow> latency_measurer \<times> nat machine \<Rightarrow> double \<times> latency_measurer \<times> nat machine" where
  "forced_miss_sample hw position s =
     (let start_position = position mod length (random_order (fst s));
          start = random_order (fst s) ! start_position
      in timed_pointer_chase hw start kLatencyBatch (flush_random_path start_position kLatencyBatch s))"

definition measure_forced_miss ::
  "(nat list \<Rightarrow> nat list) \<Rightarrow> hardware \<Rightarrow> int \<Rightarrow> int \<Rightarrow> int \<Rightarrow> latency_measurer \<times> nat machine
     \<Rightarrow> (exn + measurement_result) \<times> latency_measurer \<times> nat machine" where
  "measure_forced_miss shuffle hw iterations warmup rounds s =
     (if invalid_configuration iterations warmup rounds \<or> node_count (fst s) < 64
      then (Inl (InvalidArgument ''Invalid forced-miss benchmark configuration''), s)
      else
        let (L, m) = s;
            (_, s1) = collect (\<lambda>i. forced_miss_sample hw i) 0 (nat warmup) (build_random_ring shuffle L, m);
            (samples, s2) = collect (\<lambda>round. collect (\<lambda>i. forced_miss_sample hw (round * nat iterations + i)) 0
              (nat iterations)) 0 (nat rounds) s1
        in (Inr \<lparr>label = ''Forced Cache Miss (random pointer chase + CLFLUSH)'',
              stats = summarize (concat samples),
              result_overhead = timer_overhead_cycles (fst s2)\<rparr>, s2))"

definition measure_store ::
  "hardware \<Rightarrow> int \<Rightarrow> int \<Rightarrow> int \<Rightarrow> latency_measurer \<times> nat machine
     \<Rightarrow> (exn + measurement_result) \<times> latency_measurer \<times> nat machine" where
  "measure_store hw iterations warmup rounds s =
     (if invalid_configuration iterations warmup rounds
      then (Inl (InvalidArgument ''Invalid store benchmark configuration''), s)
      else
        let (_, s1) = collect (\<lambda>_. timed_store_batch hw kStoreBatch) 0 (nat warmup) s;
            (samples, s2) = collect (\<lambda>_. collect (\<lambda>_. timed_store_batch hw kStoreBatch) 0
              (nat iterations)) 0 (nat rounds) s1
        in (Inr \<lparr>label = ''Store (hot lines; issue throughput per store)'',
              stats = summarize (concat samples),
              result_overhead = timer_overhead_cycles (fst s2)\<rparr>, s2))"

text \<open>\<open>samples.push_back(timed(current)); current = current->next\<close>: the pointer is part of the state.\<close>

definition stride_sample ::
  "hardware \<Rightarrow> nat \<times> latency_measurer \<times> nat machine \<Rightarrow> double \<times> nat \<times> latency_measurer \<times> nat machine" where
  "stride_sample hw s =
     (let (current, L, m) = s;
          (x, L', m') = timed_pointer_chase hw current kLatencyBatch (L, m)
      in (x, nodes L' ! current, L', emit [Load current] m'))"

definition stride_bytes :: "latency_measurer \<Rightarrow> nat \<Rightarrow> nat" where
  "stride_bytes L raw_stride =
     max (cache_line_size L) (raw_stride div cache_line_size L * cache_line_size L)"

definition measure_stride ::
  "hardware \<Rightarrow> nat \<Rightarrow> nat \<Rightarrow> nat \<Rightarrow> nat \<Rightarrow> latency_measurer \<times> nat machine
     \<Rightarrow> measurement_result \<times> latency_measurer \<times> nat machine" where
  "measure_stride hw iterations warmup rounds raw_stride s =
     (let (L, m) = s;
          stride = stride_bytes L raw_stride;
          (_, _, s1) = collect (\<lambda>_. stride_sample hw) 0 warmup (0, build_stride_ring stride L, m);
          (samples, s2) = collect (\<lambda>round s. let (xs, _, s') =
              collect (\<lambda>_. stride_sample hw) 0 iterations (round mod node_count (fst s), s) in (xs, s'))
            0 rounds s1
      in (\<lparr>label = ''Stride '' @ to_string (int stride) @ '' B (dependent pointer chase)'',
            stats = summarize (concat samples),
            result_overhead = timer_overhead_cycles (fst s2)\<rparr>, s2))"

definition measure_strides ::
  "hardware \<Rightarrow> nat list \<Rightarrow> int \<Rightarrow> int \<Rightarrow> int \<Rightarrow> latency_measurer \<times> nat machine
     \<Rightarrow> (exn + measurement_result list) \<times> latency_measurer \<times> nat machine" where
  "measure_strides hw strides iterations warmup rounds s =
     (if invalid_configuration iterations warmup rounds
      then (Inl (InvalidArgument ''Invalid stride benchmark configuration''), s)
      else let (results, s') =
             collect (\<lambda>k. measure_stride hw (nat iterations) (nat warmup) (nat rounds) (strides ! k))
               0 (length strides) s
           in (Inr results, s'))"

section \<open>Rings as cyclic enumerations\<close>

lemma mod_eq_iff_dvd_diff: "i \<le> j \<Longrightarrow> i mod n = j mod n \<longleftrightarrow> n dvd j - (i::nat)"
  using mod_eq_dvd_iff_nat [of i j n] by auto

lemma mod_add_left_cancel: "(i + x) mod n = (i + y) mod n \<longleftrightarrow> x mod n = y mod (n::nat)"
proof (induction x y rule: linorder_wlog)
  case (le x y)
  then show ?case by (simp add: mod_eq_iff_dvd_diff)
next
  case (sym x y)
  then show ?case by (simp add: eq_commute)
qed

text \<open>The contract of a ring builder: the nodes are linked along an enumeration of positions
  inside the buffer, which repeats with a period.\<close>

locale pointer_ring =
  fixes ring :: "'c \<Rightarrow> nat list" and pos :: "'c \<Rightarrow> nat \<Rightarrow> nat" and ok :: "'c \<Rightarrow> bool"
  assumes link: "ok c \<Longrightarrow> ring c ! pos c i = pos c (Suc i)"
    and inside: "ok c \<Longrightarrow> pos c i < length (ring c)"
begin

lemma chase_visits:
  "ok c \<Longrightarrow> chase (ring c) (pos c i) k = (map (\<lambda>j. pos c (i + j)) [0..<k], pos c (i + k))"
proof (induction k arbitrary: i)
  case (Suc k)
  then show ?case
    by (simp add: link upt_0_Suc comp_def del: upt_Suc)
qed simp

lemma chase_inside: "ok c \<Longrightarrow> set (fst (chase (ring c) (pos c i) k)) \<subseteq> {..<length (ring c)}"
  by (auto simp: chase_visits inside)

end

locale cyclic_ring = pointer_ring +
  fixes period :: "'c \<Rightarrow> nat"
  assumes repeats: "ok c \<Longrightarrow> pos c i = pos c j \<longleftrightarrow> i mod period c = j mod period c"
    and positive: "ok c \<Longrightarrow> 0 < period c"
begin

lemma chase_returns: "ok c \<Longrightarrow> snd (chase (ring c) (pos c i) (period c)) = pos c i"
  by (simp add: chase_visits repeats)

lemma chase_distinct:
  assumes "ok c" "k \<le> period c"
  shows "distinct (fst (chase (ring c) (pos c i) k))"
proof -
  have "inj_on (\<lambda>j. pos c (i + j)) {0..<k}"
  proof (rule inj_onI)
    fix x y assume xy: "x \<in> {0..<k}" "y \<in> {0..<k}" "pos c (i + x) = pos c (i + y)"
    then have "(i + x) mod period c = (i + y) mod period c" using repeats [OF assms(1)] by simp
    then have "x mod period c = y mod period c" by (simp only: mod_add_left_cancel)
    then show "x = y" using xy assms(2) by simp
  qed
  then show ?thesis using assms(1) by (simp add: chase_visits distinct_map)
qed

lemma chase_covers:
  assumes "ok c"
  shows "card (set (fst (chase (ring c) (pos c i) (period c)))) = period c"
  using distinct_card [OF chase_distinct [OF assms order_refl, of i]] assms
  by (simp add: chase_visits)

end

lemma length_foldl_update [simp]: "length (foldl (\<lambda>ns i. ns[f i := g i]) ns is) = length ns"
  by (induction "is" arbitrary: ns) simp_all

lemma foldl_update_nth:
  assumes "inj_on f {..<n}" "\<And>i. i < n \<Longrightarrow> f i < length ns" "i < n"
  shows "foldl (\<lambda>ns i. ns[f i := g i]) ns [0..<n] ! f i = g i"
  using assms
proof (induction n)
  case (Suc n)
  have inj: "inj_on f {..<n}" using Suc.prems(1) by (rule inj_on_subset) auto
  show ?case
  proof (cases "i = n")
    case True
    then show ?thesis using Suc.prems(2) by simp
  next
    case False
    then have "i < n" "f i \<noteq> f n" using Suc.prems inj_onD [OF Suc.prems(1), of i n] by auto
    then show ?thesis using Suc.IH [OF inj] Suc.prems(2) by simp
  qed
qed simp

subsection \<open>The random ring\<close>

definition random_links :: "nat list \<times> nat list \<Rightarrow> nat list" where
  "random_links c = (let (ns, order) = c; n = length order in
     foldl (\<lambda>ns i. ns[order ! i := order ! ((i + 1) mod n)]) ns [0..<n])"

definition is_order :: "nat \<Rightarrow> nat list \<Rightarrow> bool" where
  "is_order n order \<longleftrightarrow> mset order = mset [0..<n]"

lemma is_order_facts:
  assumes "is_order n order"
  shows "length order = n" and "distinct order" and "set order = {..<n}"
proof -
  note m = assms [unfolded is_order_def]
  show "length order = n" using mset_eq_length [OF m] by simp
  show "distinct order" using mset_eq_imp_distinct_iff [OF m] by simp
  show "set order = {..<n}" using mset_eq_setD [OF m] by (simp add: atLeast0LessThan)
qed

interpretation random_ring: cyclic_ring random_links
  "\<lambda>(ns, order) i. order ! (i mod length order)"
  "\<lambda>(ns, order). order \<noteq> [] \<and> is_order (length ns) order" "\<lambda>(ns, order). length order"
proof
  fix c :: "nat list \<times> nat list" and i j
  obtain ns order where c: "c = (ns, order)" by fastforce
  assume "case c of (ns, order) \<Rightarrow> order \<noteq> [] \<and> is_order (length ns) order"
  then have ne: "order \<noteq> []" and o: "is_order (length ns) order" by (simp_all add: c)
  note f = is_order_facts [OF o]
  have lt: "order ! k < length ns" if "k < length order" for k using that f(3) nth_mem by blast
  have m: "k mod length order < length order" for k using ne by simp
  have inj: "inj_on ((!) order) {..<length order}" using f(2) by (simp add: inj_on_nth)
  show "random_links c ! (case c of (ns, order) \<Rightarrow> \<lambda>i. order ! (i mod length order)) i
     = (case c of (ns, order) \<Rightarrow> \<lambda>i. order ! (i mod length order)) (Suc i)"
    using foldl_update_nth [OF inj lt m, where g = "\<lambda>i. order ! ((i + 1) mod length order)"]
    by (simp add: c random_links_def Let_def mod_Suc_eq)
  show "(case c of (ns, order) \<Rightarrow> \<lambda>i. order ! (i mod length order)) i < length (random_links c)"
    using lt [OF m] by (simp add: c random_links_def Let_def)
  show "((case c of (ns, order) \<Rightarrow> \<lambda>i. order ! (i mod length order)) i
      = (case c of (ns, order) \<Rightarrow> \<lambda>i. order ! (i mod length order)) j)
     = (i mod (case c of (ns, order) \<Rightarrow> length order) = j mod (case c of (ns, order) \<Rightarrow> length order))"
    using f(2) m by (simp add: c nth_eq_iff_index_eq)
  show "0 < (case c of (ns, order) \<Rightarrow> length order)" using ne by (simp add: c)
qed

subsection \<open>The stride ring\<close>

definition stride_links :: "nat list \<times> nat \<times> nat \<Rightarrow> nat list" where
  "stride_links c = (let (ns, k, s) = c; n = length ns in
     foldl (\<lambda>ns i. ns[i := (i + k) mod n]) ns [0..<n])"

lemma dvd_mult_gcd:
  assumes "0 < n"
  shows "n dvd d * k \<longleftrightarrow> n div gcd n k dvd (d::nat)"
proof -
  let ?g = "gcd n k"
  have g: "?g \<noteq> 0" using assms by simp
  have f: "n = ?g * (n div ?g)" "k = ?g * (k div ?g)" by simp_all
  have cop: "coprime (n div ?g) (k div ?g)" using g by (intro div_gcd_coprime) simp
  have "n dvd d * k \<longleftrightarrow> ?g * (n div ?g) dvd ?g * (d * (k div ?g))"
    using f by (metis mult.left_commute)
  also have "\<dots> \<longleftrightarrow> n div ?g dvd d * (k div ?g)" using g by (simp only: nat_mult_dvd_cancel_disj) simp
  also have "\<dots> \<longleftrightarrow> n div ?g dvd d" using cop by (rule coprime_dvd_mult_left_iff)
  finally show ?thesis .
qed

lemma mod_linear_eq_iff:
  assumes "0 < n"
  shows "(s + i * k) mod n = (s + j * k) mod n
     \<longleftrightarrow> i mod (n div gcd n k) = j mod (n div gcd n (k::nat))"
proof (induction i j rule: linorder_wlog)
  case (le i j)
  have "(s + i * k) mod n = (s + j * k) mod n \<longleftrightarrow> n dvd (s + j * k) - (s + i * k)"
    using le by (intro mod_eq_iff_dvd_diff) simp
  also have "(s + j * k) - (s + i * k) = (j - i) * k" by (simp add: diff_mult_distrib)
  also have "n dvd (j - i) * k \<longleftrightarrow> n div gcd n k dvd j - i" using assms by (rule dvd_mult_gcd)
  also have "\<dots> \<longleftrightarrow> i mod (n div gcd n k) = j mod (n div gcd n k)"
    using le by (rule mod_eq_iff_dvd_diff [symmetric])
  finally show ?case .
next
  case (sym i j)
  then show ?case by (simp add: eq_commute)
qed

interpretation stride_ring: cyclic_ring stride_links
  "\<lambda>(ns, k, s) i. (s + i * k) mod length ns"
  "\<lambda>(ns, k, s). ns \<noteq> []" "\<lambda>(ns, k, s). length ns div gcd (length ns) k"
proof
  fix c :: "nat list \<times> nat \<times> nat" and i j
  obtain ns k s where c: "c = (ns, k, s)" by (metis prod.collapse)
  assume "case c of (ns, k, s) \<Rightarrow> ns \<noteq> []"
  then have n: "0 < length ns" by (simp add: c)
  have m: "x mod length ns < length ns" for x using n by simp
  show "stride_links c ! (case c of (ns, k, s) \<Rightarrow> \<lambda>i. (s + i * k) mod length ns) i
     = (case c of (ns, k, s) \<Rightarrow> \<lambda>i. (s + i * k) mod length ns) (Suc i)"
    using foldl_update_nth [of id "length ns" ns, OF _ _ m, where g = "\<lambda>i. (i + k) mod length ns"]
    by (simp add: c stride_links_def Let_def mod_simps add_ac)
  show "(case c of (ns, k, s) \<Rightarrow> \<lambda>i. (s + i * k) mod length ns) i < length (stride_links c)"
    using length_foldl_update [of id "\<lambda>i. (i + k) mod length ns"] m
    by (simp add: c stride_links_def Let_def)
  show "((case c of (ns, k, s) \<Rightarrow> \<lambda>i. (s + i * k) mod length ns) i
      = (case c of (ns, k, s) \<Rightarrow> \<lambda>i. (s + i * k) mod length ns) j)
     = (i mod (case c of (ns, k, s) \<Rightarrow> length ns div gcd (length ns) k)
      = j mod (case c of (ns, k, s) \<Rightarrow> length ns div gcd (length ns) k))"
    using n by (simp add: c mod_linear_eq_iff)
  show "0 < (case c of (ns, k, s) \<Rightarrow> length ns div gcd (length ns) k)"
    using n by (simp add: c div_greater_zero_iff gcd_le1_nat)
qed

section \<open>The sampling loops\<close>

text \<open>The cycles per access of one timed section whose counter reads are number \<open>r\<close> and \<open>r + 1\<close>.\<close>

definition net_sample :: "hardware \<Rightarrow> nat \<Rightarrow> u64 \<Rightarrow> nat \<Rightarrow> double" where
  "net_sample hw steps overhead r =
     dbl (double_of_u64 (subtract_overhead (tick_delta hw r 0) overhead) / double_of_nat steps)"

definition net_samples :: "hardware \<Rightarrow> nat \<Rightarrow> u64 \<Rightarrow> nat \<Rightarrow> nat \<Rightarrow> double list" where
  "net_samples hw steps overhead r n = map (\<lambda>j. net_sample hw steps overhead (r + 2 * j)) [0..<n]"

lemma net_samples_0 [simp]: "net_samples hw steps ov r 0 = []"
  by (simp add: net_samples_def)

lemma length_net_samples [simp]: "length (net_samples hw steps ov r n) = n"
  by (simp add: net_samples_def)

lemma net_samples_Suc:
  "net_samples hw steps ov r (Suc n) = net_sample hw steps ov r # net_samples hw steps ov (r + 2) n"
  by (simp add: net_samples_def upt_0_Suc comp_def del: upt_Suc)

lemma net_samples_add:
  "net_samples hw steps ov r (a + b) = net_samples hw steps ov r a @ net_samples hw steps ov (r + 2 * a) b"
  by (induction a arbitrary: r) (simp_all add: net_samples_Suc add_ac)

text \<open>The contract of a timed operation: one call takes one net sample from the next two counter
  reads, and keeps the state fit for the next call.\<close>

locale timed_op =
  fixes op :: "nat \<Rightarrow> 's \<Rightarrow> double \<times> 's" and hw :: hardware and steps :: nat
    and ok :: "'s \<Rightarrow> bool" and overhead :: "'s \<Rightarrow> u64" and mach :: "'s \<Rightarrow> nat machine"
  assumes keeps: "ok s \<Longrightarrow> ok (snd (op i s))"
    and same_overhead: "overhead (snd (op i s)) = overhead s"
    and two_reads: "tsc_reads (mach (snd (op i s))) = tsc_reads (mach s) + 2"
    and sample: "fst (op i s) = net_sample hw steps (overhead s) (tsc_reads (mach s))"
begin

lemma collect_state:
  "overhead (snd (collect op i n s)) = overhead s"
  "tsc_reads (mach (snd (collect op i n s))) = tsc_reads (mach s) + 2 * n"
  "ok s \<Longrightarrow> ok (snd (collect op i n s))"
  by (induction n arbitrary: i s)
    (simp_all add: split_beta Let_def same_overhead two_reads keeps)

lemma collect_samples:
  "fst (collect op i n s) = net_samples hw steps (overhead s) (tsc_reads (mach s)) n"
  by (induction n arbitrary: i s)
    (simp_all add: split_beta Let_def same_overhead two_reads sample net_samples_Suc)

end

text \<open>The loop over rounds is again a loop over timed operations: it preserves what one round does.\<close>

locale sampled_rounds =
  fixes round_of :: "nat \<Rightarrow> 's \<Rightarrow> double list \<times> 's" and hw :: hardware and steps :: nat and iters :: nat
    and ok :: "'s \<Rightarrow> bool" and overhead :: "'s \<Rightarrow> u64" and mach :: "'s \<Rightarrow> nat machine"
  assumes round_keeps: "ok s \<Longrightarrow> ok (snd (round_of i s))"
    and round_overhead: "overhead (snd (round_of i s)) = overhead s"
    and round_reads: "tsc_reads (mach (snd (round_of i s))) = tsc_reads (mach s) + 2 * iters"
    and round_samples: "fst (round_of i s) = net_samples hw steps (overhead s) (tsc_reads (mach s)) iters"
begin

lemma rounds_state:
  "overhead (snd (collect round_of i n s)) = overhead s"
  "tsc_reads (mach (snd (collect round_of i n s))) = tsc_reads (mach s) + 2 * (n * iters)"
  "ok s \<Longrightarrow> ok (snd (collect round_of i n s))"
  by (induction n arbitrary: i s)
    (simp_all add: split_beta Let_def round_overhead round_reads round_keeps algebra_simps)

lemma rounds_samples:
  "concat (fst (collect round_of i n s))
     = net_samples hw steps (overhead s) (tsc_reads (mach s)) (n * iters)"
  by (induction n arbitrary: i s)
    (simp_all add: split_beta Let_def round_overhead round_reads round_samples net_samples_add)

end

context timed_op
begin

lemma shifted: "timed_op (\<lambda>i. op (g i)) hw steps ok overhead mach"
  by unfold_locales (rule keeps same_overhead two_reads sample; assumption?)+

end

text \<open>Operations whose instructions are known: \<open>events i\<close> is what call \<open>i\<close> adds to the trace.\<close>

lemma collect_trace:
  assumes keeps: "\<And>i s. ok s \<Longrightarrow> ok (snd (f i s))"
    and traced: "\<And>i s. ok s \<Longrightarrow> trace (mach (snd (f i s))) = trace (mach s) @ events i"
  shows "ok s \<Longrightarrow> trace (mach (snd (collect f i n s))) = trace (mach s) @ concat (map events [i..<i + n])"
proof (induction n arbitrary: i s)
  case (Suc n)
  then show ?case
    using Suc.IH [of "snd (f i s)" "Suc i"]
    by (simp add: split_beta Let_def keeps traced upt_conv_Cons del: upt_Suc)
qed simp

locale logged_op = timed_op +
  fixes events :: "nat \<Rightarrow> nat event list"
  assumes traced: "ok s \<Longrightarrow> trace (mach (snd (op i s))) = trace (mach s) @ events i"
begin

lemma warmup_trace:
  "ok s \<Longrightarrow> trace (mach (snd (collect op i n s))) = trace (mach s) @ concat (map events [i..<i + n])"
  using collect_trace [where ok = ok and f = op and mach = mach and events = events] keeps traced by blast

lemma rounds_trace:
  assumes "ok s"
  shows "trace (mach (snd (collect (\<lambda>r. collect (\<lambda>i. op (g r i)) 0 n) k N s)))
     = trace (mach s) @ concat (map (\<lambda>r. concat (map (\<lambda>i. events (g r i)) [0..<n])) [k..<k + N])"
proof -
  have inner: "ok s \<Longrightarrow> trace (mach (snd (collect (\<lambda>i. op (g r i)) 0 n s)))
      = trace (mach s) @ concat (map (\<lambda>i. events (g r i)) [0..<n])" for r s
    using collect_trace [where ok = ok and f = "\<lambda>i. op (g r i)" and mach = mach
        and events = "\<lambda>i. events (g r i)" and i = 0] keeps traced by auto
  have "ok s \<Longrightarrow> ok (snd (collect (\<lambda>i. op (g r i)) 0 n s))" for r s
    using timed_op.collect_state(3) [OF shifted] by blast
  with inner show ?thesis
    using collect_trace [where ok = ok and f = "\<lambda>r. collect (\<lambda>i. op (g r i)) 0 n" and mach = mach
        and events = "\<lambda>r. concat (map (\<lambda>i. events (g r i)) [0..<n])"] assms by blast
qed

end

lemma timed_rounds:
  assumes "\<And>r. timed_op (\<lambda>i. op (g r i)) hw steps ok overhead mach"
  shows "sampled_rounds (\<lambda>r. collect (\<lambda>i. op (g r i)) 0 n) hw steps n ok overhead mach"
  by unfold_locales
    (simp_all add: timed_op.collect_state [OF assms] timed_op.collect_samples [OF assms])

text \<open>A warm-up followed by rounds of measured sections, as every benchmark runs them.\<close>

definition warmup_and_rounds ::
  "(nat \<Rightarrow> 's \<Rightarrow> double \<times> 's) \<Rightarrow> (nat \<Rightarrow> nat \<Rightarrow> nat) \<Rightarrow> nat \<Rightarrow> nat \<Rightarrow> nat \<Rightarrow> 's \<Rightarrow> double list list \<times> 's" where
  "warmup_and_rounds f g w n k s =
     collect (\<lambda>r. collect (\<lambda>i. f (g r i)) 0 n) 0 k (snd (collect f 0 w s))"

context timed_op
begin

lemma rounds: "sampled_rounds (\<lambda>r. collect (\<lambda>i. op (g r i)) 0 n) hw steps n ok overhead mach"
  by (rule timed_rounds) (rule shifted)

lemma measured:
  "concat (fst (warmup_and_rounds op g w n k s))
     = net_samples hw steps (overhead s) (tsc_reads (mach s) + 2 * w) (k * n)"
  "overhead (snd (warmup_and_rounds op g w n k s)) = overhead s"
  "ok s \<Longrightarrow> ok (snd (warmup_and_rounds op g w n k s))"
  unfolding warmup_and_rounds_def
  using sampled_rounds.rounds_samples [OF rounds] sampled_rounds.rounds_state [OF rounds]
  by (simp_all add: collect_state)

end

context logged_op
begin

lemma measured_trace:
  "ok s \<Longrightarrow> trace (mach (snd (warmup_and_rounds op g w n k s))) = trace (mach s)
     @ concat (map events [0..<w]) @ concat (map (\<lambda>r. concat (map (\<lambda>i. events (g r i)) [0..<n])) [0..<k])"
  unfolding warmup_and_rounds_def
  using rounds_trace [of _ g n 0 k] warmup_trace [of s 0 w] by (simp add: collect_state)

end

subsection \<open>The four timed operations\<close>

lemma timed_pointer_chase_eq:
  "timed_pointer_chase hw start steps (L, m) =
     (net_sample hw steps (timer_overhead_cycles L) (tsc_reads m),
      L\<lparr>sink := sink L XOR ucast (node_address L (snd (chase (nodes L) start steps)))\<rparr>,
      emit ([Lfence, Rdtscp, Lfence] @ map Load (fst (chase (nodes L) start steps))
          @ [Lfence, Rdtscp, Lfence]) (m\<lparr>tsc_reads := tsc_reads m + 2\<rparr>))"
  by (simp add: timed_pointer_chase_def Let_def split_beta read_tsc_start_def read_tsc_end_def
      net_sample_def tick_delta_def emit_def)

lemma timed_store_batch_eq:
  "timed_store_batch hw steps (L, m) =
     (net_sample hw steps (timer_overhead_cycles L) (tsc_reads m),
      L\<lparr>nodes := foldl (\<lambda>ns slot. ns[slot := slot]) (nodes L) (map (\<lambda>i. i mod 16) [0..<steps])\<rparr>,
      emit ([Lfence, Rdtscp, Lfence] @ map (\<lambda>i. Store (i mod 16)) [0..<steps]
          @ [Lfence, Rdtscp, Lfence]) (m\<lparr>tsc_reads := tsc_reads m + 2\<rparr>))"
  by (simp add: timed_store_batch_def Let_def split_beta read_tsc_start_def read_tsc_end_def
      net_sample_def tick_delta_def emit_def comp_def)

lemma flush_loop:
  "foldl (\<lambda>m i. clflush (f i) m) m is = emit (map (\<lambda>i. Flush (f i)) is) m"
  by (induction "is" arbitrary: m) (simp_all add: clflush_def)

text \<open>The lines of the random path from a position, and the instructions of one forced-miss sample.\<close>

definition path_lines :: "nat list \<Rightarrow> nat \<Rightarrow> nat list" where
  "path_lines order p = map (\<lambda>j. order ! ((p + j) mod length order)) [0..<kLatencyBatch]"

definition forced_miss_log :: "nat list \<Rightarrow> nat \<Rightarrow> nat event list" where
  "forced_miss_log order p =
     map Flush (path_lines order p) @ [Mfence, Lfence, Rdtscp, Lfence]
       @ map Load (path_lines order p) @ [Lfence, Rdtscp, Lfence]"

lemma flush_random_path_eq:
  "flush_random_path p kLatencyBatch (L, m)
     = (L, emit (map Flush (path_lines (random_order L) p) @ [Mfence]) m)"
  by (simp add: flush_random_path_def flush_loop path_lines_def clflush_fence_def comp_def)

subsection \<open>The invariant of a measurer\<close>

definition wf_measurer :: "latency_measurer \<Rightarrow> bool" where
  "wf_measurer L \<longleftrightarrow> length (nodes L) = node_count L \<and> set (nodes L) \<subseteq> {..<node_count L}
     \<and> 524288 \<le> node_count L \<and> unat (buffer_size L) = 64 * node_count L \<and> cache_line_size L = 64
     \<and> base_address L \<noteq> 0 \<and> (random_order L = [] \<or> is_order (node_count L) (random_order L))"

lemma wf_sink [simp]: "wf_measurer (L\<lparr>sink := s\<rparr>) = wf_measurer L"
  by (simp add: wf_measurer_def)

lemma set_foldl_update:
  "set ns \<subseteq> A \<Longrightarrow> g ` set is \<subseteq> A \<Longrightarrow> set (foldl (\<lambda>ns i. ns[f i := g i]) ns is) \<subseteq> A"
proof (induction "is" arbitrary: ns)
  case (Cons i "is")
  have "set (ns[f i := g i]) \<subseteq> A"
    using Cons.prems set_update_subset_insert [of ns "f i" "g i"] by auto
  then show ?case using Cons by simp
qed simp

text \<open>Replacing links by in-range values keeps the measurer well-formed.\<close>

lemma wf_links:
  assumes "wf_measurer L" "g ` set is \<subseteq> {..<node_count L}"
  shows "wf_measurer (L\<lparr>nodes := foldl (\<lambda>ns i. ns[f i := g i]) (nodes L) is\<rparr>)"
  using assms set_foldl_update [of "nodes L" "{..<node_count L}" g "is" f]
  by (simp add: wf_measurer_def)

lemma wf_nonempty: "wf_measurer L \<Longrightarrow> nodes L \<noteq> [] \<and> 0 < node_count L"
  by (auto simp: wf_measurer_def)

lemma wf_build_self_loop: "wf_measurer L \<Longrightarrow> wf_measurer (build_self_loop L)"
  using wf_links [of L "\<lambda>_. 0" "[0]" "\<lambda>_. 0"] wf_nonempty by (simp add: build_self_loop_def)

lemma wf_build_stride_ring: "wf_measurer L \<Longrightarrow> wf_measurer (build_stride_ring k L)"
  unfolding build_stride_ring_def Let_def using wf_nonempty by (intro wf_links) auto

lemma wf_build_random_ring:
  assumes "wf_measurer L" "mset (shuffle [0..<node_count L]) = mset [0..<node_count L]"
  shows "wf_measurer (build_random_ring shuffle L)"
proof -
  let ?n = "node_count L" and ?o = "shuffle [0..<node_count L]"
  have o: "is_order ?n ?o" using assms(2) by (simp add: is_order_def)
  have "?o ! ((i + 1) mod ?n) < ?n" for i
    using is_order_facts [OF o] nth_mem [of "(i + 1) mod ?n" ?o] wf_nonempty [OF assms(1)] by auto
  then have "wf_measurer (L\<lparr>nodes := foldl (\<lambda>ns i. ns[?o ! i := ?o ! ((i + 1) mod ?n)]) (nodes L) [0..<?n]\<rparr>)"
    using assms(1) by (intro wf_links) auto
  with o show ?thesis by (simp add: build_random_ring_def Let_def wf_measurer_def)
qed

subsection \<open>The timed operations meet the contract\<close>

definition hit_log :: "nat event list" where
  "hit_log = [Lfence, Rdtscp, Lfence] @ replicate kLatencyBatch (Load 0) @ [Lfence, Rdtscp, Lfence]"

definition store_log :: "nat event list" where
  "store_log = [Lfence, Rdtscp, Lfence] @ map (\<lambda>i. Store (i mod 16)) [0..<kStoreBatch]
     @ [Lfence, Rdtscp, Lfence]"

abbreviation overhead_of :: "latency_measurer \<times> nat machine \<Rightarrow> u64" where
  "overhead_of s \<equiv> timer_overhead_cycles (fst s)"

lemma chase_self_loop: "ns ! i = i \<Longrightarrow> chase ns i k = (replicate k i, i)"
  by (induction k) simp_all

interpretation hit: logged_op "\<lambda>_. timed_pointer_chase hw 0 kLatencyBatch" hw kLatencyBatch
  "\<lambda>s. wf_measurer (fst s) \<and> nodes (fst s) ! 0 = 0" overhead_of snd "\<lambda>_. hit_log"
  by unfold_locales
    (auto simp: timed_pointer_chase_eq hit_log_def chase_self_loop split_paired_all)

interpretation store: logged_op "\<lambda>_. timed_store_batch hw kStoreBatch" hw kStoreBatch
  "\<lambda>s. wf_measurer (fst s)" overhead_of snd "\<lambda>_. store_log"
proof
  fix s :: "latency_measurer \<times> nat machine" and i :: nat
  assume w: "wf_measurer (fst s)"
  have "i mod 16 < node_count (fst s)" for i :: nat
  proof -
    have "i mod 16 < 16" by simp
    moreover have "524288 \<le> node_count (fst s)" using w by (simp add: wf_measurer_def)
    ultimately show ?thesis by linarith
  qed
  then show "wf_measurer (fst (snd (timed_store_batch hw kStoreBatch s)))"
    using w wf_links [of "fst s" "\<lambda>i. i" "map (\<lambda>i. i mod 16) [0..<kStoreBatch]" "\<lambda>i. i"]
    by (cases s) (auto simp: timed_store_batch_eq)
qed (auto simp: timed_store_batch_eq store_log_def split_paired_all)

text \<open>A measurer linked along a random order.\<close>

definition linked_randomly :: "nat list \<Rightarrow> latency_measurer \<Rightarrow> bool" where
  "linked_randomly order L \<longleftrightarrow> wf_measurer L \<and> random_order L = order \<and> is_order (node_count L) order
     \<and> (\<exists>ns. length ns = node_count L \<and> nodes L = random_links (ns, order))"

lemma linked_randomly_chase:
  assumes "linked_randomly order L"
  shows "fst (chase (nodes L) (order ! (p mod length order)) kLatencyBatch) = path_lines order p"
proof -
  obtain ns where ns: "length ns = node_count L" "nodes L = random_links (ns, order)"
    using assms by (auto simp: linked_randomly_def)
  have "order \<noteq> [] \<and> is_order (length ns) order"
    using assms wf_nonempty [of L] is_order_facts(1) [of "node_count L" order] ns(1)
    by (auto simp: linked_randomly_def)
  then show ?thesis
    using random_ring.chase_visits [of "(ns, order)" p kLatencyBatch] by (simp add: ns(2) path_lines_def)
qed

lemma linked_randomly_sink [simp]: "linked_randomly order (L\<lparr>sink := x\<rparr>) = linked_randomly order L"
  by (simp add: linked_randomly_def)

lemma forced_miss_sample_eq:
  "forced_miss_sample hw p (L, m) = timed_pointer_chase hw (random_order L ! (p mod length (random_order L)))
     kLatencyBatch (L, emit (map Flush (path_lines (random_order L) (p mod length (random_order L))) @ [Mfence]) m)"
  by (simp add: forced_miss_sample_def flush_random_path_eq Let_def)

lemma path_lines_mod: "path_lines order (p mod length order) = path_lines order p"
  by (simp add: path_lines_def mod_simps)

interpretation forced: logged_op "forced_miss_sample hw" hw kLatencyBatch
  "\<lambda>s. linked_randomly order (fst s)" overhead_of snd "forced_miss_log order"
proof
  fix s :: "latency_measurer \<times> nat machine" and i :: nat
  obtain L m where s: "s = (L, m)" by fastforce
  assume "linked_randomly order (fst s)"
  then have l: "linked_randomly order L" by (simp add: s)
  then have "random_order L = order" by (simp add: linked_randomly_def)
  then show "trace (snd (snd (forced_miss_sample hw i s))) = trace (snd s) @ forced_miss_log order i"
    using linked_randomly_chase [OF l, of i]
    by (simp add: s forced_miss_sample_eq timed_pointer_chase_eq forced_miss_log_def path_lines_mod)
qed (auto simp: forced_miss_sample_eq timed_pointer_chase_eq split_paired_all)

interpretation forced_rounds: sampled_rounds
  "\<lambda>r. collect (\<lambda>i. forced_miss_sample hw (r * n + i)) 0 n" hw kLatencyBatch n
  "\<lambda>s. linked_randomly order (fst s)" overhead_of snd
  by (rule timed_rounds) (rule forced.shifted)

text \<open>A stride sample also keeps its current node inside the buffer.\<close>

definition stride_ok :: "nat \<times> latency_measurer \<times> nat machine \<Rightarrow> bool" where
  "stride_ok s \<longleftrightarrow> fst s < node_count (fst (snd s)) \<and> wf_measurer (fst (snd s))"

lemma wf_next: "wf_measurer L \<Longrightarrow> i < node_count L \<Longrightarrow> nodes L ! i < node_count L"
  unfolding wf_measurer_def by (metis lessThan_iff nth_mem subsetD)

interpretation stride: timed_op "\<lambda>_. stride_sample hw" hw kLatencyBatch stride_ok
  "\<lambda>s. overhead_of (snd s)" "\<lambda>s. snd (snd s)"
  by unfold_locales
    (auto simp: stride_sample_def timed_pointer_chase_eq stride_ok_def wf_next Let_def split_paired_all)

subsection \<open>Whole measurements\<close>

lemma concat_rounds:
  "concat (map (\<lambda>r. concat (map (\<lambda>i. f (r * n + i)) [0..<n])) [0..<k]) = concat (map f [0..<k * n])"
proof (induction k)
  case (Suc k)
  have "[0..<n + k * n] = [0..<k * n] @ [k * n..<k * n + n]"
    by (metis add.commute upt_add_eq_append zero_le)
  moreover have "[k * n..<k * n + n] = map (\<lambda>i. k * n + i) [0..<n]"
    by (intro nth_equalityI) simp_all
  ultimately show ?case using Suc.IH by (simp add: comp_def)
qed simp

lemma concat_map_const: "concat (map (\<lambda>_. xs) is) = concat (replicate (length is) xs)"
  by (simp add: map_replicate_const)

lemma concat_rounds_const:
  "concat (replicate k (concat (replicate n xs))) = concat (replicate (k * n) xs)"
  by (induction k) (simp_all add: replicate_add add.commute)

lemma linked_after_build:
  assumes "wf_measurer L" "mset (shuffle [0..<node_count L]) = mset [0..<node_count L]"
  shows "linked_randomly (shuffle [0..<node_count L]) (build_random_ring shuffle L)"
proof -
  have "length (shuffle [0..<node_count L]) = node_count L"
    using mset_eq_length [OF assms(2)] by simp
  then have "nodes (build_random_ring shuffle L) = random_links (nodes L, shuffle [0..<node_count L])"
    by (simp add: build_random_ring_def random_links_def Let_def)
  moreover have "length (nodes L) = node_count L" using assms(1) by (simp add: wf_measurer_def)
  ultimately show ?thesis
    using wf_build_random_ring [of L shuffle] assms
    by (auto simp: linked_randomly_def build_random_ring_def Let_def is_order_def)
qed

lemma self_loop_ok: "wf_measurer L \<Longrightarrow> nodes (build_self_loop L) ! 0 = 0"
  using wf_nonempty [of L] by (simp add: build_self_loop_def)

lemma self_loop_same [simp]:
  "timer_overhead_cycles (build_self_loop L) = timer_overhead_cycles L"
  "timer_overhead_cycles (build_random_ring sh L) = timer_overhead_cycles L"
  "timer_overhead_cycles (build_stride_ring k L) = timer_overhead_cycles L"
  by (simp_all add: build_self_loop_def build_random_ring_def build_stride_ring_def Let_def)

lemma valid_configuration:
  "0 < iterations \<Longrightarrow> 0 \<le> warmup \<Longrightarrow> 0 < rounds \<Longrightarrow> \<not> invalid_configuration iterations warmup rounds"
  by (simp add: invalid_configuration_def)

lemma path_lines_distinct:
  assumes "128 \<le> node_count L" "mset (shuffle [0..<node_count L]) = mset [0..<node_count L]"
  shows "distinct (path_lines (shuffle [0..<node_count L]) p)
     \<and> set (path_lines (shuffle [0..<node_count L]) p) \<subseteq> {..<node_count L}"
proof -
  let ?o = "shuffle [0..<node_count L]"
  let ?c = "([0..<node_count L], ?o)"
  have o: "is_order (node_count L) ?o" using assms(2) by (simp add: is_order_def)
  have len: "length ?o = node_count L" by (rule is_order_facts(1) [OF o])
  have ok: "case ?c of (ns, order) \<Rightarrow> order \<noteq> [] \<and> is_order (length ns) order"
    using o len assms(1) by auto
  have eq: "path_lines ?o p = fst (chase (random_links ?c) (?o ! (p mod length ?o)) kLatencyBatch)"
    using random_ring.chase_visits [OF ok, of p kLatencyBatch] by (simp add: path_lines_def)
  have "length (random_links ?c) = node_count L" by (simp add: random_links_def Let_def)
  then show ?thesis
    using random_ring.chase_distinct [OF ok, of kLatencyBatch p] random_ring.chase_inside [OF ok, of p kLatencyBatch]
      assms(1) len unfolding eq by (simp add: kLatencyBatch_def)
qed

subsection \<open>Buffer sizes and fresh buffers\<close>

lemma unat_choose_buffer_size:
  "unat (choose_buffer_size r) = max (unat r) 33554432 div 64 * 64"
proof -
  let ?w = "(if r = 0 then min_buffer_size else max r min_buffer_size)"
  have min: "unat min_buffer_size = 33554432" by (simp add: min_buffer_size_def)
  have w: "unat ?w = max (unat r) 33554432" using min by (auto simp: max_def word_le_nat_alt)
  have "unat (?w div 64) * unat (64 :: u64) < 2 ^ 64"
    using order_le_less_trans [OF div_times_less_eq_dividend unsigned_less [of ?w, where 'a = nat], of 64]
    by (simp add: unat_div)
  then have "unat (?w div 64 * 64) = unat ?w div 64 * 64"
    using unat_mult_lem [of "?w div 64" 64] by (simp add: unat_div)
  moreover have "33554432 \<le> max (unat r) 33554432 div 64 * 64"
    using div_le_mono [of 33554432 "max (unat r) 33554432" 64] by simp
  ultimately show ?thesis
    unfolding choose_buffer_size_def Let_def using min w by (simp add: word_less_nat_alt)
qed

lemma touch_pages_fresh: "touch_pages [0..<n] = [0..<n]"
proof -
  have "foldl (\<lambda>ns j. ns[512 * j := 512 * j]) [0..<n] [0..<k] = [0..<n]" if "512 * k < n + 512" for k
    using that
  proof (induction k)
    case (Suc k)
    then show ?case by (simp add: list_update_same_conv)
  qed simp
  from this [of "(n + 511) div 512"] show ?thesis by (simp add: touch_pages_def)
qed

lemma wf_fresh:
  assumes "unat (div64 :: u64) = unat bytes div 64" "unat bytes = x div 64 * 64" "33554432 \<le> x"
    "p \<noteq> 0" "c = 64"
  shows "wf_measurer (let L = build_self_loop \<lparr>nodes = [0..<unat div64], base_address = p, buffer_size = bytes,
     node_count = unat div64, cache_line_size = c, sink = 0,
     timer_overhead_cycles = ov, random_order = [], numa_node = node\<rparr> in L\<lparr>nodes := touch_pages (nodes L)\<rparr>)"
proof -
  have "[0..<n][0 := 0] = [0..<n]" for n by (cases n) (simp_all add: upt_conv_Cons del: upt_Suc)
  moreover have "524288 \<le> x div 64" using assms(3) by linarith
  ultimately show ?thesis
    using assms by (auto simp: build_self_loop_def touch_pages_fresh wf_measurer_def Let_def)
qed

text \<open>One stride: the rounds restart at a node of their own, which needs the pointer inside the buffer.\<close>

interpretation stride_rounds: sampled_rounds
  "\<lambda>round s. let (xs, _, s') = collect (\<lambda>_. stride_sample hw) 0 n (round mod node_count (fst s), s) in (xs, s')"
  hw kLatencyBatch n "\<lambda>s. wf_measurer (fst s)" overhead_of snd
proof
  fix s :: "latency_measurer \<times> nat machine" and i
  assume w: "wf_measurer (fst s)"
  then have "stride_ok (i mod node_count (fst s), s)" using wf_nonempty by (simp add: stride_ok_def)
  from stride.collect_state(3) [OF this, of hw 0 n] show "wf_measurer (fst (snd (let (xs, _, s') =
      collect (\<lambda>_. stride_sample hw) 0 n (i mod node_count (fst s), s) in (xs, s'))))"
    by (simp add: stride_ok_def split_beta Let_def)
qed (simp_all add: split_beta Let_def stride.collect_state stride.collect_samples)

definition stride_result :: "hardware \<Rightarrow> latency_measurer \<Rightarrow> nat \<Rightarrow> nat \<Rightarrow> nat \<Rightarrow> measurement_result" where
  "stride_result hw L raw_stride r n =
     \<lparr>label = ''Stride '' @ to_string (int (max 64 (raw_stride div 64 * 64))) @ '' B (dependent pointer chase)'',
      stats = summarize (net_samples hw kLatencyBatch (timer_overhead_cycles L) r n),
      result_overhead = timer_overhead_cycles L\<rparr>"

lemma measure_stride_eq:
  assumes "wf_measurer L"
  shows "fst (measure_stride hw n w k raw (L, m)) = stride_result hw L raw (tsc_reads m + 2 * w) (k * n)"
    and "wf_measurer (fst (snd (measure_stride hw n w k raw (L, m))))"
    and "overhead_of (snd (measure_stride hw n w k raw (L, m))) = timer_overhead_cycles L"
    and "tsc_reads (snd (snd (measure_stride hw n w k raw (L, m)))) = tsc_reads m + 2 * (w + k * n)"
proof -
  let ?L = "build_stride_ring (stride_bytes L raw) L"
  let ?s1 = "snd (collect (\<lambda>_. stride_sample hw) 0 w (0, ?L, m))"
  have "stride_ok (0, ?L, m)"
    using wf_build_stride_ring [OF assms] wf_nonempty [of ?L] by (simp add: stride_ok_def)
  from stride.collect_state(3) [OF this, of hw 0 w]
  have ok: "wf_measurer (fst (snd ?s1))" by (simp add: stride_ok_def)
  have line: "cache_line_size L = 64" using assms by (simp add: wf_measurer_def)
  note s1 = stride.collect_state(1,2) [of hw 0 w "(0, ?L, m)"]
  show "fst (measure_stride hw n w k raw (L, m)) = stride_result hw L raw (tsc_reads m + 2 * w) (k * n)"
    "overhead_of (snd (measure_stride hw n w k raw (L, m))) = timer_overhead_cycles L"
    "tsc_reads (snd (snd (measure_stride hw n w k raw (L, m)))) = tsc_reads m + 2 * (w + k * n)"
    "wf_measurer (fst (snd (measure_stride hw n w k raw (L, m))))"
    using stride_rounds.rounds_samples [of hw n 0 k "snd ?s1"]
      stride_rounds.rounds_state(1,2) [of hw n 0 k "snd ?s1"]
      stride_rounds.rounds_state(3) [OF ok, of hw n 0 k] s1
    by (simp_all add: measure_stride_def stride_result_def stride_bytes_def line split_beta Let_def)
qed

lemma collect_strides:
  "wf_measurer L \<Longrightarrow> fst (collect (\<lambda>k. measure_stride hw n w rd (strides ! k)) i c (L, m))
     = map (\<lambda>k. stride_result hw L (strides ! (i + k)) (tsc_reads m + 2 * (k * (w + rd * n)) + 2 * w) (rd * n)) [0..<c]
   \<and> wf_measurer (fst (snd (collect (\<lambda>k. measure_stride hw n w rd (strides ! k)) i c (L, m))))"
proof (induction c arbitrary: i L m)
  case (Suc c)
  obtain L' m' where s: "snd (measure_stride hw n w rd (strides ! i) (L, m)) = (L', m')" by fastforce
  note e = measure_stride_eq [OF Suc.prems, of hw n w rd "strides ! i" m, unfolded s]
  have same: "stride_result hw L' = stride_result hw L" using e(3) by (simp add: fun_eq_iff stride_result_def)
  show ?case
    using Suc.IH [of L' "Suc i" m'] e same
    by (simp add: split_beta Let_def s upt_0_Suc algebra_simps comp_def del: upt_Suc)
qed simp

text \<open>A concrete measurer, machine and counter.\<close>

definition example_hardware :: hardware where
  "example_hardware = \<lparr>rdtscp = (\<lambda>k. (100 * of_nat k, 0)), clock_raw = (\<lambda>k. Some (0, of_nat k))\<rparr>"

definition example_machine :: "nat machine" where
  "example_machine = \<lparr>tsc_reads = 10, clock_reads = 0, trace = []\<rparr>"

definition example_measurer :: latency_measurer where
  "example_measurer = \<lparr>nodes = [0..<524288], base_address = 4096, buffer_size = 33554432,
     node_count = 524288, cache_line_size = 64, sink = 0, timer_overhead_cycles = 40,
     random_order = [], numa_node = - 1\<rparr>"

lemma wf_example: "wf_measurer example_measurer"
  by (auto simp: wf_measurer_def example_measurer_def simp del: upt_Suc)

lemma example_simps [simp]:
  "tsc_reads example_machine = 10" "timer_overhead_cycles example_measurer = 40"
  "node_count example_measurer = 524288"
  by (simp_all add: example_machine_def example_measurer_def)

subsection \<open>Life time\<close>

lemma hit_measured:
  assumes "wf_measurer L" "0 < iterations" "0 \<le> warmup" "0 < rounds"
  shows "fst (measure_hit hw iterations warmup rounds (L, m)) = Inr
      \<lparr>label = ''Cache Hit (L1 pointer-chasing latency)'',
       stats = summarize (net_samples hw kLatencyBatch (timer_overhead_cycles L)
                 (tsc_reads m + 2 * nat warmup) (nat rounds * nat iterations)),
       result_overhead = timer_overhead_cycles L\<rparr>
    \<and> trace (snd (snd (measure_hit hw iterations warmup rounds (L, m))))
      = trace m @ concat (replicate (nat warmup + nat rounds * nat iterations) hit_log)
    \<and> wf_measurer (fst (snd (measure_hit hw iterations warmup rounds (L, m))))"
proof -
  let ?s = "(build_self_loop L, m)"
  let ?r = "warmup_and_rounds (\<lambda>_. timed_pointer_chase hw 0 kLatencyBatch) (\<lambda>_ i. i)
     (nat warmup) (nat iterations) (nat rounds) ?s"
  have ok: "wf_measurer (fst ?s) \<and> nodes (fst ?s) ! 0 = 0"
    using assms(1) by (simp add: wf_build_self_loop self_loop_ok)
  have eq: "measure_hit hw iterations warmup rounds (L, m) = (Inr
      \<lparr>label = ''Cache Hit (L1 pointer-chasing latency)'', stats = summarize (concat (fst ?r)),
       result_overhead = overhead_of (snd ?r)\<rparr>, snd ?r)"
    using valid_configuration [OF assms(2-4)]
    by (simp add: measure_hit_def warmup_and_rounds_def Let_def split_beta)
  show ?thesis
    unfolding eq using hit.measured(3) [OF ok] hit.measured_trace [OF ok]
    by (simp add: hit.measured(1,2) concat_map_const concat_rounds_const replicate_add)
qed

lemma forced_miss_measured:
  assumes "wf_measurer L" "0 < iterations" "0 \<le> warmup" "0 < rounds"
    and shuffle: "mset (shuffle [0..<node_count L]) = mset [0..<node_count L]"
  defines "order \<equiv> shuffle [0..<node_count L]"
  shows "fst (measure_forced_miss shuffle hw iterations warmup rounds (L, m)) = Inr
      \<lparr>label = ''Forced Cache Miss (random pointer chase + CLFLUSH)'',
       stats = summarize (net_samples hw kLatencyBatch (timer_overhead_cycles L)
                 (tsc_reads m + 2 * nat warmup) (nat rounds * nat iterations)),
       result_overhead = timer_overhead_cycles L\<rparr>
    \<and> trace (snd (snd (measure_forced_miss shuffle hw iterations warmup rounds (L, m))))
      = trace m @ concat (map (forced_miss_log order) [0..<nat warmup])
        @ concat (map (forced_miss_log order) [0..<nat rounds * nat iterations])
    \<and> (\<forall>p. distinct (path_lines order p) \<and> set (path_lines order p) \<subseteq> {..<node_count L})
    \<and> wf_measurer (fst (snd (measure_forced_miss shuffle hw iterations warmup rounds (L, m))))"
proof -
  let ?s = "(build_random_ring shuffle L, m)"
  let ?r = "warmup_and_rounds (forced_miss_sample hw) (\<lambda>r i. r * nat iterations + i)
     (nat warmup) (nat iterations) (nat rounds) ?s"
  have ok: "linked_randomly order (fst ?s)"
    unfolding order_def using linked_after_build [of L shuffle] assms(1,5) by simp
  have n: "524288 \<le> node_count L" using assms(1) by (simp add: wf_measurer_def)
  have eq: "measure_forced_miss shuffle hw iterations warmup rounds (L, m) = (Inr
      \<lparr>label = ''Forced Cache Miss (random pointer chase + CLFLUSH)'', stats = summarize (concat (fst ?r)),
       result_overhead = overhead_of (snd ?r)\<rparr>, snd ?r)"
    using valid_configuration [OF assms(2-4)] n
    by (simp add: measure_forced_miss_def warmup_and_rounds_def Let_def split_beta)
  have wf: "wf_measurer (fst (snd ?r))"
    using forced.measured(3) [OF ok] by (auto simp: linked_randomly_def)
  show ?thesis
    unfolding eq using forced.measured_trace [OF ok] wf path_lines_distinct [of L shuffle] n shuffle
    by (simp add: forced.measured(1,2) concat_rounds order_def)
qed

lemma store_measured:
  assumes "wf_measurer L" "0 < iterations" "0 \<le> warmup" "0 < rounds"
  shows "fst (measure_store hw iterations warmup rounds (L, m)) = Inr
      \<lparr>label = ''Store (hot lines; issue throughput per store)'',
       stats = summarize (net_samples hw kStoreBatch (timer_overhead_cycles L)
                 (tsc_reads m + 2 * nat warmup) (nat rounds * nat iterations)),
       result_overhead = timer_overhead_cycles L\<rparr>
    \<and> trace (snd (snd (measure_store hw iterations warmup rounds (L, m))))
      = trace m @ concat (replicate (nat warmup + nat rounds * nat iterations) store_log)
    \<and> wf_measurer (fst (snd (measure_store hw iterations warmup rounds (L, m))))"
proof -
  let ?r = "warmup_and_rounds (\<lambda>_. timed_store_batch hw kStoreBatch) (\<lambda>_ i. i)
     (nat warmup) (nat iterations) (nat rounds) (L, m)"
  have ok: "wf_measurer (fst (L, m))" using assms(1) by simp
  have eq: "measure_store hw iterations warmup rounds (L, m) = (Inr
      \<lparr>label = ''Store (hot lines; issue throughput per store)'', stats = summarize (concat (fst ?r)),
       result_overhead = overhead_of (snd ?r)\<rparr>, snd ?r)"
    using valid_configuration [OF assms(2-4)]
    by (simp add: measure_store_def warmup_and_rounds_def Let_def split_beta)
  show ?thesis
    unfolding eq using store.measured(3) [OF ok] store.measured_trace [OF ok]
    by (simp add: store.measured(1,2) concat_map_const concat_rounds_const replicate_add)
qed

lemma strides_measured:
  assumes "wf_measurer L" "0 < iterations" "0 \<le> warmup" "0 < rounds"
  shows "fst (measure_strides hw strides iterations warmup rounds (L, m)) = Inr
      (map (\<lambda>k. stride_result hw L (strides ! k)
                (tsc_reads m + 2 * (k * (nat warmup + nat rounds * nat iterations)) + 2 * nat warmup)
                (nat rounds * nat iterations))
        [0..<length strides])
    \<and> wf_measurer (fst (snd (measure_strides hw strides iterations warmup rounds (L, m))))"
  using valid_configuration [OF assms(2-4)]
    collect_strides [OF assms(1), of hw "nat iterations" "nat warmup" "nat rounds" strides 0 "length strides" m]
  by (simp add: measure_strides_def split_beta Let_def)

text \<open>The block behind the buffer: no benchmark changes it, so the destructor releases what the constructor
  acquired.\<close>

definition block_of :: "latency_measurer \<Rightarrow> u64 \<times> u64 \<times> int" where
  "block_of L = (base_address L, buffer_size L, numa_node L)"

lemma collect_fixed: "(\<And>i s. g (snd (f i s)) = g s) \<Longrightarrow> g (snd (collect f i n s)) = g s"
  by (induction n arbitrary: i s) (simp_all add: split_beta Let_def)

lemma block_of_update [simp]:
  "block_of (L\<lparr>nodes := ns\<rparr>) = block_of L" "block_of (L\<lparr>sink := b\<rparr>) = block_of L"
  "block_of (L\<lparr>random_order := xs\<rparr>) = block_of L"
  by (simp_all add: block_of_def)

lemma block_of_build [simp]:
  "block_of (build_self_loop L) = block_of L" "block_of (build_random_ring shuffle L) = block_of L"
  "block_of (build_stride_ring k L) = block_of L"
  by (simp_all add: build_self_loop_def build_random_ring_def build_stride_ring_def Let_def block_of_def)

lemma block_of_timed [simp]:
  "block_of (fst (snd (timed_pointer_chase hw start steps s))) = block_of (fst s)"
  "block_of (fst (snd (timed_store_batch hw steps s))) = block_of (fst s)"
  "block_of (fst (snd (forced_miss_sample hw i s))) = block_of (fst s)"
  "block_of (fst (snd (snd (stride_sample hw t)))) = block_of (fst (snd t))"
  by (simp_all add: timed_pointer_chase_def timed_store_batch_def forced_miss_sample_def stride_sample_def
      flush_random_path_def split_beta Let_def)

lemma block_of_collect [simp]:
  "(\<And>i s. block_of (fst (snd (f i s))) = block_of (fst s)) \<Longrightarrow>
     block_of (fst (snd (collect f i n s))) = block_of (fst s)"
  using collect_fixed [where g = "\<lambda>s. block_of (fst s)"] by blast

lemma block_of_collect_strides [simp]:
  "block_of (fst (snd (snd (collect (\<lambda>_. stride_sample hw) i n t)))) = block_of (fst (snd t))"
  using collect_fixed [where g = "\<lambda>t. block_of (fst (snd t))" and f = "\<lambda>_. stride_sample hw"] by simp

lemma block_of_measure [simp]:
  "block_of (fst (snd (measure_hit hw n w r s))) = block_of (fst s)"
  "block_of (fst (snd (measure_forced_miss shuffle hw n w r s))) = block_of (fst s)"
  "block_of (fst (snd (measure_store hw n w r s))) = block_of (fst s)"
  "block_of (fst (snd (measure_stride hw k l j stride s))) = block_of (fst s)"
  "block_of (fst (snd (measure_strides hw strides n w r s))) = block_of (fst s)"
proof -
  show stride: "block_of (fst (snd (measure_stride hw k l j stride s))) = block_of (fst s)" for k l j stride s
    by (simp add: measure_stride_def split_beta Let_def)
  show "block_of (fst (snd (measure_hit hw n w r s))) = block_of (fst s)"
    "block_of (fst (snd (measure_forced_miss shuffle hw n w r s))) = block_of (fst s)"
    "block_of (fst (snd (measure_store hw n w r s))) = block_of (fst s)"
    "block_of (fst (snd (measure_strides hw strides n w r s))) = block_of (fst s)"
    by (simp_all add: measure_hit_def measure_forced_miss_def measure_store_def measure_strides_def stride
        split_beta Let_def)
qed

lemma delete_block: "block_of L = block_of L' \<Longrightarrow> delete_latency_measurer env L = delete_latency_measurer env L'"
  by (simp add: block_of_def delete_latency_measurer_def fun_eq_iff)

lemma measurer_live:
  "case new_latency_measurer hw env requested line node h m of (r, h', m') \<Rightarrow>
     (case r of
        Inl e \<Rightarrow> live h' = live h
          \<and> (e = RuntimeError ''mmap failed while allocating latency buffer'' \<longleftrightarrow> node < 0)
      | Inr L \<Rightarrow> wf_measurer L \<and> buffer_size L = choose_buffer_size requested
          \<and> timer_overhead_cycles L = fst (measure_overhead_cycles hw 2000 m)
          \<and> live h' = add_mset (if 0 \<le> node then Numa_free else Munmap, base_address L, buffer_size L) (live h)
          \<and> live (delete_latency_measurer env L h') = live h)"
proof -
  let ?size = "choose_buffer_size requested"
  obtain ov m' where ov: "measure_overhead_cycles hw 2000 m = (ov, m')" by fastforce
  define L where "L p = build_self_loop \<lparr>nodes = [0..<unat (?size div 64)], base_address = p, buffer_size = ?size,
     node_count = unat (?size div 64), cache_line_size = choose_line_size line, sink = 0,
     timer_overhead_cycles = ov, random_order = [], numa_node = node\<rparr>" for p
  have fields: "base_address (L p) = p" "buffer_size (L p) = ?size" "numa_node (L p) = node"
    "timer_overhead_cycles (L p) = ov" for p
    by (simp_all add: L_def build_self_loop_def)
  have wf: "wf_measurer (L p\<lparr>nodes := touch_pages (nodes (L p))\<rparr>)" if "p \<noteq> 0" for p
    unfolding L_def using that unat_choose_buffer_size [of requested]
    by (intro wf_fresh [unfolded Let_def, where x = "max (unat requested) 33554432"])
      (simp_all add: unat_div choose_line_size_def Let_def)
  show ?thesis
  proof (cases "0 \<le> node")
    case True
    obtain p h' where a: "allocate_on_node env ?size node h = (p, h')" by fastforce
    note facts = numa.failed_unchanged [of env ?size node h h'] numa.acq [OF a] numa.single [OF a]
    show ?thesis
      using True facts a wf [of p]
      by (auto simp: new_latency_measurer_def Let_def split_beta ov L_def [symmetric] fields
          delete_latency_measurer_def)
  next
    case False
    obtain p h' where a: "raw_alloc env Munmap ?size h = (p, h')" by fastforce
    note facts = munmap.failed_unchanged [of env ?size h h'] munmap.acq [OF a] munmap.single [OF a]
    show ?thesis
      using False facts a wf [of p]
      by (auto simp: new_latency_measurer_def Let_def split_beta ov L_def [symmetric] fields
          delete_latency_measurer_def)
  qed
qed

section \<open>Properties\<close>

text \<open>a hit benchmark with a valid configuration returns the summary of exactly
  rounds * iterations samples; each is the number of ticks of its own pair of counter reads, less the
  overhead clamped at zero, over 128 loads, and warm-up sections are not sampled.  Every timed
  section executes 128 loads of node 0 between its fences, and nothing else.\<close>

theorem measure_hit_result:
  assumes "wf_measurer L" "0 < iterations" "0 \<le> warmup" "0 < rounds"
  shows "fst (measure_hit hw iterations warmup rounds (L, m)) = Inr
      \<lparr>label = ''Cache Hit (L1 pointer-chasing latency)'',
       stats = summarize (net_samples hw kLatencyBatch (timer_overhead_cycles L)
                 (tsc_reads m + 2 * nat warmup) (nat rounds * nat iterations)),
       result_overhead = timer_overhead_cycles L\<rparr>
    \<and> trace (snd (snd (measure_hit hw iterations warmup rounds (L, m))))
      = trace m @ concat (replicate (nat warmup + nat rounds * nat iterations) hit_log)
    \<and> wf_measurer (fst (snd (measure_hit hw iterations warmup rounds (L, m))))"
  by (rule hit_measured [OF assms])

theorem measure_hit_result_witness:
  "fst (measure_hit example_hardware 2 1 3 (example_measurer, example_machine)) = Inr
      \<lparr>label = ''Cache Hit (L1 pointer-chasing latency)'',
       stats = summarize (net_samples example_hardware kLatencyBatch 40 12 6),
       result_overhead = 40\<rparr>"
  using measure_hit_result [OF wf_example, of 2 1 3 example_hardware example_machine] by simp

text \<open>C8: a forced-miss benchmark samples every section once, like the hit benchmark, and its
  instructions are the protocol of the source in order: section \<open>p\<close> flushes 128 lines of the random
  path, fences, and times loads of exactly those 128 lines, which are pairwise distinct; the sections
  advance along the path by one position each and restart after the warm-up.\<close>

theorem measure_forced_miss_result:
  assumes "wf_measurer L" "0 < iterations" "0 \<le> warmup" "0 < rounds"
    and shuffle: "mset (shuffle [0..<node_count L]) = mset [0..<node_count L]"
  defines "order \<equiv> shuffle [0..<node_count L]"
  shows "fst (measure_forced_miss shuffle hw iterations warmup rounds (L, m)) = Inr
      \<lparr>label = ''Forced Cache Miss (random pointer chase + CLFLUSH)'',
       stats = summarize (net_samples hw kLatencyBatch (timer_overhead_cycles L)
                 (tsc_reads m + 2 * nat warmup) (nat rounds * nat iterations)),
       result_overhead = timer_overhead_cycles L\<rparr>
    \<and> trace (snd (snd (measure_forced_miss shuffle hw iterations warmup rounds (L, m))))
      = trace m @ concat (map (forced_miss_log order) [0..<nat warmup])
        @ concat (map (forced_miss_log order) [0..<nat rounds * nat iterations])
    \<and> (\<forall>p. distinct (path_lines order p) \<and> set (path_lines order p) \<subseteq> {..<node_count L})
    \<and> wf_measurer (fst (snd (measure_forced_miss shuffle hw iterations warmup rounds (L, m))))"
  unfolding order_def by (rule forced_miss_measured [where shuffle = shuffle and L = L, OF assms(1-5)])

theorem measure_forced_miss_result_witness:
  "fst (measure_forced_miss rev example_hardware 2 1 3 (example_measurer, example_machine)) = Inr
      \<lparr>label = ''Forced Cache Miss (random pointer chase + CLFLUSH)'',
       stats = summarize (net_samples example_hardware kLatencyBatch 40 12 6),
       result_overhead = 40\<rparr>"
  using measure_forced_miss_result [OF wf_example, of 2 1 3 rev example_hardware example_machine]
  by (simp del: upt_Suc)

text \<open>a store benchmark samples every section once; each timed section issues 256 stores to the
  first sixteen lines, in rotation, and nothing else between its fences.\<close>

theorem measure_store_result:
  assumes "wf_measurer L" "0 < iterations" "0 \<le> warmup" "0 < rounds"
  shows "fst (measure_store hw iterations warmup rounds (L, m)) = Inr
      \<lparr>label = ''Store (hot lines; issue throughput per store)'',
       stats = summarize (net_samples hw kStoreBatch (timer_overhead_cycles L)
                 (tsc_reads m + 2 * nat warmup) (nat rounds * nat iterations)),
       result_overhead = timer_overhead_cycles L\<rparr>
    \<and> trace (snd (snd (measure_store hw iterations warmup rounds (L, m))))
      = trace m @ concat (replicate (nat warmup + nat rounds * nat iterations) store_log)
    \<and> wf_measurer (fst (snd (measure_store hw iterations warmup rounds (L, m))))"
  by (rule store_measured [OF assms])

theorem measure_store_result_witness:
  "fst (measure_store example_hardware 2 1 3 (example_measurer, example_machine)) = Inr
      \<lparr>label = ''Store (hot lines; issue throughput per store)'',
       stats = summarize (net_samples example_hardware kStoreBatch 40 12 6),
       result_overhead = 40\<rparr>"
  using measure_store_result [OF wf_example, of 2 1 3 example_hardware example_machine] by simp

text \<open>C23: a stride benchmark returns one result per requested stride, in order; each is labelled with
  the stride rounded down to whole lines (one line at least) and summarises rounds * iterations
  sections of its own, the sections of earlier strides and its warm-up excluded.\<close>

theorem measure_strides_result:
  assumes "wf_measurer L" "0 < iterations" "0 \<le> warmup" "0 < rounds"
  shows "fst (measure_strides hw strides iterations warmup rounds (L, m)) = Inr
      (map (\<lambda>k. stride_result hw L (strides ! k)
                (tsc_reads m + 2 * (k * (nat warmup + nat rounds * nat iterations)) + 2 * nat warmup)
                (nat rounds * nat iterations))
        [0..<length strides])
    \<and> wf_measurer (fst (snd (measure_strides hw strides iterations warmup rounds (L, m))))"
  by (rule strides_measured [OF assms])

theorem measure_strides_result_witness:
  "fst (measure_strides example_hardware [64, 100, 4096] 2 1 3 (example_measurer, example_machine)) = Inr
     [stride_result example_hardware example_measurer 64 12 6,
      stride_result example_hardware example_measurer 100 26 6,
      stride_result example_hardware example_measurer 4096 40 6]"
  using measure_strides_result [OF wf_example, of 2 1 3 example_hardware "[64, 100, 4096]" example_machine]
  by (simp add: upt_rec)

text \<open>C18: whatever permutation the shuffle produces, the random ring is one cycle through every node
  of the buffer: from any node, a chase of node_count steps visits each node exactly once and is back
  at its start.\<close>

theorem random_ring_one_cycle:
  assumes "wf_measurer L" "mset (shuffle [0..<node_count L]) = mset [0..<node_count L]"
    and "i < node_count L"
  shows "distinct (fst (chase (nodes (build_random_ring shuffle L)) i (node_count L)))
     \<and> set (fst (chase (nodes (build_random_ring shuffle L)) i (node_count L))) = {..<node_count L}
     \<and> snd (chase (nodes (build_random_ring shuffle L)) i (node_count L)) = i"
proof -
  let ?o = "shuffle [0..<node_count L]" and ?n = "node_count L"
  let ?c = "(nodes L, ?o)"
  have o: "is_order ?n ?o" using assms(2) by (simp add: is_order_def)
  note f = is_order_facts [OF o]
  have ring: "nodes (build_random_ring shuffle L) = random_links ?c"
    using f(1) by (simp add: build_random_ring_def random_links_def Let_def)
  have len: "length (nodes L) = ?n" using assms(1) by (simp add: wf_measurer_def)
  have ok: "case ?c of (ns, order) \<Rightarrow> order \<noteq> [] \<and> is_order (length ns) order"
    using o f(1) len assms(3) by auto
  obtain p where p: "p < ?n" "?o ! p = i" using f assms(3) by (metis in_set_conv_nth lessThan_iff)
  let ?vs = "fst (chase (random_links ?c) i ?n)"
  have d: "distinct ?vs" and s: "set ?vs \<subseteq> {..<?n}" and e: "snd (chase (random_links ?c) i ?n) = i"
    and c: "card (set ?vs) = ?n"
    using random_ring.chase_distinct [OF ok, of ?n p] random_ring.chase_inside [OF ok, of p ?n]
      random_ring.chase_returns [OF ok, of p] random_ring.chase_covers [OF ok, of p] p f(1) len
    by (simp_all add: random_links_def Let_def)
  from s c have "set ?vs = {..<?n}" by (intro card_subset_eq) simp_all
  with d e show ?thesis unfolding ring by blast
qed

theorem random_ring_one_cycle_witness:
  "set (fst (chase (nodes (build_random_ring rev example_measurer)) 7 524288)) = {..<524288}"
  using random_ring_one_cycle [OF wf_example, of rev 7] by (simp del: upt_Suc)

text \<open>the stride ring splits the buffer into equal cycles: with k lines per stride, a chase from
  node i returns to i after exactly n / gcd(n, k) distinct nodes, all congruent to i modulo gcd(n, k),
  so it never touches the other lines of the buffer.\<close>

theorem stride_ring_orbit:
  fixes stride :: nat
  assumes "wf_measurer L" "i < node_count L"
  defines "g \<equiv> gcd (node_count L) (stride_lines L stride)"
  shows "snd (chase (nodes (build_stride_ring stride L)) i (node_count L div g)) = i
     \<and> distinct (fst (chase (nodes (build_stride_ring stride L)) i (node_count L div g)))
     \<and> length (fst (chase (nodes (build_stride_ring stride L)) i (node_count L div g))) = node_count L div g
     \<and> (\<forall>j k. j \<in> set (fst (chase (nodes (build_stride_ring stride L)) i k)) \<longrightarrow> j mod g = i mod g)"
proof -
  let ?k = "stride_lines L stride"
  let ?c = "(nodes L, ?k, i)"
  have len: "length (nodes L) = node_count L" using assms(1) by (simp add: wf_measurer_def)
  have ring: "nodes (build_stride_ring stride L) = stride_links ?c"
    by (simp add: build_stride_ring_def stride_links_def Let_def len)
  have ok: "case ?c of (ns, k, s) \<Rightarrow> ns \<noteq> []" using wf_nonempty [OF assms(1)] by simp
  have mod_g: "(i + x * ?k) mod node_count L mod g = i mod g" for x
  proof -
    have "g dvd node_count L" "g dvd x * ?k" by (simp_all add: g_def)
    then show ?thesis by (metis mod_mod_cancel mod_add_right_eq mod_0_imp_dvd dvd_imp_mod_0 add.right_neutral)
  qed
  show ?thesis
    unfolding ring using stride_ring.chase_visits [OF ok, of 0] mod_g
      stride_ring.chase_distinct [OF ok, of "node_count L div g" 0]
      stride_ring.chase_returns [OF ok, of 0] assms(2)
    by (auto simp: len g_def)
qed

theorem stride_ring_orbit_witness:
  "snd (chase (nodes (build_stride_ring 4096 example_measurer)) 5 8192) = 5"
  using stride_ring_orbit [OF wf_example, of 5 4096]
  by (simp add: stride_lines_def example_measurer_def gcd_non_0_nat)

text \<open>for every request the buffer has at least 32 MiB, is a whole number of cache lines, is
  not below the request by a line or more, and its size in bytes does not wrap.\<close>

theorem choose_buffer_size_bounds:
  "32 * 1024 * 1024 \<le> unat (choose_buffer_size r) \<and> 64 dvd unat (choose_buffer_size r)
     \<and> unat r < unat (choose_buffer_size r) + 64
     \<and> unat (choose_buffer_size r) \<le> max (unat r) (32 * 1024 * 1024)"
proof -
  let ?x = "max (unat r) 33554432"
  have "?x div 64 * 64 \<le> ?x" by (rule div_times_less_eq_dividend)
  moreover have "?x < ?x div 64 * 64 + 64" by linarith
  ultimately show ?thesis
    unfolding unat_choose_buffer_size by auto
qed

text \<open>construction either fails, with the error of the allocator that was tried and without
  leaving a block behind, or yields a well-formed measurer that owns exactly one new block, of its
  buffer size, which the destructor returns to the allocator it came from.\<close>

theorem measurer_lifetime:
  "case new_latency_measurer hw env requested line node h m of (r, h', m') \<Rightarrow>
     (case r of
        Inl e \<Rightarrow> live h' = live h
          \<and> (e = RuntimeError ''mmap failed while allocating latency buffer'' \<longleftrightarrow> node < 0)
      | Inr L \<Rightarrow> wf_measurer L \<and> buffer_size L = choose_buffer_size requested
          \<and> timer_overhead_cycles L = fst (measure_overhead_cycles hw 2000 m)
          \<and> live h' = add_mset (if 0 \<le> node then Numa_free else Munmap, base_address L, buffer_size L) (live h)
          \<and> live (delete_latency_measurer env L h') = live h)"
  by (rule measurer_live)

text \<open>a benchmark with a non-positive iteration or round count or a negative warm-up throws
  the invalid-argument error before it touches the buffer, the links or the machine.\<close>

theorem invalid_configuration_rejected:
  assumes "iterations \<le> 0 \<or> warmup < 0 \<or> rounds \<le> 0"
  shows "measure_hit hw iterations warmup rounds s
        = (Inl (InvalidArgument ''Invalid hit benchmark configuration''), s)
     \<and> measure_forced_miss shuffle hw iterations warmup rounds s
        = (Inl (InvalidArgument ''Invalid forced-miss benchmark configuration''), s)
     \<and> measure_store hw iterations warmup rounds s
        = (Inl (InvalidArgument ''Invalid store benchmark configuration''), s)
     \<and> measure_strides hw strides iterations warmup rounds s
        = (Inl (InvalidArgument ''Invalid stride benchmark configuration''), s)"
  using assms
  by (auto simp: measure_hit_def measure_forced_miss_def measure_store_def measure_strides_def
      invalid_configuration_def)

theorem invalid_configuration_rejected_witness:
  "fst (measure_hit example_hardware 0 5 5 (example_measurer, example_machine))
     = Inl (InvalidArgument ''Invalid hit benchmark configuration'')"
  using invalid_configuration_rejected [of 0 5 5 example_hardware "(example_measurer, example_machine)" rev "[]"]
  by simp

end
