(* ===== verification/Json.thy ===== *)
theory Json
  imports Decimal
begin

text \<open>
  The text of the JSON reports: \<open>json_escape\<close> (the same function in \<open>src/evaluation_lab.cpp\<close>,
  \<open>src/operational_lab.cpp\<close> and \<open>src/defensive_lab.cpp\<close>), doubles printed with \<open>std::fixed\<close> and
  a precision, booleans, and a reader of string literals against which the escaping is proved.
\<close>

abbreviation quote :: char where "quote \<equiv> CHR 0x22"
abbreviation backslash :: char where "backslash \<equiv> CHR 0x5C"

section \<open>Escaping\<close>

definition escape_char :: "char \<Rightarrow> string" where
  "escape_char ch =
     (if ch = backslash then [backslash, backslash]
      else if ch = quote then [backslash, quote]
      else if ch = CHR 0x0A then [backslash, CHR ''n'']
      else if ch = CHR 0x0D then [backslash, CHR ''r'']
      else if ch = CHR 0x09 then [backslash, CHR ''t'']
      else [ch])"

definition json_escape :: "string \<Rightarrow> string" where
  "json_escape value = concat (map escape_char value)"

text \<open>The rest of a string literal after its opening quote, as RFC 8259 defines it for the short
  escapes: the value and what follows the closing quote; raw control characters are errors.\<close>

fun unescape :: "char \<Rightarrow> char option" where
  "unescape c =
     (if c = backslash \<or> c = quote \<or> c = CHR ''/'' then Some c
      else if c = CHR ''n'' then Some CHR 0x0A
      else if c = CHR ''r'' then Some CHR 0x0D
      else if c = CHR ''t'' then Some CHR 0x09
      else if c = CHR ''b'' then Some CHR 0x08
      else if c = CHR ''f'' then Some CHR 0x0C
      else None)"

definition is_control :: "char \<Rightarrow> bool" where
  "is_control c \<longleftrightarrow> (of_char c :: nat) < 32"

fun read_literal :: "string \<Rightarrow> (string \<times> string) option" where
  "read_literal [] = None"
| "read_literal (c # cs) =
     (if c = quote then Some ([], cs)
      else if c = backslash then
        (case cs of [] \<Rightarrow> None
         | d # ds \<Rightarrow> (case unescape d of None \<Rightarrow> None
            | Some e \<Rightarrow> map_option (\<lambda>(v, rest). (e # v, rest)) (read_literal ds)))
      else if is_control c then None
      else map_option (\<lambda>(v, rest). (c # v, rest)) (read_literal cs))"

lemma json_escape_Nil [simp]: "json_escape [] = []"
  by (simp add: json_escape_def)

lemma json_escape_Cons [simp]: "json_escape (c # cs) = escape_char c @ json_escape cs"
  by (simp add: json_escape_def)

text \<open>The characters that \<open>json_escape\<close> cannot represent: the other control characters.\<close>

definition printable :: "char \<Rightarrow> bool" where
  "printable c \<longleftrightarrow> is_control c \<longrightarrow> c \<in> {CHR 0x0A, CHR 0x0D, CHR 0x09}"

lemma read_escape_char:
  "printable c \<Longrightarrow> read_literal (escape_char c @ cs) = map_option (\<lambda>(v, rest). (c # v, rest)) (read_literal cs)"
  by (auto simp: escape_char_def printable_def is_control_def)

lemma read_escape_raw:
  "\<not> printable c \<Longrightarrow> read_literal (escape_char c @ cs) = None"
  by (auto simp: escape_char_def printable_def is_control_def)

section \<open>Numbers and booleans\<close>

definition show_fixed :: "nat \<Rightarrow> double \<Rightarrow> string" where
  "show_fixed k x =
     (let m = nat (rne (\<bar>x\<bar> * 10 ^ k)); r = to_dec (m mod 10 ^ k)
      in (if x < 0 then [CHR ''-''] else []) @ to_dec (m div 10 ^ k)
         @ (if k = 0 then [] else CHR ''.'' # replicate (k - length r) CHR ''0'' @ r))"

definition bool_text :: "bool \<Rightarrow> string" where
  "bool_text b = (if b then ''true'' else ''false'')"

section \<open>Objects and arrays\<close>

text \<open>The layout of the reports: one member per line, indented by the given number of spaces beyond
  the enclosing line, separated by a comma and a newline.\<close>

definition json_string :: "string \<Rightarrow> string" where
  "json_string s = quote # json_escape s @ [quote]"

fun separated :: "string \<Rightarrow> string list \<Rightarrow> string" where
  "separated sep [] = []"
| "separated sep [x] = x"
| "separated sep (x # y # xs) = x @ sep @ separated sep (y # xs)"

definition spaces :: "nat \<Rightarrow> string" where
  "spaces n = replicate n CHR '' ''"

definition json_member :: "nat \<Rightarrow> string \<times> string \<Rightarrow> string" where
  "json_member indent m = spaces indent @ [quote] @ fst m @ [quote] @ '': '' @ snd m"

definition json_object :: "nat \<Rightarrow> (string \<times> string) list \<Rightarrow> string" where
  "json_object indent ms =
     ''{'' @ [CHR 0x0A] @ separated ('','' @ [CHR 0x0A]) (map (json_member (indent + 2)) ms)
       @ [CHR 0x0A] @ spaces indent @ ''}''"

text \<open>An array of objects, one after the other.\<close>

definition json_objects :: "nat \<Rightarrow> (string \<times> string) list list \<Rightarrow> string" where
  "json_objects indent xs =
     ''['' @ [CHR 0x0A]
       @ concat (map (\<lambda>k. spaces (indent + 2) @ json_object (indent + 2) (xs ! k)
                          @ (if Suc k \<noteq> length xs then '','' else []) @ [CHR 0x0A]) [0..<length xs])
       @ spaces indent @ '']''"

text \<open>The magnitude a printed number denotes.\<close>

definition fixed_value :: "nat \<Rightarrow> string \<Rightarrow> real" where
  "fixed_value k s =
     (let t = dropWhile (\<lambda>c. c = CHR ''-'') s
      in of_nat (of_dec (takeWhile is_digit t)) + of_nat (of_dec (drop 1 (dropWhile is_digit t))) / 10 ^ k)"

lemma of_dec_append: "of_dec (xs @ ys) = of_dec xs * 10 ^ length ys + of_dec ys"
proof (induction ys rule: rev_induct)
  case (snoc y ys)
  have "of_dec (xs @ ys @ [y]) = 10 * of_dec (xs @ ys) + digit_value y"
    using of_dec_snoc [of "xs @ ys" y] by simp
  then show ?case using snoc by (simp add: of_dec_snoc algebra_simps)
qed (simp add: of_dec_def)

lemma of_dec_zeros: "of_dec (replicate n CHR ''0'') = 0"
  by (induction n) (simp_all add: of_dec_def digit_value_def replicate_append_same [symmetric])

lemma of_dec_padded: "of_dec (replicate n CHR ''0'' @ to_dec m) = m"
  by (simp add: of_dec_append of_dec_zeros)

lemma is_digit_dot [simp]: "\<not> is_digit CHR ''.''"
  by (simp add: is_digit_def)

lemma takeWhile_dec_dot: "takeWhile is_digit (to_dec n @ CHR ''.'' # cs) = to_dec n"
  by (simp add: takeWhile_digits_append)

lemma dropWhile_dec_dot: "dropWhile is_digit (to_dec n @ CHR ''.'' # cs) = CHR ''.'' # cs"
  using to_dec_digits by (simp add: dropWhile_append)

lemma fixed_sign: "dropWhile (\<lambda>c. c = CHR ''-'') ((if x < (0::real) then [CHR ''-''] else []) @ to_dec n @ cs)
   = to_dec n @ cs"
  by (rule to_dec_Cons [of n]) auto

lemma fixed_value_fixed:
  assumes "0 < k"
  shows "fixed_value k (show_fixed k x) = of_int (rne (\<bar>x\<bar> * 10 ^ k)) / 10 ^ k"
proof -
  let ?m = "nat (rne (\<bar>x\<bar> * 10 ^ k))"
  have "0 \<le> rne (\<bar>x\<bar> * 10 ^ k)" by (intro int_le_rne) simp
  then have m: "of_int (rne (\<bar>x\<bar> * 10 ^ k)) = (of_nat ?m :: real)" by simp
  have "of_nat ?m = (of_nat (?m div 10 ^ k) * 10 ^ k + of_nat (?m mod 10 ^ k) :: real)"
    by (metis div_mod_decomp of_nat_add of_nat_mult of_nat_numeral of_nat_power)
  then have "of_nat ?m / 10 ^ k = (of_nat (?m div 10 ^ k) + of_nat (?m mod 10 ^ k) / 10 ^ k :: real)"
    by (simp add: add_divide_distrib)
  moreover have "show_fixed k x = (if x < 0 then [CHR ''-''] else []) @ to_dec (?m div 10 ^ k)
      @ CHR ''.'' # replicate (k - length (to_dec (?m mod 10 ^ k))) CHR ''0'' @ to_dec (?m mod 10 ^ k)"
    using assms by (simp add: show_fixed_def Let_def)
  then have "fixed_value k (show_fixed k x) = of_nat (?m div 10 ^ k) + of_nat (?m mod 10 ^ k) / 10 ^ k"
    by (simp only: fixed_value_def fixed_sign Let_def takeWhile_dec_dot dropWhile_dec_dot of_dec_to_dec
        drop_0 drop_Suc_Cons One_nat_def of_dec_padded)
  ultimately show ?thesis using m by (simp only:)
qed

section \<open>Properties\<close>

text \<open>a reader of JSON gets back exactly the string that was escaped, and what follows the closing
  quote, provided the string has no control characters but newline, carriage return and tab; with any
  other control character the report is not valid JSON.\<close>

theorem json_escape_roundtrip:
  "read_literal (json_escape s @ quote # rest) = (if \<forall>c\<in>set s. printable c then Some (s, rest) else None)"
proof (induction s)
  case (Cons c s)
  then show ?case
    by (cases "printable c") (simp_all add: read_escape_char read_escape_raw)
qed simp

theorem json_escape_roundtrip_witness:
  "read_literal (json_escape ''say [quote]'' @ quote # ''}'') = Some (''say [quote]'', ''}'')"
  using json_escape_roundtrip [of "''say [quote]''" "''}''"] by (simp add: printable_def is_control_def)

text \<open>A number printed with k > 0 decimals denotes the value within half a unit of the last
  decimal.\<close>

theorem fixed_error:
  assumes "0 < k"
  shows "\<bar>fixed_value k (show_fixed k x) - \<bar>x\<bar>\<bar> \<le> 1 / (2 * 10 ^ k)"
proof -
  have "\<bar>of_int (rne (\<bar>x\<bar> * 10 ^ k)) - \<bar>x\<bar> * 10 ^ k\<bar> / 10 ^ k \<le> (1 / 2) / 10 ^ k"
    using rne_error by (intro divide_right_mono) simp_all
  moreover have "of_int (rne (\<bar>x\<bar> * 10 ^ k)) / 10 ^ k - \<bar>x\<bar> = (of_int (rne (\<bar>x\<bar> * 10 ^ k)) - \<bar>x\<bar> * 10 ^ k) / 10 ^ k"
    by (simp add: field_simps)
  ultimately show ?thesis unfolding fixed_value_fixed [OF assms] by (simp add: abs_divide)
qed

theorem fixed_error_witness: "\<bar>fixed_value 2 (show_fixed 2 (1 / 3)) - \<bar>1 / 3\<bar>\<bar> \<le> 1 / 200"
  using fixed_error [of 2 "1 / 3"] by simp

end
