(* ===== verification/Stream_Format.thy ===== *)
theory Stream_Format
  imports Json
begin

text \<open>
  How \<open>operator<<\<close> prints a \<open>double\<close> on a stream whose format was not changed (\<open>%g\<close>: six significant
  digits, trailing zeros removed, an exponent when it is below -4 or at least 6).  \<open>std::fixed\<close> is
  \<open>show_fixed\<close> of \<open>Json\<close>.  The conversion is proved accurate to half a unit of the sixth digit.
\<close>

section \<open>Hexadecimal\<close>

definition hex_digit :: "nat \<Rightarrow> char" where
  "hex_digit d = (if d < 10 then digit_char d else char_of (87 + d))"

fun show_hex :: "nat \<Rightarrow> string" where
  "show_hex n = (if n < 16 then [hex_digit n] else show_hex (n div 16) @ [hex_digit (n mod 16)])"

declare show_hex.simps [simp del]

section \<open>Decimal exponents\<close>

text \<open>The number of times a value below 1 is multiplied by 10 until it is at least 1; 330 is enough for
  the smallest positive \<open>double\<close>.\<close>

fun shift_count :: "nat \<Rightarrow> real \<Rightarrow> nat" where
  "shift_count 0 x = 0"
| "shift_count (Suc n) x = (if 1 \<le> x then 0 else Suc (shift_count n (10 * x)))"

definition ilog10 :: "real \<Rightarrow> int" where
  "ilog10 x = (if 1 \<le> x then int (length (to_dec (nat \<lfloor>x\<rfloor>))) - 1 else - int (shift_count 330 x))"

text \<open>The six digits as a number and the exponent of the first one, after rounding.\<close>

definition six_digits :: "real \<Rightarrow> nat \<times> int" where
  "six_digits x =
     (let e = ilog10 x; m = nat (rne (x * 10 powi (5 - e)))
      in if m = 1000000 then (100000, e + 1) else (m, e))"

definition strip_zeros :: "string \<Rightarrow> string" where
  "strip_zeros s = rev (dropWhile (\<lambda>c. c = CHR ''0'') (rev s))"

definition with_fraction :: "string \<Rightarrow> string \<Rightarrow> string" where
  "with_fraction whole fraction =
     (let f = strip_zeros fraction in if f = [] then whole else whole @ CHR ''.'' # f)"

definition show_exponent :: "int \<Rightarrow> string" where
  "show_exponent e =
     CHR ''e'' # (if e < 0 then CHR ''-'' else CHR ''+'') #
       (let d = to_dec (nat \<bar>e\<bar>) in if length d < 2 then CHR ''0'' # d else d)"

definition show_general :: "double \<Rightarrow> string" where
  "show_general x =
     (if x = 0 then ''0''
      else
        let (m, e) = six_digits \<bar>x\<bar>; d = to_dec m
        in (if x < 0 then [CHR ''-''] else []) @
           (if e < - 4 \<or> 6 \<le> e then with_fraction (take 1 d) (drop 1 d) @ show_exponent e
            else if e < 0 then with_fraction ''0'' (replicate (nat (- e - 1)) CHR ''0'' @ d)
            else with_fraction (take (nat e + 1) d) (drop (nat e + 1) d)))"

section \<open>Accuracy\<close>

lemma length_to_dec: "0 < n \<Longrightarrow> 10 ^ (length (to_dec n) - 1) \<le> n \<and> n < 10 ^ length (to_dec n)"
proof (induction n rule: to_dec.induct)
  case (1 n)
  show ?case
  proof (cases "n < 10")
    case True
    then show ?thesis using 1 by (subst (1 2) to_dec.simps) simp
  next
    case False
    let ?l = "length (to_dec (n div 10))"
    have l: "length (to_dec n) = Suc ?l" using False by (subst to_dec.simps) simp
    have IH: "10 ^ (?l - 1) \<le> n div 10" "n div 10 < 10 ^ ?l" using 1 False by simp_all
    define k where "k = ?l - 1"
    have "?l = Suc k" by (simp add: k_def Suc_diff_1)
    then have "10 ^ k \<le> n div 10" "n div 10 < 10 * 10 ^ k" "length (to_dec n) = Suc (Suc k)" using IH l by simp_all
    moreover have "10 * (n div 10) \<le> n" "n < 10 * (n div 10) + 10" by simp_all
    ultimately have "10 * 10 ^ k \<le> n \<and> n < 100 * 10 ^ k" by linarith
    then show ?thesis using \<open>length (to_dec n) = Suc (Suc k)\<close> by simp
  qed
qed

lemma shift_count_bounds:
  assumes "0 < x" "x < 1" "1 \<le> 10 ^ n * x"
  shows "1 \<le> 10 ^ shift_count n x * x \<and> 10 ^ shift_count n x * x < 10"
  using assms
proof (induction n arbitrary: x)
  case (Suc n)
  show ?case
  proof (cases "1 \<le> 10 * x")
    case True
    then have "shift_count n (10 * x) = 0" by (cases n) simp_all
    then show ?thesis using Suc.prems True by simp
  next
    case False
    then have "1 \<le> 10 ^ shift_count n (10 * x) * (10 * x) \<and> 10 ^ shift_count n (10 * x) * (10 * x) < 10"
      using Suc.prems by (intro Suc.IH) (simp_all add: mult.commute mult.left_commute)
    then show ?thesis using Suc.prems by (simp add: mult.commute mult.left_commute)
  qed
qed simp

lemma ilog10_bounds:
  assumes "1 / 10 ^ 330 \<le> x"
  shows "10 powi ilog10 x \<le> x \<and> x < 10 powi (ilog10 x + 1)"
proof (cases "1 \<le> x")
  case True
  let ?n = "nat \<lfloor>x\<rfloor>" and ?l = "length (to_dec (nat \<lfloor>x\<rfloor>))"
  have n: "0 < ?n" "real ?n \<le> x" "x < real ?n + 1" using True by (simp_all add: le_floor_iff)
  have l: "0 < ?l" by simp
  note b = length_to_dec [OF n(1)]
  have e: "ilog10 x = int (?l - 1)" "ilog10 x + 1 = int ?l" using True l by (simp_all add: ilog10_def of_nat_diff Suc_leI)
  have "real (10 ^ (?l - 1)) \<le> real ?n" using b by (simp only: of_nat_le_iff)
  moreover have "real ?n + 1 \<le> real (10 ^ ?l)" using b
    by (metis Suc_leI of_nat_Suc of_nat_le_iff add.commute)
  moreover have "(10 :: real) powi ilog10 x = real (10 ^ (?l - 1))" "(10 :: real) powi (ilog10 x + 1) = real (10 ^ ?l)"
    by (simp_all only: e(2) power_int_of_nat of_nat_power of_nat_numeral) (simp only: e(1) power_int_of_nat)
  ultimately show ?thesis using n by (simp only:) linarith
next
  case False
  then have "0 < x" using assms by (meson less_le_trans zero_less_divide_1_iff zero_less_numeral zero_less_power)
  moreover have "1 \<le> 10 ^ 330 * x" using assms by (simp add: field_simps)
  ultimately have b: "1 \<le> 10 ^ shift_count 330 x * x \<and> 10 ^ shift_count 330 x * x < 10"
    using False by (intro shift_count_bounds) simp_all
  define k where "k = shift_count 330 x"
  have "10 powi (- int k) = 1 / (10 :: real) ^ k" "10 powi (1 - int k) = 10 / (10 :: real) ^ k"
    by (simp_all add: power_int_diff power_int_minus field_simps)
  moreover have "ilog10 x = - int k" "ilog10 x + 1 = 1 - int k" using False by (simp_all add: ilog10_def k_def)
  moreover have "1 / 10 ^ k \<le> x" "x < 10 / 10 ^ k" using b by (simp_all add: k_def field_simps)
  ultimately show ?thesis by (simp only:)
qed

text \<open>The value of the six digits.\<close>

definition general_value :: "nat \<times> int \<Rightarrow> real" where
  "general_value d = of_nat (fst d) * 10 powi (snd d - 5)"

lemma six_digits_error:
  assumes "1 / 10 ^ 330 \<le> x"
  shows "\<bar>general_value (six_digits x) - x\<bar> \<le> 10 powi (ilog10 x - 5) / 2"
    "100000 \<le> fst (six_digits x) \<and> fst (six_digits x) < 1000000"
proof -
  define e where "e = ilog10 x"
  define y where "y = x * 10 powi (5 - e)"
  have b: "10 powi e \<le> x" "x < 10 powi (e + 1)" using ilog10_bounds [OF assms] by (simp_all add: e_def)
  have s: "10 powi e * 10 powi (5 - e) = (100000 :: real)" "10 powi (e + 1) * 10 powi (5 - e) = (1000000 :: real)"
    by (simp_all add: power_int_add [symmetric])
  have y: "100000 \<le> y" "y < 1000000"
    using mult_right_mono [OF b(1), of "10 powi (5 - e)"] mult_strict_right_mono [OF b(2), of "10 powi (5 - e)"] s
    by (simp_all add: y_def)
  have m: "100000 \<le> rne y" "rne y \<le> 1000000"
    using int_le_rne [of 100000 y] rne_le_int [of y 1000000] y by simp_all
  have x: "x = y * 10 powi (e - 5)" by (simp add: y_def mult.assoc power_int_add [symmetric])
  have "\<bar>of_int (rne y) - y\<bar> * 10 powi (e - 5) \<le> 1 / 2 * 10 powi (e - 5)"
    by (intro mult_right_mono rne_error) simp
  moreover have "\<bar>of_int (rne y) * 10 powi (e - 5) - x\<bar> = \<bar>of_int (rne y) - y\<bar> * 10 powi (e - 5)"
    by (subst x) (simp add: left_diff_distrib [symmetric] abs_mult)
  ultimately have err: "\<bar>of_int (rne y) * 10 powi (e - 5) - x\<bar> \<le> 10 powi (e - 5) / 2" by simp
  have v: "general_value (six_digits x) = of_int (rne y) * 10 powi (e - 5)"
  proof (cases "rne y = 1000000")
    case True
    then have "six_digits x = (100000, e + 1)" by (simp add: six_digits_def Let_def e_def y_def)
    moreover have "(10 :: real) powi (e + 1 - 5) = 10 * 10 powi (e - 5)"
      using power_int_add [of "10 :: real" 1 "e - 5"] by (simp add: algebra_simps)
    ultimately show ?thesis using True by (simp add: general_value_def)
  next
    case False
    then have "nat (rne y) \<noteq> 1000000" using m by simp
    then show ?thesis using m by (simp add: general_value_def six_digits_def Let_def e_def y_def)
  qed
  show "\<bar>general_value (six_digits x) - x\<bar> \<le> 10 powi (ilog10 x - 5) / 2" using err by (simp add: v e_def)
  show "100000 \<le> fst (six_digits x) \<and> fst (six_digits x) < 1000000"
    using m by (auto simp: six_digits_def Let_def e_def [symmetric] y_def [symmetric])
qed

section \<open>Characters\<close>

definition number_char :: "char \<Rightarrow> bool" where
  "number_char c \<longleftrightarrow> is_digit c \<or> c \<in> {CHR ''-'', CHR ''+'', CHR ''.'', CHR ''e''}"

lemma number_char_facts [simp]:
  "number_char CHR ''0''" "number_char CHR ''-''" "number_char CHR ''+''" "number_char CHR ''.''" "number_char CHR ''e''"
  by (simp_all add: number_char_def is_digit_def)

lemma number_to_dec [simp]: "list_all number_char (to_dec n)"
  using to_dec_digits by (auto simp: list_all_iff number_char_def)

lemma list_all_parts:
  "list_all P xs \<Longrightarrow> list_all P (take k xs)" "list_all P xs \<Longrightarrow> list_all P (drop k xs)"
  by (auto simp: list_all_iff dest: in_set_takeD in_set_dropD)

lemma number_strip: "list_all number_char s \<Longrightarrow> list_all number_char (strip_zeros s)"
  by (auto simp: strip_zeros_def list_all_iff dest: set_dropWhileD)

lemma number_fraction:
  "list_all number_char w \<Longrightarrow> list_all number_char f \<Longrightarrow> list_all number_char (with_fraction w f)"
  by (simp add: with_fraction_def Let_def number_strip)

lemma number_exponent [simp]: "list_all number_char (show_exponent e)"
  by (simp add: show_exponent_def Let_def)

lemma number_general: "list_all number_char (show_general x)"
  by (simp add: show_general_def split_beta Let_def number_fraction list_all_parts
      list_all_length [of _ "replicate _ _"])

lemma number_char_not [simp]: "\<not> number_char CHR '',''" "\<not> number_char CHR 0x22" "\<not> number_char CHR 0x0A"
  by (simp_all add: number_char_def is_digit_def)

end
