(* ===== verification/Spectre.thy ===== *)
theory Spectre
  imports Statistics Timing Stream_Format
begin

text \<open>
  Model of \<open>src/spectre_v1.cpp\<close>.  The static arrays, the sink \<open>temp\<close> and the machine are the
  state; the model is architectural, so a mispredicted access of \<open>victim_function\<close> has no effect
  of its own and can only show in the ticks that \<open>rdtscp\<close> returns, which are a parameter.  The
  progress line of each byte is part of what a string read returns.  \<open>None\<close> stands for the overflow
  of \<open>tries * 3\<close>.
\<close>

section \<open>State\<close>

datatype location = Bound | Data nat | Probe nat

record spectre_state =
  array1 :: "u8 list"
  array2 :: "nat \<Rightarrow> u8"
  temp :: u8
  cpu :: "location machine"

definition kArchitecturalArraySize :: nat where "kArchitecturalArraySize = 16"
definition kArrayStorage :: nat where "kArrayStorage = 160"
definition kProbeStride :: nat where "kProbeStride = 4096"
definition kProbeValues :: nat where "kProbeValues = 256"
definition kCalibrationSamples :: nat where "kCalibrationSamples = 1000"
definition kTrainingIterations :: nat where "kTrainingIterations = 30"
definition kTrainingEvery :: nat where "kTrainingEvery = 6"

definition kSecret :: string where
  "kSecret = ''The Magic Words are Squeamish Ossifrage.''"

definition initial_state :: "location machine \<Rightarrow> spectre_state" where
  "initial_state m = \<lparr>array1 = replicate kArrayStorage 0, array2 = (\<lambda>_. 0), temp = 0, cpu = m\<rparr>"

definition on_cpu :: "(location machine \<Rightarrow> location machine) \<Rightarrow> spectre_state \<Rightarrow> spectre_state" where
  "on_cpu f s = s\<lparr>cpu := f (cpu s)\<rparr>"

text \<open>\<open>temp ^= array2[i]\<close>.\<close>

definition touch :: "nat \<Rightarrow> spectre_state \<Rightarrow> spectre_state" where
  "touch i s = on_cpu (emit [Load (Probe i)]) (s\<lparr>temp := temp s XOR array2 s i\<rparr>)"

text \<open>Two counter reads around one such access; the result is the tick difference.\<close>

definition timed_touch :: "hardware \<Rightarrow> nat \<Rightarrow> spectre_state \<Rightarrow> u64 \<times> spectre_state" where
  "timed_touch hw i s =
     (let ((t0, _), m1) = read_tsc_start hw (cpu s);
          s2 = touch i (s\<lparr>cpu := m1\<rparr>);
          ((t1, _), m3) = read_tsc_end hw (cpu s2)
      in (t1 - t0, s2\<lparr>cpu := m3\<rparr>))"

section \<open>Threshold\<close>

text \<open>\<open>static_cast<std::uint64_t>\<close> of a non-negative double below \<open>2 ^ 64\<close>.\<close>

definition u64_of_double :: "double \<Rightarrow> u64" where
  "u64_of_double x = word_of_int \<lfloor>x\<rfloor>"

fun calibration_samples ::
  "hardware \<Rightarrow> nat \<Rightarrow> u64 list \<Rightarrow> u64 list \<Rightarrow> spectre_state \<Rightarrow> u64 list \<times> u64 list \<times> spectre_state" where
  "calibration_samples hw 0 hits misses s = (hits, misses, s)"
| "calibration_samples hw (Suc i) hits misses s =
     (let s1 = touch 0 s;
          (hit, s2) = timed_touch hw 0 s1;
          s3 = on_cpu (\<lambda>m. clflush_fence (clflush (Probe 0) m)) s2;
          (miss, s4) = timed_touch hw 0 s3
      in calibration_samples hw i (hits @ [hit]) (misses @ [miss]) s4)"

definition threshold_of :: "u64 list \<Rightarrow> u64 list \<Rightarrow> u64" where
  "threshold_of hits misses =
     (let hit_p99 = u64_of_double (s_p99 (summarize_u64 hits));
          miss_median = u64_of_double (s_median (summarize_u64 misses))
      in if hit_p99 + 10 < miss_median then (hit_p99 + miss_median) div 2 else hit_p99 + 20)"

definition calibrate_threshold :: "hardware \<Rightarrow> spectre_state \<Rightarrow> u64 \<times> spectre_state" where
  "calibrate_threshold hw s =
     (let (hits, misses, s') = calibration_samples hw kCalibrationSamples [] [] s
      in (threshold_of hits misses, s'))"

section \<open>Victim and training\<close>

definition victim_function :: "nat \<Rightarrow> spectre_state \<Rightarrow> spectre_state" where
  "victim_function x s =
     (let s1 = on_cpu (emit [Load Bound]) s in
      if x < kArchitecturalArraySize then
        let value = unat (array1 s1 ! x) in
        on_cpu (emit [Load (Data x), Load (Probe (value * kProbeStride))])
          (s1\<lparr>temp := temp s1 AND array2 s1 (value * kProbeStride)\<rparr>)
      else s1)"

definition train_step :: "nat \<Rightarrow> nat \<Rightarrow> spectre_state \<Rightarrow> nat \<Rightarrow> spectre_state" where
  "train_step malicious_x training_x s j =
     (let s1 = on_cpu (\<lambda>m. clflush_fence (clflush Bound m)) s;
          attack_slot = (j mod kTrainingEvery = kTrainingEvery - 1)
      in victim_function (if attack_slot then malicious_x else training_x) s1)"

definition train_and_attack :: "nat \<Rightarrow> nat \<Rightarrow> spectre_state \<Rightarrow> spectre_state" where
  "train_and_attack malicious_x attempt s =
     foldl (train_step malicious_x (attempt mod kArchitecturalArraySize)) s [0..<kTrainingIterations]"

section \<open>Reload and scoring\<close>

definition mixed_index :: "nat \<Rightarrow> nat" where
  "mixed_index i = (i * 167 + 13) AND 255"

definition reload_step ::
  "hardware \<Rightarrow> u64 \<Rightarrow> int list \<times> spectre_state \<Rightarrow> nat \<Rightarrow> int list \<times> spectre_state" where
  "reload_step hw threshold cs i =
     (let (scores, s) = cs;
          mixed = mixed_index i;
          (ticks, s') = timed_touch hw (mixed * kProbeStride) s
      in (if ticks \<le> threshold then scores[mixed := scores ! mixed + 1] else scores, s'))"

definition score_reload ::
  "hardware \<Rightarrow> u64 \<Rightarrow> int list \<times> spectre_state \<Rightarrow> int list \<times> spectre_state" where
  "score_reload hw threshold cs = foldl (reload_step hw threshold) cs [0..<kProbeValues]"

record spectre_result =
  guessed_value :: u8
  score :: int
  second_score :: int
  threshold_cycles :: u64
  confidence :: double
  attempts :: int
  success :: bool

definition empty_result :: spectre_result where
  "empty_result = \<lparr>guessed_value = 0, score = 0, second_score = 0, threshold_cycles = 0,
     confidence = 0, attempts = 0, success = False\<rparr>"

definition best_step :: "int list \<Rightarrow> nat \<times> nat \<Rightarrow> nat \<Rightarrow> nat \<times> nat" where
  "best_step scores bs i =
     (let (best, second) = bs in
      if scores ! best < scores ! i then (i, best)
      else if i \<noteq> best \<and> scores ! second < scores ! i then (best, i)
      else (best, second))"

definition analyze_scores :: "int list \<Rightarrow> u64 \<Rightarrow> int \<Rightarrow> spectre_result" where
  "analyze_scores scores threshold tries =
     (let (best, second) = foldl (best_step scores) (0, 0) [1..<kProbeValues];
          best_score = scores ! best;
          second_sc = scores ! second;
          gap = best_score - second_sc
      in \<lparr>guessed_value = of_nat best, score = best_score, second_score = second_sc,
          threshold_cycles = threshold,
          confidence = (if 0 < tries then max 0 (dbl (of_int gap / of_int tries)) else 0),
          attempts = tries,
          success = (2 * second_sc + 5 \<le> best_score \<and> max 5 (tries div 40) \<le> best_score)\<rparr>)"

section \<open>Reading bytes\<close>

definition attempt_step ::
  "hardware \<Rightarrow> nat \<Rightarrow> u64 \<Rightarrow> int list \<times> spectre_state \<Rightarrow> nat \<Rightarrow> int list \<times> spectre_state" where
  "attempt_step hw malicious_x threshold cs attempt =
     (let (scores, s) = cs;
          s1 = foldl (\<lambda>s i. on_cpu (clflush (Probe (i * kProbeStride))) s) s [0..<kProbeValues];
          s2 = on_cpu clflush_fence s1;
          s3 = train_and_attack malicious_x attempt s2
      in score_reload hw threshold (scores, s3))"

definition read_byte_with_threshold ::
  "hardware \<Rightarrow> nat \<Rightarrow> int \<Rightarrow> u64 \<Rightarrow> spectre_state \<Rightarrow> spectre_result \<times> spectre_state" where
  "read_byte_with_threshold hw malicious_x tries threshold s =
     (let (scores, s') = foldl (attempt_step hw malicious_x threshold)
            (replicate kProbeValues 0, s) [0..<nat tries]
      in (analyze_scores scores threshold tries, s'))"

text \<open>The verdict of a read computes \<open>2 * second_score + 5\<close> in \<open>int\<close>; \<open>None\<close> below is its overflow, or that
  of \<open>tries * 3\<close>.\<close>

definition verdict_defined :: "spectre_result \<Rightarrow> bool" where
  "verdict_defined r \<longleftrightarrow> in_i32 (2 * second_score r) \<and> in_i32 (2 * second_score r + 5)"

definition retry_if_uncertain ::
  "hardware \<Rightarrow> nat \<Rightarrow> int \<Rightarrow> u64 \<Rightarrow> spectre_state \<Rightarrow> (spectre_result \<times> spectre_state) option" where
  "retry_if_uncertain hw malicious_x tries threshold s =
     (let (first, s1) = read_byte_with_threshold hw malicious_x tries threshold s in
      if \<not> verdict_defined first then None
      else if success first then Some (first, s1)
      else case i32 (tries * 3) of
        None \<Rightarrow> None
      | Some t \<Rightarrow>
          (let (second, s2) = read_byte_with_threshold hw malicious_x (min t 5000) threshold s1
           in if \<not> verdict_defined second then None
              else Some (if score first < score second then second else first, s2)))"

text \<open>The line of \<open>print_progress\<close>; \<open>std::hex\<close> prints the value of the byte.\<close>

definition progress_line :: "nat \<Rightarrow> spectre_result \<Rightarrow> string" where
  "progress_line i v =
     ''byte['' @ to_dec i @ ''] = 0x'' @ show_hex (unat (guessed_value v)) @ '' score='' @ to_string (score v)
     @ '' second='' @ to_string (second_score v) @ '' confidence='' @ show_general (confidence v)
     @ (if success v then '' OK'' else '' uncertain'') @ [CHR 0x0A]"

text \<open>The text read so far and the lines printed so far.\<close>

fun read_loop ::
  "hardware \<Rightarrow> bool \<Rightarrow> nat \<Rightarrow> int \<Rightarrow> u64 \<Rightarrow> nat \<Rightarrow> nat \<Rightarrow> string \<times> string \<Rightarrow> spectre_state
     \<Rightarrow> ((string \<times> string) \<times> spectre_state) option" where
  "read_loop hw print offset tries threshold i 0 acc s = Some (acc, s)"
| "read_loop hw print offset tries threshold i (Suc n) acc s =
     (case retry_if_uncertain hw (offset + i) tries threshold s of
        None \<Rightarrow> None
      | Some (v, s') \<Rightarrow> read_loop hw print offset tries threshold (Suc i) n
          (fst acc @ [if success v then char_of (unat (guessed_value v)) else CHR ''?''],
           if print then snd acc @ progress_line i v else snd acc) s')"

definition read_string_impl ::
  "hardware \<Rightarrow> nat \<Rightarrow> nat \<Rightarrow> int \<Rightarrow> bool \<Rightarrow> spectre_state \<Rightarrow> ((string \<times> string) \<times> spectre_state) option" where
  "read_string_impl hw start_offset len tries print s =
     (if tries \<le> 0 \<or> start_offset < kArchitecturalArraySize \<or> kArrayStorage < start_offset
        \<or> kArrayStorage - start_offset < len
      then Some (([], []), s)
      else let (threshold, s1) = calibrate_threshold hw s
           in read_loop hw print start_offset tries threshold 0 len ([], []) s1)"

text \<open>\<open>SpectreV1::read_string\<close> prints its progress.\<close>

definition read_string ::
  "hardware \<Rightarrow> nat \<Rightarrow> nat \<Rightarrow> int \<Rightarrow> spectre_state \<Rightarrow> ((string \<times> string) \<times> spectre_state) option" where
  "read_string hw start_offset len tries s = read_string_impl hw start_offset len tries True s"

definition read_byte ::
  "hardware \<Rightarrow> nat \<Rightarrow> int \<Rightarrow> spectre_state \<Rightarrow> (spectre_result \<times> spectre_state) option" where
  "read_byte hw malicious_x tries s =
     (if tries \<le> 0 \<or> malicious_x < kArchitecturalArraySize \<or> kArrayStorage \<le> malicious_x
      then Some (empty_result, s)
      else let (threshold, s1) = calibrate_threshold hw s
           in retry_if_uncertain hw malicious_x tries threshold s1)"

section \<open>Demo and reliability lab\<close>

text \<open>\<open>array1[i] = i + 1\<close> below the bound, then the secret with its terminating zero.\<close>

definition plant_secret :: "u8 list \<Rightarrow> u8 list" where
  "plant_secret xs =
     map (\<lambda>i. of_nat (i + 1) AND 255) [0..<kArchitecturalArraySize]
     @ map (\<lambda>c. of_nat (of_char c)) (kSecret @ [CHR 0x00])
     @ drop (kArchitecturalArraySize + length kSecret + 1) xs"

record demo_output =
  progress :: string
  leaked :: string
  matches :: bool

definition run_demo ::
  "hardware \<Rightarrow> int \<Rightarrow> spectre_state \<Rightarrow> (demo_output option \<times> spectre_state) option" where
  "run_demo hw tries s =
     (if tries \<le> 0 then Some (None, s)
      else
        let s1 = s\<lparr>array1 := plant_secret (array1 s)\<rparr>;
            s2 = foldl (\<lambda>s i. touch (i * kProbeStride) s) s1 [0..<kProbeValues];
            s3 = foldl (\<lambda>s i. on_cpu (clflush (Probe (i * kProbeStride))) s) s2 [0..<kProbeValues];
            s4 = on_cpu clflush_fence s3
        in map_option (\<lambda>((str, out), s'). (Some \<lparr>progress = out, leaked = str, matches = (str = kSecret)\<rparr>, s'))
             (read_string hw kArchitecturalArraySize (length kSecret) tries s4))"

record lab_result =
  lab_runs :: int
  tries_per_byte :: int
  secret_length :: nat
  exact_matches :: int
  correct_bytes :: nat
  total_bytes :: nat
  per_byte_correct_runs :: "int list"

definition byte_ok :: "string \<Rightarrow> nat \<Rightarrow> bool" where
  "byte_ok recovered i \<longleftrightarrow> i < length recovered \<and> recovered ! i = kSecret ! i"

definition lab_record :: "string \<Rightarrow> lab_result \<Rightarrow> lab_result" where
  "lab_record recovered r =
     (let n = secret_length r;
          exact = (length recovered = n \<and> take n recovered = take n kSecret);
          per = (if length (per_byte_correct_runs r) \<noteq> n then replicate n 0 else per_byte_correct_runs r)
      in r\<lparr>exact_matches := (if exact then exact_matches r + 1 else exact_matches r),
           correct_bytes := foldl (\<lambda>c i. if byte_ok recovered i then c + 1 else c) (correct_bytes r) [0..<n],
           per_byte_correct_runs :=
             foldl (\<lambda>per i. if byte_ok recovered i then per[i := per ! i + 1] else per) per [0..<n]\<rparr>)"

fun lab_loop :: "hardware \<Rightarrow> nat \<Rightarrow> lab_result \<Rightarrow> spectre_state \<Rightarrow> (lab_result \<times> spectre_state) option" where
  "lab_loop hw 0 r s = Some (r, s)"
| "lab_loop hw (Suc run) r s =
     (case read_string_impl hw kArchitecturalArraySize (secret_length r) (tries_per_byte r) False s of
        None \<Rightarrow> None
      | Some ((recovered, _), s') \<Rightarrow> lab_loop hw run (lab_record recovered r) s')"

definition run_reliability_lab ::
  "hardware \<Rightarrow> int \<Rightarrow> int \<Rightarrow> spectre_state \<Rightarrow> (lab_result \<times> spectre_state) option" where
  "run_reliability_lab hw runs tries s =
     (let r = \<lparr>lab_runs = runs, tries_per_byte = tries, secret_length = length kSecret,
               exact_matches = 0, correct_bytes = 0,
               total_bytes = length kSecret * nat (max 0 runs), per_byte_correct_runs = []\<rparr>
      in if runs \<le> 0 \<or> tries \<le> 0 then Some (r, s)
         else lab_loop hw (nat runs) r s)"

section \<open>Lemmas\<close>

subsection \<open>The two best candidates\<close>

definition ranked :: "int list \<Rightarrow> nat \<Rightarrow> nat \<times> nat \<Rightarrow> bool" where
  "ranked sc k bs \<longleftrightarrow> (let (best, second) = bs in
     best < k \<and> second < k \<and> (\<forall>i<k. sc ! i \<le> sc ! best) \<and> (\<forall>i<best. sc ! i < sc ! best)
     \<and> (if best = 0 then second = 0 else second \<noteq> best \<and> (\<forall>i<k. i \<noteq> best \<longrightarrow> sc ! i \<le> sc ! second)))"

lemma ranked_step:
  assumes "ranked sc k bs"
  shows "ranked sc (Suc k) (best_step sc bs k)"
proof -
  obtain b c where bs: "bs = (b, c)" by fastforce
  have r: "b < k" "c < k" "\<And>i. i < k \<Longrightarrow> sc ! i \<le> sc ! b" "\<And>i. i < b \<Longrightarrow> sc ! i < sc ! b"
    "b = 0 \<Longrightarrow> c = 0" "b \<noteq> 0 \<Longrightarrow> c \<noteq> b" "\<And>i. b \<noteq> 0 \<Longrightarrow> i < k \<Longrightarrow> i \<noteq> b \<Longrightarrow> sc ! i \<le> sc ! c"
    using assms by (auto simp: ranked_def bs split: if_splits)
  show ?thesis
  proof (cases "sc ! b < sc ! k")
    case True
    then have "\<forall>i<k. sc ! i < sc ! k" using r(3) by (meson le_less_trans)
    then show ?thesis using True r(1-3) by (auto simp: ranked_def bs best_step_def less_Suc_eq)
  next
    case False
    then show ?thesis
      using r by (auto simp: ranked_def bs best_step_def less_Suc_eq not_less) (meson less_imp_le order_trans)+
  qed
qed

lemma ranked_fold: "1 \<le> k \<Longrightarrow> ranked sc k (foldl (best_step sc) (0, 0) [1..<k])"
proof (induction k rule: nat_induct_at_least)
  case base
  show ?case by (simp add: ranked_def)
next
  case (Suc k)
  then show ?case using ranked_step by simp
qed

lemma analyze_ranked:
  obtains b c where "ranked sc kProbeValues (b, c)" "b < 256" "unat (guessed_value (analyze_scores sc thr n)) = b"
    "score (analyze_scores sc thr n) = sc ! b" "second_score (analyze_scores sc thr n) = sc ! c"
    "success (analyze_scores sc thr n) \<longleftrightarrow> 2 * sc ! c + 5 \<le> sc ! b \<and> max 5 (n div 40) \<le> sc ! b"
    "confidence (analyze_scores sc thr n) = (if 0 < n then max 0 (dbl (of_int (sc ! b - sc ! c) / of_int n)) else 0)"
proof -
  obtain b c where f: "foldl (best_step sc) (0, 0) [1..<kProbeValues] = (b, c)" by fastforce
  have r: "ranked sc kProbeValues (b, c)"
    using ranked_fold [of kProbeValues sc] f by (simp add: kProbeValues_def)
  then have "b < 256" by (simp add: ranked_def kProbeValues_def)
  then have "unat (of_nat b :: u8) = b" by (simp add: unsigned_of_nat take_bit_eq_mod)
  with that [OF r] \<open>b < 256\<close> show thesis by (simp add: analyze_scores_def f [simplified] Let_def)
qed

subsection \<open>The probe order\<close>

lemma mixed_index_eq: "mixed_index i = (i * 167 + 13) mod 256"
  using take_bit_eq_mask [of 8 "i * 167 + 13"] by (simp add: mixed_index_def take_bit_eq_mod mask_eq_exp_minus_1)

lemma mixed_index_less: "mixed_index i < 256"
  by (simp add: mixed_index_eq)

lemma mixed_index_inverse: "i < 256 \<Longrightarrow> (mixed_index i * 23 + 213) mod 256 = i"
proof -
  assume "i < 256"
  have "(mixed_index i * 23 + 213) mod 256 = ((i * 167 + 13) * 23 + 213) mod 256"
    unfolding mixed_index_eq by (metis mod_add_left_eq mod_mult_left_eq)
  also have "(i * 167 + 13) * 23 + 213 = i + 256 * (15 * i + 2)" by (simp add: algebra_simps)
  also have "(i + 256 * (15 * i + 2)) mod 256 = i" using \<open>i < 256\<close> mod_mult_self2 [of i 256 "15 * i + 2"]
    by simp
  finally show ?thesis .
qed

lemma mixed_index_inj: "i < 256 \<Longrightarrow> j < 256 \<Longrightarrow> mixed_index i = mixed_index j \<longleftrightarrow> i = j"
  by (metis mixed_index_inverse)

lemma mixed_index_surj: "v < 256 \<Longrightarrow> \<exists>i<256. mixed_index i = v"
proof -
  assume v: "v < 256"
  have "inj_on mixed_index {..<256}" using mixed_index_inj by (auto intro: inj_onI)
  then have "card (mixed_index ` {..<256}) = 256" by (simp add: card_image)
  then have "mixed_index ` {..<256} = {..<256}"
    using mixed_index_less by (intro card_subset_eq) auto
  with v show ?thesis by (metis imageE lessThan_iff)
qed

subsection \<open>Counter reads and scores\<close>

lemma timed_touch_eq:
  "timed_touch hw i s = (tick_delta hw (tsc_reads (cpu s)) 0,
     s\<lparr>temp := temp s XOR array2 s i,
       cpu := emit [Lfence, Rdtscp, Lfence, Load (Probe i), Lfence, Rdtscp, Lfence]
         (cpu s\<lparr>tsc_reads := tsc_reads (cpu s) + 2\<rparr>)\<rparr>)"
  by (simp add: timed_touch_def touch_def on_cpu_def Let_def read_tsc_start_def read_tsc_end_def
      tick_delta_def emit_def split_beta)

lemma reads_victim [simp]: "tsc_reads (cpu (victim_function x s)) = tsc_reads (cpu s)"
  by (simp add: victim_function_def on_cpu_def Let_def)

lemma reads_train_step [simp]: "tsc_reads (cpu (train_step x y s j)) = tsc_reads (cpu s)"
  by (simp add: train_step_def on_cpu_def Let_def clflush_def clflush_fence_def)

lemma foldl_preserves: "(\<And>s x. g (f s x) = g s) \<Longrightarrow> g (foldl f s xs) = g s"
  by (induction xs arbitrary: s) simp_all

lemma reads_train [simp]: "tsc_reads (cpu (train_and_attack x a s)) = tsc_reads (cpu s)"
  unfolding train_and_attack_def by (rule foldl_preserves) simp

lemma reads_flush [simp]:
  "tsc_reads (cpu (foldl (\<lambda>s i. on_cpu (clflush (Probe (f i))) s) s is)) = tsc_reads (cpu s)"
  by (rule foldl_preserves) (simp add: on_cpu_def clflush_def)

lemma reads_fence [simp]: "tsc_reads (cpu (on_cpu clflush_fence s)) = tsc_reads (cpu s)"
  by (simp add: on_cpu_def clflush_fence_def)

lemma reload_loop:
  fixes hw :: hardware and thr :: u64 and s :: spectre_state
  assumes "length sc = 256" "i < 256" "n \<le> 256"
  defines "r \<equiv> \<lambda>n. foldl (reload_step hw thr) (sc, s) [0..<n]"
  shows "length (fst (r n)) = 256 \<and> tsc_reads (cpu (snd (r n))) = tsc_reads (cpu s) + 2 * n
     \<and> fst (r n) ! mixed_index i
       = sc ! mixed_index i + of_bool (i < n \<and> tick_delta hw (tsc_reads (cpu s)) i \<le> thr)"
  using assms(3)
proof (induction n)
  case 0
  then show ?case using assms(1) by (simp add: r_def)
next
  case (Suc n)
  obtain sc' s' where f: "r n = (sc', s')" by fastforce
  have step: "r (Suc n) = reload_step hw thr (sc', s') n" using f by (simp add: r_def)
  have IH: "length sc' = 256" "tsc_reads (cpu s') = tsc_reads (cpu s) + 2 * n"
    "sc' ! mixed_index i = sc ! mixed_index i + of_bool (i < n \<and> tick_delta hw (tsc_reads (cpu s)) i \<le> thr)"
    using Suc by (simp_all add: f)
  have td: "tick_delta hw (tsc_reads (cpu s) + 2 * n) 0 = tick_delta hw (tsc_reads (cpu s)) n"
    by (simp add: tick_delta_def)
  show ?case
    using IH mixed_index_inj [of i n] mixed_index_less [of n] Suc.prems assms(2)
    by (auto simp: step reload_step_def timed_touch_eq Let_def td nth_list_update less_Suc_eq)
qed

text \<open>The attempts whose reload of the \<open>i\<close>-th probed line was fast.\<close>

definition fast_reloads :: "hardware \<Rightarrow> u64 \<Rightarrow> nat \<Rightarrow> nat \<Rightarrow> nat \<Rightarrow> nat" where
  "fast_reloads hw thr r i n = card {a. a < n \<and> tick_delta hw (r + 512 * a) i \<le> thr}"

lemma fast_reloads_Suc:
  "fast_reloads hw thr r i (Suc n)
     = fast_reloads hw thr r i n + of_bool (tick_delta hw (r + 512 * n) i \<le> thr)"
proof -
  have "{a. a < Suc n \<and> tick_delta hw (r + 512 * a) i \<le> thr}
      = (if tick_delta hw (r + 512 * n) i \<le> thr
         then insert n {a. a < n \<and> tick_delta hw (r + 512 * a) i \<le> thr}
         else {a. a < n \<and> tick_delta hw (r + 512 * a) i \<le> thr})"
    by (auto simp: less_Suc_eq)
  then show ?thesis by (simp add: fast_reloads_def)
qed

lemma fast_reloads_le: "fast_reloads hw thr r i n \<le> n"
  using card_mono [of "{..<n}" "{a. a < n \<and> tick_delta hw (r + 512 * a) i \<le> thr}"]
  by (auto simp: fast_reloads_def)

lemma attempts_loop:
  fixes hw :: hardware and thr :: u64 and s :: spectre_state and x :: nat
  assumes "i < 256"
  defines "r \<equiv> \<lambda>n. foldl (attempt_step hw x thr) (replicate kProbeValues 0, s) [0..<n]"
  shows "length (fst (r n)) = 256 \<and> tsc_reads (cpu (snd (r n))) = tsc_reads (cpu s) + 512 * n
     \<and> fst (r n) ! mixed_index i = int (fast_reloads hw thr (tsc_reads (cpu s)) i n)"
proof (induction n)
  case 0
  then show ?case using mixed_index_less [of i] by (simp add: r_def kProbeValues_def fast_reloads_def)
next
  case (Suc n)
  obtain sc s' where f: "r n = (sc, s')" by fastforce
  have step: "r (Suc n) = attempt_step hw x thr (sc, s') n" using f by (simp add: r_def)
  show ?case
    using reload_loop [of sc i 256 hw thr] Suc assms(1)
    by (simp add: step f attempt_step_def score_reload_def kProbeValues_def fast_reloads_Suc Let_def)
qed

text \<open>No score exceeds the number of attempts, so up to 1073741821 attempts the verdict is defined.\<close>

lemma read_verdict_defined:
  assumes "0 \<le> n" "n \<le> 1073741821"
  shows "verdict_defined (fst (read_byte_with_threshold hw x n thr s))"
proof -
  define sc where "sc = fst (foldl (attempt_step hw x thr) (replicate kProbeValues 0, s) [0..<nat n])"
  obtain b c where c: "ranked sc kProbeValues (b, c)" "second_score (analyze_scores sc thr n) = sc ! c"
    by (rule analyze_ranked)
  then have "c < 256" by (simp add: ranked_def kProbeValues_def)
  then obtain i where i: "i < 256" "mixed_index i = c" using mixed_index_surj by blast
  have "sc ! c = int (fast_reloads hw thr (tsc_reads (cpu s)) i (nat n))"
    using attempts_loop [OF i(1), of hw x thr s "nat n"] i(2) by (simp add: sc_def)
  then have "0 \<le> sc ! c" "sc ! c \<le> n"
    using fast_reloads_le [of hw thr "tsc_reads (cpu s)" i "nat n"] assms(1) by linarith+
  moreover have "fst (read_byte_with_threshold hw x n thr s) = analyze_scores sc thr n"
    by (simp add: read_byte_with_threshold_def sc_def split_beta)
  ultimately show ?thesis
    using assms(2) c(2) by (simp add: verdict_defined_def in_i32_def i32_min_def i32_max_def)
qed

subsection \<open>Replacing the secret bytes\<close>

text \<open>The same state with other bytes behind the bound of \<open>array1\<close>.\<close>

definition hide :: "(nat \<Rightarrow> u8) \<Rightarrow> spectre_state \<Rightarrow> spectre_state" where
  "hide z s = s\<lparr>array1 := map (\<lambda>i. if i < kArchitecturalArraySize then array1 s ! i else z i) [0..<kArrayStorage]\<rparr>"

lemma hide_fields [simp]: "array2 (hide z s) = array2 s" "temp (hide z s) = temp s" "cpu (hide z s) = cpu s"
  by (simp_all add: hide_def)

lemma hide_array1 [simp]: "x < kArchitecturalArraySize \<Longrightarrow> array1 (hide z s) ! x = array1 s ! x"
  by (simp add: hide_def kArchitecturalArraySize_def kArrayStorage_def del: upt_Suc)

lemma hide_cpu_update [simp]: "(hide z s)\<lparr>cpu := m\<rparr> = hide z (s\<lparr>cpu := m\<rparr>)"
  by (simp add: hide_def)

lemma hide_temp_update [simp]: "(hide z s)\<lparr>temp := m\<rparr> = hide z (s\<lparr>temp := m\<rparr>)"
  by (simp add: hide_def)

lemma on_cpu_hide [simp]: "on_cpu f (hide z s) = hide z (on_cpu f s)"
  by (simp add: on_cpu_def)

lemma touch_hide [simp]: "touch i (hide z s) = hide z (touch i s)"
  by (simp add: touch_def)

lemma timed_touch_hide [simp]: "timed_touch hw i (hide z s) = map_prod id (hide z) (timed_touch hw i s)"
  by (simp add: timed_touch_def Let_def split_beta)

lemma victim_hide [simp]: "victim_function x (hide z s) = hide z (victim_function x s)"
  by (simp add: victim_function_def Let_def on_cpu_def)

lemma train_step_hide: "train_step x y (hide z s) j = hide z (train_step x y s j)"
  by (simp add: train_step_def Let_def)

lemma foldl_hide: "(\<And>s i. f (h s) i = h (f s i)) \<Longrightarrow> foldl f (h s) is = h (foldl f s is)"
  by (induction "is" arbitrary: s) simp_all

lemma train_hide [simp]: "train_and_attack x a (hide z s) = hide z (train_and_attack x a s)"
  unfolding train_and_attack_def by (rule foldl_hide) (rule train_step_hide)

lemma reload_step_hide:
  "reload_step hw thr (map_prod id (hide z) cs) i = map_prod id (hide z) (reload_step hw thr cs i)"
  by (simp add: reload_step_def Let_def split_beta)

lemma score_reload_hide [simp]:
  "score_reload hw thr (map_prod id (hide z) cs) = map_prod id (hide z) (score_reload hw thr cs)"
  unfolding score_reload_def by (rule foldl_hide) (rule reload_step_hide)

lemma attempt_step_hide:
  "attempt_step hw x thr (map_prod id (hide z) cs) a = map_prod id (hide z) (attempt_step hw x thr cs a)"
proof -
  obtain sc s where cs: "cs = (sc, s)" by fastforce
  have f: "foldl (\<lambda>s i. on_cpu (clflush (Probe (i * kProbeStride))) s) (hide z s) [0..<kProbeValues]
      = hide z (foldl (\<lambda>s i. on_cpu (clflush (Probe (i * kProbeStride))) s) s [0..<kProbeValues])"
    by (rule foldl_hide) simp
  have r: "score_reload hw thr (sc', hide z s') = map_prod id (hide z) (score_reload hw thr (sc', s'))" for sc' s'
    using score_reload_hide [of hw thr z "(sc', s')"] by simp
  show ?thesis by (simp add: attempt_step_def cs f r Let_def)
qed

lemma read_threshold_hide [simp]:
  "read_byte_with_threshold hw x n thr (hide z s) = map_prod id (hide z) (read_byte_with_threshold hw x n thr s)"
proof -
  have "foldl (attempt_step hw x thr) (map_prod id (hide z) (replicate kProbeValues 0, s)) [0..<nat n]
      = map_prod id (hide z) (foldl (attempt_step hw x thr) (replicate kProbeValues 0, s) [0..<nat n])"
    by (rule foldl_hide) (rule attempt_step_hide)
  then show ?thesis by (simp add: read_byte_with_threshold_def Let_def split_beta)
qed

lemma retry_hide [simp]:
  "retry_if_uncertain hw x n thr (hide z s) = map_option (map_prod id (hide z)) (retry_if_uncertain hw x n thr s)"
  by (simp add: retry_if_uncertain_def Let_def split_beta map_prod_def split: option.splits)

lemma calibration_hide:
  "calibration_samples hw n hs ms (hide z s)
     = map_prod id (map_prod id (hide z)) (calibration_samples hw n hs ms s)"
  by (induction n arbitrary: hs ms s) (simp_all add: Let_def split_beta)

lemma calibrate_hide [simp]: "calibrate_threshold hw (hide z s) = map_prod id (hide z) (calibrate_threshold hw s)"
  by (simp add: calibrate_threshold_def calibration_hide split_beta)

lemma read_loop_hide [simp]:
  "read_loop hw p x n thr i k acc (hide z s) = map_option (map_prod id (hide z)) (read_loop hw p x n thr i k acc s)"
  by (induction k arbitrary: i acc s) (simp_all split: option.splits)

lemma read_string_hide:
  "read_string_impl hw x k n p (hide z s) = map_option (map_prod id (hide z)) (read_string_impl hw x k n p s)"
  by (simp add: read_string_impl_def Let_def split_beta)

lemma read_byte_hide:
  "read_byte hw x n (hide z s) = map_option (map_prod id (hide z)) (read_byte hw x n s)"
  by (simp add: read_byte_def Let_def split_beta)

text \<open>What remains visible of a run when the arrays and the sink are ignored.\<close>

definition observe :: "('a \<times> spectre_state) option \<Rightarrow> ('a \<times> location machine) option" where
  "observe = map_option (\<lambda>p. (fst p, cpu (snd p)))"

lemma observe_hide: "observe (map_option (map_prod id (hide z)) x) = observe x"
  by (simp add: observe_def option.map_comp comp_def)

text \<open>States that agree on everything but the bytes behind the bound.\<close>

definition agree_in_bounds :: "spectre_state \<Rightarrow> spectre_state \<Rightarrow> bool" where
  "agree_in_bounds s t \<longleftrightarrow> length (array1 s) = kArrayStorage \<and> length (array1 t) = kArrayStorage
     \<and> take kArchitecturalArraySize (array1 s) = take kArchitecturalArraySize (array1 t)
     \<and> array2 s = array2 t \<and> temp s = temp t \<and> cpu s = cpu t"

lemma agree_hide:
  assumes "agree_in_bounds s t"
  shows "t = hide (\<lambda>i. array1 t ! i) s"
proof -
  have "array1 s ! i = array1 t ! i" if "i < kArchitecturalArraySize" for i
    using assms that unfolding agree_in_bounds_def by (metis nth_take)
  then have "array1 t = map (\<lambda>i. if i < kArchitecturalArraySize then array1 s ! i else array1 t ! i) [0..<kArrayStorage]"
    using assms by (intro nth_equalityI) (simp_all add: agree_in_bounds_def)
  then show ?thesis using assms by (simp add: hide_def agree_in_bounds_def)
qed

subsection \<open>The arrays are never written\<close>

lemma array1_on_cpu [simp]: "array1 (on_cpu f s) = array1 s"
  by (simp add: on_cpu_def)

lemma array1_touch [simp]: "array1 (touch i s) = array1 s"
  by (simp add: touch_def)

lemma array1_timed [simp]: "array1 (snd (timed_touch hw i s)) = array1 s"
  by (simp add: timed_touch_eq)

lemma array1_victim [simp]: "array1 (victim_function x s) = array1 s"
  by (simp add: victim_function_def Let_def)

lemma array1_train [simp]: "array1 (train_and_attack x a s) = array1 s"
  unfolding train_and_attack_def by (rule foldl_preserves) (simp add: train_step_def Let_def)

lemma array1_score [simp]: "array1 (snd (score_reload hw thr cs)) = array1 (snd cs)"
  unfolding score_reload_def
  by (rule foldl_preserves) (simp add: reload_step_def Let_def split_beta)

lemma array1_flush [simp]:
  "array1 (foldl (\<lambda>s i. on_cpu (clflush (Probe (f i))) s) s is) = array1 s"
  by (rule foldl_preserves) simp

lemma array1_read_threshold [simp]:
  "array1 (snd (read_byte_with_threshold hw x n thr s)) = array1 s"
proof -
  have "array1 (snd (foldl (attempt_step hw x thr) cs is)) = array1 (snd cs)" for cs "is"
    by (rule foldl_preserves) (simp add: attempt_step_def Let_def split_beta)
  then show ?thesis by (simp add: read_byte_with_threshold_def split_beta Let_def)
qed

lemma array1_read_threshold_eq:
  "read_byte_with_threshold hw x n thr s = (r, s') \<Longrightarrow> array1 s' = array1 s"
  by (metis array1_read_threshold snd_conv)

lemma array1_retry: "retry_if_uncertain hw x n thr s = Some (r, s') \<Longrightarrow> array1 s' = array1 s"
  by (auto simp: retry_if_uncertain_def dest!: array1_read_threshold_eq
      split: prod.splits if_splits option.splits)

lemma array1_calibrate [simp]: "array1 (snd (calibrate_threshold hw s)) = array1 s"
proof -
  have "array1 (snd (snd (calibration_samples hw n hs ms s))) = array1 s" for n hs ms
    by (induction n arbitrary: hs ms s) (simp_all add: Let_def split_beta)
  then show ?thesis by (simp add: calibrate_threshold_def split_beta Let_def)
qed

lemma read_loop_Some:
  "read_loop hw p x n thr i k acc s = Some (acc', s') \<Longrightarrow>
     length (fst acc') = length (fst acc) + k \<and> array1 s' = array1 s"
proof (induction k arbitrary: i acc s)
  case (Suc k)
  then show ?case using array1_retry by (fastforce split: option.splits)
qed simp

lemma read_loop_total:
  assumes "0 \<le> n" "n \<le> 715827882"
  shows "\<exists>acc' s'. read_loop hw p x n thr i k acc s = Some (acc', s')"
proof (induction k arbitrary: i acc s)
  case (Suc k)
  have "in_i32 (n * 3)" using assms by (simp add: in_i32_def i32_min_def i32_max_def)
  then have "retry_if_uncertain hw (x + i) n thr s \<noteq> None"
    using assms by (simp add: retry_if_uncertain_def i32_in Let_def split_beta read_verdict_defined)
  then show ?case using Suc by (auto split: option.splits)
qed simp

lemma read_string_in_range:
  assumes "0 < tries" "tries \<le> 715827882" "16 \<le> offset" "offset + len \<le> 160"
  shows "\<exists>w out s'. read_string_impl hw offset len tries p s = Some ((w, out), s') \<and> array1 s' = array1 s \<and> length w = len"
proof -
  obtain thr s1 where c: "calibrate_threshold hw s = (thr, s1)" by fastforce
  obtain w s' where l: "read_loop hw p offset tries thr 0 len ([], []) s1 = Some (w, s')"
    using read_loop_total [of tries] assms by fastforce
  have "array1 s1 = array1 s" using array1_calibrate [of hw s] by (simp add: c)
  then show ?thesis
    using assms read_loop_Some [OF l] l c
    by (cases w) (auto simp: read_string_impl_def kArchitecturalArraySize_def kArrayStorage_def)
qed

lemma read_string_array1:
  "read_string_impl hw x k n p s = Some (w, s') \<Longrightarrow> array1 s' = array1 s"
  using read_loop_Some array1_calibrate [of hw s]
  by (auto simp: read_string_impl_def Let_def split_beta split: if_splits)

subsection \<open>Counters of the lab\<close>

lemma count_loop: "foldl (\<lambda>c i. if P i then c + 1 else c) c is = c + length (filter P is)"
  by (induction "is" arbitrary: c) simp_all

lemma per_byte_loop:
  fixes per :: "int list"
  shows "n \<le> length per \<Longrightarrow> foldl (\<lambda>per i. if P i then per[i := per ! i + 1] else per) per [0..<n]
     = map (\<lambda>i. per ! i + of_bool (i < n \<and> P i)) [0..<length per]"
proof (induction n)
  case 0
  show ?case by (intro nth_equalityI) simp_all
next
  case (Suc n)
  then show ?case
    by (cases "P n") (auto intro!: nth_equalityI simp: nth_list_update less_Suc_eq)
qed

lemma sum_of_bool: "sum_list (map (\<lambda>i. of_bool (P i)) is) = int (length (filter P is))"
  by (induction "is") simp_all

definition lab_inv :: "nat \<Rightarrow> lab_result \<Rightarrow> bool" where
  "lab_inv k r \<longleftrightarrow> secret_length r = length kSecret
     \<and> (if per_byte_correct_runs r = [] then k = 0 \<and> correct_bytes r = 0 \<and> exact_matches r = 0
        else length (per_byte_correct_runs r) = length kSecret)
     \<and> sum_list (per_byte_correct_runs r) = int (correct_bytes r)
     \<and> (\<forall>c\<in>set (per_byte_correct_runs r). 0 \<le> c \<and> c \<le> int k)
     \<and> 0 \<le> exact_matches r \<and> exact_matches r \<le> int k
     \<and> exact_matches r * int (length kSecret) \<le> int (correct_bytes r)
     \<and> correct_bytes r \<le> length kSecret * k"

lemma filter_byte_ok_le: "length (filter (byte_ok w) [0..<n]) \<le> n"
  using length_filter_le [of "byte_ok w" "[0..<n]"] by simp

lemma exact_all_ok:
  "length w = length kSecret \<Longrightarrow> w = kSecret \<Longrightarrow> filter (byte_ok w) [0..<length kSecret] = [0..<length kSecret]"
  by (simp add: byte_ok_def filter_id_conv)

lemma lab_inv_record:
  assumes "lab_inv k r"
  shows "lab_inv (Suc k) (lab_record w r)"
proof -
  let ?n = "length kSecret"
  let ?f = "length (filter (byte_ok w) [0..<?n])"
  define per where "per = (if length (per_byte_correct_runs r) \<noteq> ?n then replicate ?n 0 else per_byte_correct_runs r)"
  have n: "0 < ?n" by (simp add: kSecret_def)
  have len: "length per = ?n" by (simp add: per_def)
  have r: "secret_length r = ?n" "sum_list per = int (correct_bytes r)"
    "\<And>c. c \<in> set per \<Longrightarrow> 0 \<le> c \<and> c \<le> int k" "0 \<le> exact_matches r" "exact_matches r \<le> int k"
    "exact_matches r * int ?n \<le> int (correct_bytes r)" "correct_bytes r \<le> ?n * k"
    using assms n by (auto simp: lab_inv_def per_def sum_list_replicate split: if_splits)
  let ?per = "map (\<lambda>i. per ! i + of_bool (i < ?n \<and> byte_ok w i)) [0..<?n]"
  have "?per = map (\<lambda>i. per ! i + of_bool (byte_ok w i)) [0..<?n]" by simp
  also have "sum_list \<dots> = sum_list (map ((!) per) [0..<?n]) + sum_list (map (\<lambda>i. of_bool (byte_ok w i)) [0..<?n])"
    by (rule sum_list_addf)
  finally have sum: "sum_list ?per = int (correct_bytes r + ?f)"
    using r(2) len map_nth [of per] by (simp add: sum_of_bool)
  have bound: "0 \<le> per ! i \<and> per ! i \<le> int k" if "i < ?n" for i using r(3) that len by simp
  have c: "lab_record w r = r\<lparr>exact_matches := (if w = kSecret then exact_matches r + 1 else exact_matches r),
      correct_bytes := correct_bytes r + ?f, per_byte_correct_runs := ?per\<rparr>"
    using per_byte_loop [of ?n per "byte_ok w"] len
    by (auto simp: lab_record_def r(1) count_loop per_def [symmetric] Let_def)
  have ex: "w = kSecret \<Longrightarrow> ?f = ?n" using exact_all_ok [of w] by simp
  have "correct_bytes r + ?f \<le> ?n * Suc k" using r(7) filter_byte_ok_le [of w ?n] by simp
  moreover have "\<forall>c\<in>set ?per. 0 \<le> c \<and> c \<le> int (Suc k)" using bound by (fastforce simp: of_bool_def)
  ultimately show ?thesis
    unfolding lab_inv_def using c sum r n ex by (auto simp: algebra_simps)
qed

lemma lab_loop_inv:
  "lab_inv k r \<Longrightarrow> lab_loop hw n r s = Some (r', s') \<Longrightarrow> lab_inv (k + n) r' \<and> array1 s' = array1 s
     \<and> total_bytes r' = total_bytes r \<and> lab_runs r' = lab_runs r"
proof (induction n arbitrary: k r s)
  case (Suc n)
  obtain w out s1 where w: "read_string_impl hw kArchitecturalArraySize (secret_length r) (tries_per_byte r) False s
      = Some ((w, out), s1)"
    and l: "lab_loop hw n (lab_record w r) s1 = Some (r', s')"
    using Suc.prems(2) by (auto split: option.splits)
  have "array1 s1 = array1 s"
    by (rule read_string_array1 [OF w])
  moreover have "total_bytes (lab_record w r) = total_bytes r" "lab_runs (lab_record w r) = lab_runs r"
    by (simp_all add: lab_record_def Let_def)
  ultimately show ?case using Suc.IH [OF lab_inv_record [OF Suc.prems(1)] l] by simp
qed simp

lemma reliability_lab_inv:
  assumes "run_reliability_lab hw runs tries s = Some (r, s')" "0 < runs" "0 < tries"
  shows "lab_inv (nat runs) r \<and> total_bytes r = 40 * nat runs \<and> lab_runs r = runs \<and> array1 s' = array1 s"
proof -
  let ?r0 = "\<lparr>lab_runs = runs, tries_per_byte = tries, secret_length = length kSecret,
     exact_matches = 0, correct_bytes = 0,
     total_bytes = length kSecret * nat (max 0 runs), per_byte_correct_runs = []\<rparr>"
  have "length kSecret = 40" by (simp add: kSecret_def)
  moreover have "lab_inv 0 ?r0" by (simp add: lab_inv_def)
  moreover have "lab_loop hw (nat runs) ?r0 s = Some (r, s')"
    using assms by (simp add: run_reliability_lab_def Let_def)
  ultimately show ?thesis using lab_loop_inv [of 0 ?r0 hw "nat runs" s r s'] assms(2) by simp
qed

text \<open>A counter that advances by one tick per read, and the machine at the start.\<close>

definition steady_counter :: hardware where
  "steady_counter = \<lparr>rdtscp = (\<lambda>k. (of_nat k, 0)), clock_raw = (\<lambda>_. None)\<rparr>"

definition boot :: "location machine" where
  "boot = \<lparr>tsc_reads = 0, clock_reads = 0, trace = []\<rparr>"

lemma lab_loop_total:
  assumes "0 < tries_per_byte r" "tries_per_byte r \<le> 715827882" "secret_length r = length kSecret"
  shows "\<exists>r' s'. lab_loop hw n r s = Some (r', s')"
  using assms
proof (induction n arbitrary: r s)
  case (Suc n)
  have n: "length kSecret = 40" by (simp add: kSecret_def)
  obtain w out s1 where "read_string_impl hw kArchitecturalArraySize (secret_length r) (tries_per_byte r) False s
      = Some ((w, out), s1)"
    using read_string_in_range [OF Suc.prems(1,2), of 16 40 hw False s] Suc.prems(3) n
    by (auto simp: kArchitecturalArraySize_def)
  moreover have "tries_per_byte (lab_record w r) = tries_per_byte r" "secret_length (lab_record w r) = secret_length r"
    by (simp_all add: lab_record_def Let_def)
  ultimately show ?case using Suc.IH [of "lab_record w r" s1] Suc.prems by simp
qed simp

lemma lab_total: "tries \<le> 715827882 \<Longrightarrow> \<exists>r s'. run_reliability_lab hw runs tries s = Some (r, s')"
  by (cases "runs \<le> 0 \<or> tries \<le> 0") (auto simp: run_reliability_lab_def Let_def intro: lab_loop_total)

section \<open>Properties\<close>

text \<open>C24: the evaluation of the scores: the guessed byte is the first value with the largest score,
  and when it is not 0 the second score is exactly the largest score of all other values.  The result is a
  success exactly if the score is at least twice the second score plus 5 (separation) and at least 5 and a
  fortieth of the attempts (evidence); the confidence is the gap of the two scores per attempt.\<close>

theorem analyze_scores_best:
  assumes "r = analyze_scores sc thr n" "g = unat (guessed_value r)"
  shows "score r = sc ! g \<and> (\<forall>i<256. sc ! i \<le> score r) \<and> (\<forall>i<g. sc ! i < score r)
     \<and> (g \<noteq> 0 \<longrightarrow> (\<forall>i<256. i \<noteq> g \<longrightarrow> sc ! i \<le> second_score r)
          \<and> (\<exists>i<256. i \<noteq> g \<and> sc ! i = second_score r))
     \<and> (success r \<longleftrightarrow> 2 * second_score r + 5 \<le> score r \<and> 5 \<le> score r \<and> n div 40 \<le> score r)
     \<and> confidence r = (if 0 < n then max 0 (dbl (of_int (score r - second_score r) / of_int n)) else 0)
     \<and> threshold_cycles r = thr \<and> attempts r = n"
proof -
  obtain b c where b: "ranked sc kProbeValues (b, c)" "b < 256" "g = b" "score r = sc ! b"
    "second_score r = sc ! c" and s: "success r \<longleftrightarrow> 2 * sc ! c + 5 \<le> sc ! b \<and> max 5 (n div 40) \<le> sc ! b"
    "confidence r = (if 0 < n then max 0 (dbl (of_int (sc ! b - sc ! c) / of_int n)) else 0)"
    unfolding assms by (rule analyze_ranked)
  have "threshold_cycles r = thr \<and> attempts r = n" by (simp add: assms analyze_scores_def split_beta Let_def)
  moreover have "success r \<longleftrightarrow> 2 * second_score r + 5 \<le> score r \<and> 5 \<le> score r \<and> n div 40 \<le> score r"
    using b(4,5) s(1) by auto
  moreover have "(\<forall>i<256. sc ! i \<le> score r) \<and> (\<forall>i<g. sc ! i < score r)
     \<and> (g \<noteq> 0 \<longrightarrow> (\<forall>i<256. i \<noteq> g \<longrightarrow> sc ! i \<le> second_score r)
          \<and> (\<exists>i<256. i \<noteq> g \<and> sc ! i = second_score r))"
    using b by (auto simp: ranked_def kProbeValues_def split: if_splits)
  ultimately show ?thesis using b(3-5) s(2) by simp
qed

theorem analyze_scores_best_witness:
  "2 \<le> second_score (analyze_scores ((replicate 256 0)[7 := 9, 3 := 2]) 120 100)
     \<and> score (analyze_scores ((replicate 256 0)[7 := 9, 3 := 2]) 120 100) = 9"
proof -
  have "guessed_value (analyze_scores ((replicate 256 0)[7 := 9, 3 := 2]) 120 100) = 7" by code_simp
  then show ?thesis
    using analyze_scores_best [OF refl refl, of "(replicate 256 0)[7 := 9, 3 := 2]" 120 100]
    by (auto dest!: spec [of _ 3])
qed

text \<open>C25: with scores that count events, a result whose guess is the byte 0 is never a success: the
  search starts with both candidates at index 0, so the runner-up is then the winner itself.\<close>

theorem zero_byte_never_succeeds:
  assumes "0 \<le> sc ! 0" "guessed_value (analyze_scores sc thr n) = 0"
  shows "\<not> success (analyze_scores sc thr n)
     \<and> second_score (analyze_scores sc thr n) = score (analyze_scores sc thr n)"
proof -
  obtain b c where r: "ranked sc kProbeValues (b, c)" "unat (guessed_value (analyze_scores sc thr n)) = b"
    "score (analyze_scores sc thr n) = sc ! b" "second_score (analyze_scores sc thr n) = sc ! c"
    "success (analyze_scores sc thr n) \<longleftrightarrow> 2 * sc ! c + 5 \<le> sc ! b \<and> max 5 (n div 40) \<le> sc ! b"
    by (rule analyze_ranked)
  then have "b = 0" "c = 0" using assms(2) by (auto simp: ranked_def)
  then show ?thesis using r(3-5) assms(1) by simp
qed

theorem zero_byte_never_succeeds_witness:
  "\<not> success (analyze_scores ((replicate 256 0)[0 := 1000]) 120 1000)"
proof -
  have "guessed_value (analyze_scores ((replicate 256 0)[0 := 1000]) 120 1000) = 0" by code_simp
  then show ?thesis using zero_byte_never_succeeds [of "(replicate 256 0)[0 := 1000]" 120 1000] by simp
qed

text \<open>C26: one byte read: the score of a value is exactly the number of attempts in which the reload of
  its probe line took at most the threshold, each line being probed once per attempt; the guess has the
  largest count, no score exceeds the number of attempts, and the confidence lies in [0, 1].\<close>

theorem read_byte_counts_fast_reloads:
  assumes "read_byte_with_threshold hw x (int n) thr s = (r, s')"
  shows "(\<exists>i<256. unat (guessed_value r) = mixed_index i
        \<and> score r = int (fast_reloads hw thr (tsc_reads (cpu s)) i n)
        \<and> (\<forall>j<256. int (fast_reloads hw thr (tsc_reads (cpu s)) j n) \<le> score r))
     \<and> 0 \<le> second_score r \<and> second_score r \<le> score r \<and> score r \<le> int n
     \<and> 0 \<le> confidence r \<and> confidence r \<le> 1"
proof -
  let ?f = "foldl (attempt_step hw x thr) (replicate kProbeValues 0, s) [0..<n]"
  let ?sc = "fst ?f"
  let ?n = "\<lambda>i. fast_reloads hw thr (tsc_reads (cpu s)) i n"
  have r: "r = analyze_scores ?sc thr (int n)"
    using assms by (simp add: read_byte_with_threshold_def Let_def split_beta)
  have sc: "?sc ! mixed_index i = int (?n i)" if "i < 256" for i
    using attempts_loop [of i hw x thr s n] that by blast
  obtain b c where a: "ranked ?sc kProbeValues (b, c)" "b < 256" "unat (guessed_value r) = b"
    "score r = ?sc ! b" "second_score r = ?sc ! c"
    "confidence r = (if 0 < int n then max 0 (dbl (of_int (?sc ! b - ?sc ! c) / of_int (int n))) else 0)"
    unfolding r by (rule analyze_ranked)
  then have c: "c < 256" "?sc ! c \<le> ?sc ! b" "\<forall>i<256. ?sc ! i \<le> ?sc ! b"
    by (auto simp: ranked_def kProbeValues_def)
  obtain i j where i: "i < 256" "mixed_index i = b" and j: "j < 256" "mixed_index j = c"
    using mixed_index_surj a(2) c(1) by metis
  have "\<forall>j<256. int (?n j) \<le> score r" using c(3) sc mixed_index_less a(4) by metis
  moreover have s: "score r = int (?n i)" "second_score r = int (?n j)"
    using sc [OF i(1)] sc [OF j(1)] i(2) j(2) a(4,5) by simp_all
  moreover have "score r \<le> int n" using s(1) fast_reloads_le by simp
  moreover have "confidence r \<le> 1"
  proof (cases "n = 0")
    case False
    have "of_int (score r - second_score r) / of_int (int n) \<le> (1 :: real)"
      using False s fast_reloads_le [of hw thr "tsc_reads (cpu s)" i n] by (simp add: divide_le_eq)
    then have "dbl (of_int (score r - second_score r) / of_int (int n)) \<le> 1"
      by (rule dbl.ge_iff [rotated]) simp
    then show ?thesis unfolding a(6) a(4,5) [symmetric] by simp
  qed (simp add: a(6))
  moreover have "0 \<le> confidence r" by (simp add: a(6))
  ultimately show ?thesis using i a(3) c(2) a(4,5) by auto
qed

theorem read_byte_counts_fast_reloads_witness:
  "score (fst (read_byte_with_threshold steady_counter 20 (int 2) 80 (initial_state boot))) \<le> 2"
proof -
  obtain r s' where "read_byte_with_threshold steady_counter 20 (int 2) 80 (initial_state boot) = (r, s')"
    by fastforce
  then show ?thesis using read_byte_counts_fast_reloads by fastforce
qed

text \<open>C17: the victim never reads past its bound: of two states that differ only in the bytes behind
  the 16 bytes of \<open>array1\<close>, reading a byte or a string yields the same value and the same
  sequence of loads, flushes, fences and counter reads, when the counter returns the same ticks.
  What the secret bytes influence can only be the ticks.\<close>

theorem architectural_noninterference:
  assumes "agree_in_bounds s t"
  shows "observe (read_byte hw x tries s) = observe (read_byte hw x tries t)
     \<and> observe (read_string_impl hw x len tries p s) = observe (read_string_impl hw x len tries p t)"
proof -
  obtain z where t: "t = hide z s" using agree_hide [OF assms] by blast
  show ?thesis
    unfolding t read_byte_hide read_string_hide observe_hide by simp
qed

theorem architectural_noninterference_witness:
  "observe (read_byte steady_counter 20 3 (initial_state boot))
   = observe (read_byte steady_counter 20 3 ((initial_state boot)\<lparr>array1 := (replicate 160 0)[20 := 84]\<rparr>))"
proof -
  have "agree_in_bounds (initial_state boot) ((initial_state boot)\<lparr>array1 := (replicate 160 0)[20 := 84]\<rparr>)"
    by (simp add: agree_in_bounds_def initial_state_def kArrayStorage_def kArchitecturalArraySize_def)
  then show ?thesis using architectural_noninterference by blast
qed

text \<open>the guards of the string reader: outside the offsets 16 to 160, or with non-positive tries,
  the text is empty and nothing is executed; otherwise, as long as \<open>3 * tries\<close> fits an int, the reader
  returns exactly the requested number of characters, and it never changes \<open>array1\<close>.\<close>

theorem read_string_total:
  assumes "tries \<le> 715827882"
  shows "\<exists>str out s'. read_string_impl hw offset len tries p s = Some ((str, out), s') \<and> array1 s' = array1 s
     \<and> (if 0 < tries \<and> 16 \<le> offset \<and> offset + len \<le> 160 then length str = len else str = [] \<and> s' = s)"
  using read_string_in_range [of tries offset len hw p s] assms
  by (cases "0 < tries \<and> 16 \<le> offset \<and> offset + len \<le> 160")
    (auto simp: read_string_impl_def kArchitecturalArraySize_def kArrayStorage_def)

theorem read_string_total_witness:
  "\<exists>str out s'. read_string_impl steady_counter 16 40 999 True
      (initial_state boot) = Some ((str, out), s') \<and> length str = 40"
  using read_string_total [of 999 "steady_counter" 16 40 True
      "initial_state boot"] by auto

text \<open>C27: the counters of the reliability lab are consistent: the total number of correct bytes is the
  sum of the per-byte counters, each of which is at most the number of runs; every exact match
  accounts for a whole secret of correct bytes; and nothing exceeds the totals.  There is one counter per byte
  of the secret as soon as a run was made, and none without.  The lab leaves
  \<open>array1\<close> as it found it.\<close>

theorem reliability_lab_counters:
  assumes "run_reliability_lab hw runs tries s = Some (r, s')"
  shows "sum_list (per_byte_correct_runs r) = int (correct_bytes r)
     \<and> (\<forall>c\<in>set (per_byte_correct_runs r). 0 \<le> c \<and> c \<le> max 0 runs)
     \<and> 0 \<le> exact_matches r \<and> exact_matches r \<le> max 0 runs
     \<and> exact_matches r * 40 \<le> int (correct_bytes r)
     \<and> correct_bytes r \<le> total_bytes r \<and> total_bytes r = 40 * nat (max 0 runs)
     \<and> length (per_byte_correct_runs r) = (if 0 < runs \<and> 0 < tries then 40 else 0)
     \<and> array1 s' = array1 s"
proof -
  have n: "length kSecret = 40" by (simp add: kSecret_def)
  show ?thesis
  proof (cases "runs \<le> 0 \<or> tries \<le> 0")
    case True
    then have "per_byte_correct_runs r = []" "correct_bytes r = 0" "exact_matches r = 0" "s' = s"
      "total_bytes r = 40 * nat (max 0 runs)"
      using assms n by (auto simp: run_reliability_lab_def Let_def)
    then show ?thesis using True by auto
  next
    case False
    then show ?thesis
      using reliability_lab_inv [OF assms] by (auto simp: lab_inv_def n max_def split: if_splits)
  qed
qed

theorem reliability_lab_counters_witness:
  "\<exists>r s'. run_reliability_lab steady_counter 2 3 (initial_state boot) = Some (r, s')
     \<and> length (per_byte_correct_runs r) = 40 \<and> sum_list (per_byte_correct_runs r) = int (correct_bytes r)
     \<and> correct_bytes r \<le> total_bytes r \<and> total_bytes r = 80"
proof -
  obtain r s' where "run_reliability_lab steady_counter 2 3 (initial_state boot) = Some (r, s')"
    using lab_total [of 3 steady_counter 2 "initial_state boot"] by auto
  then show ?thesis using reliability_lab_counters [of steady_counter 2 3 "initial_state boot" r s'] by auto
qed

text \<open>only the demo plants the secret: after the demo \<open>array1\<close> holds it from offset 16 on, while
  the reliability lab, started in a fresh process, still attacks an array of zeros when it compares what
  it read with the secret.\<close>

theorem secret_planted_by_demo_only:
  assumes "0 < tries" "tries \<le> 715827882"
  shows "(\<exists>out s'. run_demo hw tries (initial_state m) = Some (Some out, s')
        \<and> take 40 (drop 16 (array1 s')) = map (\<lambda>c. of_nat (of_char c)) kSecret
        \<and> (matches out \<longleftrightarrow> leaked out = kSecret) \<and> length (leaked out) = 40)
     \<and> (\<exists>r s'. run_reliability_lab hw runs tries (initial_state m) = Some (r, s')
        \<and> array1 s' = replicate 160 0)"
proof
  have n: "length kSecret = 40" by (simp add: kSecret_def)
  let ?s1 = "(initial_state m)\<lparr>array1 := plant_secret (array1 (initial_state m))\<rparr>"
  let ?s2 = "foldl (\<lambda>s i. touch (i * kProbeStride) s) ?s1 [0..<kProbeValues]"
  let ?s4 = "on_cpu clflush_fence (foldl (\<lambda>s i. on_cpu (clflush (Probe (i * kProbeStride))) s) ?s2 [0..<kProbeValues])"
  have "array1 ?s2 = array1 ?s1" by (rule foldl_preserves) simp
  then have a: "array1 ?s4 = plant_secret (replicate 160 0)"
    by (simp add: initial_state_def kArrayStorage_def)
  obtain w out s' where r: "read_string hw kArchitecturalArraySize (length kSecret) tries ?s4 = Some ((w, out), s')"
    "array1 s' = array1 ?s4" "length w = 40"
    using read_string_in_range [OF assms, of 16 40 hw True ?s4] n
    by (auto simp: kArchitecturalArraySize_def read_string_def)
  have "take 40 (drop 16 (plant_secret (replicate 160 0))) = map (\<lambda>c. of_nat (of_char c)) kSecret"
    by (simp add: plant_secret_def kArchitecturalArraySize_def n del: upt_Suc)
  then show "\<exists>out s'. run_demo hw tries (initial_state m) = Some (Some out, s')
        \<and> take 40 (drop 16 (array1 s')) = map (\<lambda>c. of_nat (of_char c)) kSecret
        \<and> (matches out \<longleftrightarrow> leaked out = kSecret) \<and> length (leaked out) = 40"
    using assms r a by (simp add: run_demo_def Let_def)
next
  let ?r0 = "\<lparr>lab_runs = runs, tries_per_byte = tries, secret_length = length kSecret,
     exact_matches = 0, correct_bytes = 0,
     total_bytes = length kSecret * nat (max 0 runs), per_byte_correct_runs = []\<rparr>"
  have "array1 (initial_state m) = replicate 160 0" by (simp add: initial_state_def kArrayStorage_def)
  moreover obtain r s' where "lab_loop hw (nat runs) ?r0 (initial_state m) = Some (r, s')"
    using lab_loop_total [of ?r0 hw "nat runs" "initial_state m"] assms by auto
  moreover have "lab_inv 0 ?r0" by (simp add: lab_inv_def)
  ultimately show "\<exists>r s'. run_reliability_lab hw runs tries (initial_state m) = Some (r, s')
        \<and> array1 s' = replicate 160 0"
    using lab_loop_inv [of 0 ?r0] by (auto simp: run_reliability_lab_def Let_def)
qed

theorem secret_planted_by_demo_only_witness:
  "\<exists>r s'. run_reliability_lab steady_counter 5 999 (initial_state boot) = Some (r, s')
        \<and> array1 s' = replicate 160 0"
  using secret_planted_by_demo_only [of 999 steady_counter boot 5] by simp

end
