(* ===== verification/Bandwidth.thy ===== *)
theory Bandwidth
  imports Statistics Timing Memory Decimal
begin

text \<open>
  Model of \<open>src/bandwidth_measurer.cpp\<close>: two buffers from the requested allocator, timed read,
  write and copy passes, and the upper median of the rates of each pass.  The clock may fail in
  the middle of a measurement.  The trace holds the bytes that the passes load and store.
\<close>

section \<open>Buffers\<close>

record allocation =
  ptr :: u64
  bytes :: u64
  alloc_method :: string

definition large_page_size :: u64 where "large_page_size = 2 * 1024 * 1024"

definition numa_prefix :: string where "numa_prefix = ''numa-node-''"

definition allocate_buffer ::
  "memory_env \<Rightarrow> u64 \<Rightarrow> string \<Rightarrow> int \<Rightarrow> heap \<Rightarrow> (exn + allocation) \<times> heap" where
  "allocate_buffer env requested meth numa_node h =
     (if 0 \<le> numa_node then
        if \<not> numa_available env then (Inr \<lparr>ptr = 0, bytes = requested, alloc_method = meth\<rparr>, h)
        else let (p, h') = allocate_on_node env requested numa_node h
             in (Inr \<lparr>ptr = p, bytes = requested, alloc_method = numa_prefix @ to_string numa_node\<rparr>, h')
      else if meth = ''malloc'' then
        let (p, h') = raw_alloc env Free requested h
        in (Inr \<lparr>ptr = p, bytes = requested, alloc_method = meth\<rparr>, h')
      else if meth = ''LargePage'' then
        let n = (requested + large_page_size - 1) AND NOT (large_page_size - 1);
            (p, h') = raw_alloc env Munmap n h
        in (Inr \<lparr>ptr = p, bytes = n, alloc_method = meth\<rparr>, h')
      else if meth = ''mmap'' then
        let (p, h') = raw_alloc env Munmap requested h
        in (Inr \<lparr>ptr = p, bytes = requested, alloc_method = meth\<rparr>, h')
      else (Inl (InvalidArgument (''Unknown bandwidth allocation method: '' @ meth)), h))"

definition release_buffer :: "memory_env \<Rightarrow> allocation \<Rightarrow> heap \<Rightarrow> allocation \<times> heap" where
  "release_buffer env a h =
     (if ptr a = 0 then (a, h)
      else
        let h' =
          (if take (length numa_prefix) (alloc_method a) = numa_prefix then
             let node = (case stoi (drop (length numa_prefix) (alloc_method a)) of None \<Rightarrow> - 1 | Some n \<Rightarrow> n)
             in if 0 \<le> node then free_on_node env (ptr a) (bytes a) h else h
           else if alloc_method a = ''malloc'' then raw_free Free (ptr a) (bytes a) h
           else raw_free Munmap (ptr a) (bytes a) h)
        in (a\<lparr>ptr := 0\<rparr>, h'))"

section \<open>Rates\<close>

definition median :: "double list \<Rightarrow> double" where
  "median values = (if values = [] then 0 else upper_median values)"

definition gib_per_second :: "u64 \<Rightarrow> u64 \<Rightarrow> double" where
  "gib_per_second n elapsed_ns =
     (if elapsed_ns = 0 then 0
      else
        let gib = dbl (double_of_u64 n / (1024 * 1024 * 1024));
            seconds = dbl (double_of_u64 elapsed_ns * dbl (1 / 10 ^ 9))
        in dbl (gib / seconds))"

section \<open>The measurement\<close>

datatype byte = Src nat | Dst nat

definition timed_pass :: "hardware \<Rightarrow> byte event list \<Rightarrow> byte machine \<Rightarrow> (exn + u64) \<times> byte machine" where
  "timed_pass hw events m =
     (case monotonic_raw_ns hw m of
        (Inl e, m1) \<Rightarrow> (Inl e, m1)
      | (Inr t0, m1) \<Rightarrow>
          (case monotonic_raw_ns hw (emit events m1) of
             (Inl e, m2) \<Rightarrow> (Inl e, m2)
           | (Inr t1, m2) \<Rightarrow> (Inr (t1 - t0), m2)))"

text \<open>One load per cache line; \<open>memset\<close>; \<open>memcpy\<close>.\<close>

definition read_pass :: "u64 \<Rightarrow> byte event list" where
  "read_pass n = map (\<lambda>i. Load (Src (64 * i))) [0..<(unat n + 63) div 64]"

definition set_pass :: "(nat \<Rightarrow> byte) \<Rightarrow> u64 \<Rightarrow> byte event list" where
  "set_pass f n = map (\<lambda>i. Store (f i)) [0..<unat n]"

definition copy_pass :: "u64 \<Rightarrow> byte event list" where
  "copy_pass n = concat (map (\<lambda>i. [Load (Src i), Store (Dst i)]) [0..<unat n])"

fun bandwidth_rounds ::
  "hardware \<Rightarrow> u64 \<Rightarrow> nat \<Rightarrow> double list \<times> double list \<times> double list \<Rightarrow> byte machine
     \<Rightarrow> (exn + double list \<times> double list \<times> double list) \<times> byte machine" where
  "bandwidth_rounds hw n 0 rates m = (Inr rates, m)"
| "bandwidth_rounds hw n (Suc r) (rs, ws, cs) m =
     (case timed_pass hw (read_pass n) m of (Inl e, m1) \<Rightarrow> (Inl e, m1) | (Inr read_ns, m1) \<Rightarrow>
     (case timed_pass hw (set_pass Dst n) m1 of (Inl e, m2) \<Rightarrow> (Inl e, m2) | (Inr write_ns, m2) \<Rightarrow>
     (case timed_pass hw (copy_pass n) m2 of (Inl e, m3) \<Rightarrow> (Inl e, m3) | (Inr copy_ns, m3) \<Rightarrow>
        bandwidth_rounds hw n r (rs @ [gib_per_second n read_ns], ws @ [gib_per_second n write_ns],
          cs @ [gib_per_second n copy_ns]) m3)))"

record bandwidth_result =
  allocator :: string
  size_bytes :: u64
  read_gb_s :: double
  write_gb_s :: double
  copy_gb_s :: double

definition measure ::
  "hardware \<Rightarrow> memory_env \<Rightarrow> u64 \<Rightarrow> string \<Rightarrow> int \<Rightarrow> int \<Rightarrow> heap \<Rightarrow> byte machine
     \<Rightarrow> (exn + bandwidth_result) \<times> heap \<times> byte machine" where
  "measure hw env n meth repeats numa_node h m =
     (if n = 0 \<or> repeats \<le> 0
      then (Inl (InvalidArgument ''Bandwidth size and repeats must be positive''), h, m)
      else case allocate_buffer env n meth numa_node h of (Inl e, h1) \<Rightarrow> (Inl e, h1, m) | (Inr src, h1) \<Rightarrow>
      (case allocate_buffer env n meth numa_node h1 of (Inl e, h2) \<Rightarrow> (Inl e, h2, m) | (Inr dst, h2) \<Rightarrow>
        if ptr src = 0 \<or> ptr dst = 0 then
          let (src, h3) = release_buffer env src h2; (dst, h4) = release_buffer env dst h3
          in (Inl (RuntimeError (''Allocation failed for bandwidth method: '' @ meth)), h4, m)
        else
          case bandwidth_rounds hw n (nat repeats) ([], [], [])
              (emit (set_pass Src n @ set_pass Dst n) m) of
            (Inl e, m') \<Rightarrow> (Inl e, h2, m')
          | (Inr (rs, ws, cs), m') \<Rightarrow>
              (let result = \<lparr>allocator = (if 0 \<le> numa_node then numa_prefix @ to_string numa_node else meth),
                     size_bytes = n, read_gb_s = median rs, write_gb_s = median ws, copy_gb_s = median cs\<rparr>;
                   (src, h3) = release_buffer env src h2;
                   (dst, h4) = release_buffer env dst h3
               in (Inr result, h4, m'))))"

section \<open>Buffers are blocks\<close>

text \<open>The block behind a buffer of \<open>n\<close> requested bytes.\<close>

definition buffer_bytes :: "string \<Rightarrow> int \<Rightarrow> u64 \<Rightarrow> u64" where
  "buffer_bytes meth node n =
     (if node < 0 \<and> meth = ''LargePage'' then (n + large_page_size - 1) AND NOT (large_page_size - 1) else n)"

definition buffer_deallocator :: "string \<Rightarrow> int \<Rightarrow> deallocator" where
  "buffer_deallocator meth node =
     (if 0 \<le> node then Numa_free else if meth = ''malloc'' then Free else Munmap)"

definition buffer_method :: "memory_env \<Rightarrow> string \<Rightarrow> int \<Rightarrow> string" where
  "buffer_method env meth node =
     (if 0 \<le> node \<and> numa_available env then numa_prefix @ to_string node else meth)"

definition known_method :: "string \<Rightarrow> int \<Rightarrow> bool" where
  "known_method meth node \<longleftrightarrow>
     (0 \<le> node \<and> node \<le> i32_max) \<or> (node < 0 \<and> meth \<in> {''malloc'', ''LargePage'', ''mmap''})"

definition acquire_buffer :: "memory_env \<Rightarrow> string \<Rightarrow> int \<Rightarrow> u64 \<Rightarrow> heap \<Rightarrow> u64 \<times> heap" where
  "acquire_buffer env meth node n h =
     (if known_method meth node then
        case allocate_buffer env n meth node h of (Inl e, h') \<Rightarrow> (0, h') | (Inr a, h') \<Rightarrow> (ptr a, h')
      else (0, h))"

definition release_pointer :: "memory_env \<Rightarrow> string \<Rightarrow> int \<Rightarrow> u64 \<Rightarrow> u64 \<Rightarrow> heap \<Rightarrow> heap" where
  "release_pointer env meth node p n h =
     snd (release_buffer env \<lparr>ptr = p, bytes = buffer_bytes meth node n,
       alloc_method = buffer_method env meth node\<rparr> h)"

lemma stoi_to_string: "0 \<le> node \<Longrightarrow> node \<le> i32_max \<Longrightarrow> stoi (to_string node) = Some node"
  using stoi_to_dec [of "nat node"] by (simp add: to_string_def)

lemma allocate_known:
  assumes "known_method meth node"
  shows "\<exists>p h'. allocate_buffer env n meth node h
     = (Inr \<lparr>ptr = p, bytes = buffer_bytes meth node n, alloc_method = buffer_method env meth node\<rparr>, h')
     \<and> acquire_buffer env meth node n h = (p, h')"
  using assms
  by (auto simp: known_method_def acquire_buffer_def allocate_buffer_def buffer_bytes_def
      buffer_method_def split_beta Let_def)

lemma allocate_live:
  "acquire_buffer env meth node n h = (p, h') \<Longrightarrow>
     live h' = (if p = 0 then live h
                else add_mset (buffer_deallocator meth node, p, buffer_bytes meth node n) (live h))"
  by (auto simp: acquire_buffer_def allocate_buffer_def buffer_bytes_def buffer_deallocator_def
      memory_defs Let_def split_beta split: if_splits)

lemma release_known:
  assumes "acquire_buffer env meth node n h = (p, h')" "p \<noteq> 0"
  shows "live (release_pointer env meth node p n g)
     = live g - {#(buffer_deallocator meth node, p, buffer_bytes meth node n)#}"
proof (cases "0 \<le> node")
  case True
  then have "node \<le> i32_max" "numa_available env" "has_numa env" "n \<noteq> 0"
    using assms by (auto simp: acquire_buffer_def allocate_buffer_def known_method_def allocate_on_node_def
        numa_available_def split: if_splits)
  then show ?thesis
    using True assms(2)
    by (simp add: release_pointer_def release_buffer_def buffer_method_def stoi_to_string
        free_on_node_def buffer_bytes_def buffer_deallocator_def raw_free_def)
next
  case False
  then have "meth \<in> {''malloc'', ''LargePage'', ''mmap''}"
    using assms by (auto simp: acquire_buffer_def known_method_def split: if_splits)
  then show ?thesis
    using False assms(2)
    by (auto simp: release_pointer_def release_buffer_def buffer_method_def numa_prefix_def
        buffer_bytes_def buffer_deallocator_def raw_free_def)
qed

interpretation buffer: block_allocator "acquire_buffer env meth node" "release_pointer env meth node"
  "\<lambda>p n. (buffer_deallocator meth node, p, buffer_bytes meth node n)"
  by unfold_locales (auto dest: allocate_live release_known)

section \<open>Rates of the rounds\<close>

text \<open>The time between clock reads \<open>2 * k\<close> and \<open>2 * k + 1\<close> after read number \<open>c\<close>.\<close>

definition pass_ns :: "hardware \<Rightarrow> nat \<Rightarrow> nat \<Rightarrow> u64" where
  "pass_ns hw c k = clock_ns hw (c + 2 * k + 1) - clock_ns hw (c + 2 * k)"

lemma timed_pass_ok:
  assumes "clock_raw hw c \<noteq> None" "clock_raw hw (Suc c) \<noteq> None" "clock_reads m = c"
  obtains m' where "timed_pass hw events m = (Inr (pass_ns hw c 0), m')" "clock_reads m' = c + 2"
  using assms
  by (auto simp: timed_pass_def monotonic_raw_ns_def pass_ns_def clock_ns_def emit_def)

lemma pass_ns_shift: "pass_ns hw (c + 2 * j) k = pass_ns hw c (j + k)"
  by (simp add: pass_ns_def algebra_simps)

definition round_rates :: "hardware \<Rightarrow> u64 \<Rightarrow> nat \<Rightarrow> nat \<Rightarrow> nat \<Rightarrow> double list" where
  "round_rates hw n c j r = map (\<lambda>k. gib_per_second n (pass_ns hw c (3 * k + j))) [0..<r]"

lemma round_rates_Suc:
  "round_rates hw n c j (Suc r) = gib_per_second n (pass_ns hw c j) # round_rates hw n (c + 6) j r"
  using pass_ns_shift [of hw c 3] by (simp add: round_rates_def upt_0_Suc comp_def algebra_simps del: upt_Suc)

lemma bandwidth_rounds_ok:
  assumes "\<And>k. k < 6 * r \<Longrightarrow> clock_raw hw (clock_reads m + k) \<noteq> None"
  shows "fst (bandwidth_rounds hw n r (rs, ws, cs) m)
     = Inr (rs @ round_rates hw n (clock_reads m) 0 r, ws @ round_rates hw n (clock_reads m) 1 r,
            cs @ round_rates hw n (clock_reads m) 2 r)"
  using assms
proof (induction r arbitrary: rs ws cs m)
  case 0
  then show ?case by (simp add: round_rates_def)
next
  case (Suc r)
  let ?c = "clock_reads m"
  have c: "clock_raw hw (?c + k) \<noteq> None" if "k < 6" for k using Suc.prems [of k] that by simp
  have ok: "clock_raw hw ?c \<noteq> None" "clock_raw hw (Suc ?c) \<noteq> None"
    "clock_raw hw (?c + 2) \<noteq> None" "clock_raw hw (Suc (?c + 2)) \<noteq> None"
    "clock_raw hw (?c + 4) \<noteq> None" "clock_raw hw (Suc (?c + 4)) \<noteq> None"
    using c [of 0] c [of 1] c [of 2] c [of 3] c [of 4] c [of 5] by (simp_all add: eval_nat_numeral)
  obtain m1 where m1: "timed_pass hw (read_pass n) m = (Inr (pass_ns hw ?c 0), m1)" "clock_reads m1 = ?c + 2"
    by (rule timed_pass_ok [OF ok(1,2) refl])
  obtain m2 where m2: "timed_pass hw (set_pass Dst n) m1 = (Inr (pass_ns hw (?c + 2) 0), m2)"
      "clock_reads m2 = (?c + 2) + 2"
    by (rule timed_pass_ok [OF ok(3,4) m1(2)])
  have c4: "clock_reads m2 = ?c + 4" using m2(2) by simp
  obtain m3 where m3: "timed_pass hw (copy_pass n) m2 = (Inr (pass_ns hw (?c + 4) 0), m3)"
      "clock_reads m3 = (?c + 4) + 2"
    by (rule timed_pass_ok [OF ok(5,6) c4])
  have shift: "pass_ns hw (?c + 2) 0 = pass_ns hw ?c 1" "pass_ns hw (?c + 4) 0 = pass_ns hw ?c 2"
    using pass_ns_shift [of hw ?c 1 0] pass_ns_shift [of hw ?c 2 0] by simp_all
  have c6: "clock_reads m3 = ?c + 6" using m3(2) by simp
  have "clock_raw hw (clock_reads m3 + k) \<noteq> None" if "k < 6 * r" for k
    using Suc.prems [of "6 + k"] that by (simp add: c6 add.assoc)
  note IH = Suc.IH [OF this, unfolded c6]
  show ?case
    by (simp add: m1(1) m2(1) m3(1) IH shift round_rates_Suc del: add_2_eq_Suc')
qed

lemma bandwidth_rounds_error:
  "bandwidth_rounds hw n k rates m = (Inl e, m') \<Longrightarrow>
     e = RuntimeError ''clock_gettime(CLOCK_MONOTONIC_RAW) failed''"
proof (induction k arbitrary: rates m)
  case (Suc k)
  obtain rs ws cs where r: "rates = (rs, ws, cs)" by (metis prod.collapse)
  have "timed_pass hw events mm = (Inl e, mm') \<Longrightarrow> e = RuntimeError ''clock_gettime(CLOCK_MONOTONIC_RAW) failed''"
    for events mm mm' e
    by (auto simp: timed_pass_def monotonic_raw_ns_def split: option.splits sum.splits)
  then show ?case using Suc by (force simp: r split: prod.splits sum.splits)
qed simp

lemma gib_per_second_nonneg: "0 \<le> gib_per_second n ns"
  by (simp add: gib_per_second_def Let_def dbl.nonneg)

lemma is_double_gib [simp]: "is_double (gib_per_second n ns)"
  by (simp add: gib_per_second_def Let_def dbl.idem)

lemma median_round_rates:
  "0 < r \<Longrightarrow> median (round_rates hw n c j r) = upper_median (round_rates hw n c j r)
     \<and> 0 \<le> median (round_rates hw n c j r) \<and> median (round_rates hw n c j r) \<in> set (round_rates hw n c j r)"
  using upper_median_mem [of "round_rates hw n c j r"]
  by (auto simp: median_def round_rates_def gib_per_second_nonneg)

subsection \<open>Buffers of a measurement\<close>

lemma measure_live:
  assumes "node \<le> i32_max" "measure hw env n meth repeats node h m = (r, h', m')"
  shows "live h' = live h
     \<or> (r = Inl (RuntimeError ''clock_gettime(CLOCK_MONOTONIC_RAW) failed'')
        \<and> (\<exists>p q. live h' = live h + {#(buffer_deallocator meth node, p, buffer_bytes meth node n),
                                      (buffer_deallocator meth node, q, buffer_bytes meth node n)#}))"
proof (cases "n = 0 \<or> repeats \<le> 0 \<or> \<not> known_method meth node")
  case True
  then show ?thesis
    using assms by (auto simp: measure_def known_method_def allocate_buffer_def split: if_splits)
next
  case False
  obtain p h1 where s: "allocate_buffer env n meth node h
     = (Inr \<lparr>ptr = p, bytes = buffer_bytes meth node n, alloc_method = buffer_method env meth node\<rparr>, h1)"
    "acquire_buffer env meth node n h = (p, h1)"
    using allocate_known False by blast
  obtain q h2 where d: "allocate_buffer env n meth node h1
     = (Inr \<lparr>ptr = q, bytes = buffer_bytes meth node n, alloc_method = buffer_method env meth node\<rparr>, h2)"
    "acquire_buffer env meth node n h1 = (q, h2)"
    using allocate_known False by blast
  let ?rel = "release_pointer env meth node"
  have released: "live (?rel q n (?rel p n h2)) = live h"
    using buffer.acq [OF s(2)] buffer.acq [OF d(2)] buffer.rel [OF s(2)] buffer.rel [OF d(2)]
    by (cases "p = 0"; cases "q = 0") (simp_all add: release_pointer_def release_buffer_def)
  have both: "p \<noteq> 0 \<Longrightarrow> q \<noteq> 0 \<Longrightarrow> live h2 = live h + {#(buffer_deallocator meth node, p, buffer_bytes meth node n),
      (buffer_deallocator meth node, q, buffer_bytes meth node n)#}"
    using buffer.acq [OF s(2)] buffer.acq [OF d(2)] by simp
  have clock: "fst (bandwidth_rounds hw n k rates mm) = Inl e \<Longrightarrow>
      e = RuntimeError ''clock_gettime(CLOCK_MONOTONIC_RAW) failed''" for k rates mm e
    by (metis prod.collapse bandwidth_rounds_error)
  show ?thesis
    using assms(2) False s d released both clock
    by (auto simp: measure_def split_beta Let_def release_pointer_def [symmetric]
        split: if_splits sum.splits prod.splits)
qed

lemma measure_clock_error:
  assumes "measure hw env n meth repeats node h m
     = (Inl (RuntimeError ''clock_gettime(CLOCK_MONOTONIC_RAW) failed''), h', m')"
  shows "\<exists>k. clock_raw hw k = None"
proof (rule ccontr)
  assume "\<nexists>k. clock_raw hw k = None"
  then have "fst (bandwidth_rounds hw n k ([], [], []) mm) \<noteq> Inl e" for k mm e
    by (subst bandwidth_rounds_ok) simp_all
  then show False
    using assms by (auto simp: measure_def allocate_buffer_def split_beta Let_def
        split: if_splits sum.splits prod.splits)
qed

lemma measure_live_clock:
  assumes "node \<le> i32_max" "measure hw env n meth repeats node h m = (r, h', m')" "\<And>k. clock_raw hw k \<noteq> None"
  shows "live h' = live h"
  using measure_live [OF assms(1,2)] measure_clock_error [of hw env n meth repeats node h m h' m'] assms(2,3) by blast

section \<open>Properties\<close>

text \<open>C11: a bandwidth measurement leaves no buffer behind, whatever the allocator, the node and the
  answers of the operating system, on success and on every error but one: when the clock fails during
  the passes, both buffers stay allocated.\<close>

theorem measure_releases_buffers:
  assumes "node \<le> i32_max" "measure hw env n meth repeats node h m = (r, h', m')"
  shows "live h' = live h
     \<or> (r = Inl (RuntimeError ''clock_gettime(CLOCK_MONOTONIC_RAW) failed'')
        \<and> (\<exists>p q. live h' = live h + {#(buffer_deallocator meth node, p, buffer_bytes meth node n),
                                      (buffer_deallocator meth node, q, buffer_bytes meth node n)#}))"
  by (rule measure_live [OF assms])

theorem measure_releases_buffers_witness:
  "live (fst (snd (measure \<lparr>rdtscp = (\<lambda>k. (of_nat k, 0)), clock_raw = (\<lambda>k. Some (of_nat k, 0))\<rparr>
     \<lparr>has_numa = False, libnuma_available = 0, alloc_result = (\<lambda>k. if k = 1 then 0 else 4096)\<rparr> 4096 ''malloc'' 5 (- 1)
     \<lparr>alloc_calls = 0, live = {#}\<rparr> \<lparr>tsc_reads = 0, clock_reads = 0, trace = []\<rparr>))) = {#}"
  (is "live (fst (snd (measure ?hw ?env _ _ _ _ ?h ?m))) = _")
proof -
  obtain r h' m' where e: "measure ?hw ?env 4096 ''malloc'' 5 (- 1) ?h ?m = (r, h', m')" by (metis prod.collapse)
  have "r = Inl (RuntimeError (''Allocation failed for bandwidth method: '' @ ''malloc''))"
    using e by (auto simp: measure_def allocate_buffer_def raw_alloc_def Let_def split_beta)
  then show ?thesis using measure_releases_buffers [OF _ e] e by (simp add: i32_max_def)
qed

text \<open>C28: with a working clock and memory, the reported rates are the upper medians of the rates of the
  read, write and copy passes, one per repeat, from the time between the pass's own two clock reads;
  the result names the allocator and the size that were asked for.\<close>

theorem measure_reports_medians:
  assumes "0 < n" "0 < repeats" "known_method meth node"
    and "acquire_buffer env meth node n h = (p, h1)" "p \<noteq> 0"
    and "acquire_buffer env meth node n h1 = (q, h2)" "q \<noteq> 0"
    and clock: "\<forall>k < 6 * nat repeats. clock_raw hw (clock_reads m + k) \<noteq> None"
  shows "fst (measure hw env n meth repeats node h m) = Inr
     \<lparr>allocator = (if 0 \<le> node then ''numa-node-'' @ to_string node else meth), size_bytes = n,
      read_gb_s = upper_median (round_rates hw n (clock_reads m) 0 (nat repeats)),
      write_gb_s = upper_median (round_rates hw n (clock_reads m) 1 (nat repeats)),
      copy_gb_s = upper_median (round_rates hw n (clock_reads m) 2 (nat repeats))\<rparr>"
proof -
  let ?a = "\<lambda>p. \<lparr>ptr = p, bytes = buffer_bytes meth node n, alloc_method = buffer_method env meth node\<rparr>"
  have s: "allocate_buffer env n meth node h = (Inr (?a p), h1)"
    and d: "allocate_buffer env n meth node h1 = (Inr (?a q), h2)"
    using allocate_known [OF assms(3), of env n h] allocate_known [OF assms(3), of env n h1] assms(4,6) by auto
  let ?m = "emit (set_pass Src n @ set_pass Dst n) m"
  have "fst (bandwidth_rounds hw n (nat repeats) ([], [], []) ?m)
     = Inr (round_rates hw n (clock_reads m) 0 (nat repeats), round_rates hw n (clock_reads m) 1 (nat repeats),
            round_rates hw n (clock_reads m) 2 (nat repeats))"
    using bandwidth_rounds_ok [of "nat repeats" hw ?m n "[]" "[]" "[]"] clock by simp
  then obtain m' where "bandwidth_rounds hw n (nat repeats) ([], [], []) ?m
     = (Inr (round_rates hw n (clock_reads m) 0 (nat repeats), round_rates hw n (clock_reads m) 1 (nat repeats),
            round_rates hw n (clock_reads m) 2 (nat repeats)), m')"
    by (metis prod.collapse)
  then show ?thesis
    using assms(1,2,5,7) s d median_round_rates [of "nat repeats" hw n "clock_reads m"]
    by (simp add: measure_def Let_def split_beta numa_prefix_def)
qed

theorem measure_reports_medians_witness:
  "size_bytes (case fst (measure \<lparr>rdtscp = (\<lambda>k. (of_nat k, 0)), clock_raw = (\<lambda>k. Some (of_nat k, 0))\<rparr>
     \<lparr>has_numa = False, libnuma_available = 0, alloc_result = (\<lambda>k. 4096 * (1 + of_nat k))\<rparr> 4096 ''malloc'' 5 (- 1)
     \<lparr>alloc_calls = 0, live = {#}\<rparr> \<lparr>tsc_reads = 0, clock_reads = 0, trace = []\<rparr>) of Inr r \<Rightarrow> r) = 4096"
  (is "size_bytes (case fst (measure ?hw ?env _ _ _ _ ?h ?m) of Inr r \<Rightarrow> r) = _")
proof -
  have "known_method ''malloc'' (- 1)" by (simp add: known_method_def)
  then show ?thesis
    using measure_reports_medians [of 4096 5 "''malloc''" "- 1" ?env ?h 4096
        "\<lparr>alloc_calls = 1, live = {#(Free, 4096, 4096)#}\<rparr>" 8192
        "\<lparr>alloc_calls = 2, live = {#(Free, 8192, 4096), (Free, 4096, 4096)#}\<rparr>" ?hw ?m]
    by (simp add: acquire_buffer_def allocate_buffer_def raw_alloc_def)
qed

text \<open>a huge-page buffer is the request rounded up to whole pages of 2 MiB, as long as the
  rounding does not wrap; a request within 2 MiB of the top of the address space wraps to 0.\<close>

theorem large_page_rounding:
  assumes "node < 0"
  shows "2097152 dvd unat (buffer_bytes ''LargePage'' node n)
     \<and> (unat n + 2097151 < 2 ^ 64 \<longrightarrow> n \<le> buffer_bytes ''LargePage'' node n
          \<and> unat (buffer_bytes ''LargePage'' node n) < unat n + 2097152)
     \<and> (2 ^ 64 \<le> unat n + 2097151 \<longrightarrow> buffer_bytes ''LargePage'' node n = 0)"
proof -
  let ?w = "n + 2097151" and ?b = "buffer_bytes ''LargePage'' node n"
  have m: "large_page_size - 1 = mask 21" by (simp add: large_page_size_def mask_numeral)
  have "n + large_page_size - 1 = ?w" by (simp add: large_page_size_def)
  then have "?b = ?w AND NOT (mask 21)" using assms by (simp only: buffer_bytes_def m) simp
  then have b: "unat ?b = unat ?w div 2097152 * 2097152"
    by (simp only: unat_and_not_mask) simp
  have w: "unat ?w = (unat n + 2097151) mod 2 ^ 64" by (simp add: unat_word_ariths)
  show ?thesis
  proof (cases "unat n + 2097151 < 2 ^ 64")
    case True
    then have e: "unat ?b = (unat n + 2097151) div 2097152 * 2097152" using b w by simp
    moreover have "unat n \<le> (unat n + 2097151) div 2097152 * 2097152"
      "(unat n + 2097151) div 2097152 * 2097152 < unat n + 2097152" by linarith+
    ultimately have "n \<le> ?b" "unat ?b < unat n + 2097152" by (simp_all add: word_le_nat_alt)
    with True e show ?thesis by simp
  next
    case False
    then have "unat ?w = unat n + 2097151 - 2 ^ 64" using w unsigned_less [of n, where 'a = nat]
      by (simp add: mod_if)
    then have "unat ?b = 0" using b unsigned_less [of n, where 'a = nat] by simp
    then have "?b = 0" by (simp add: word_unat_eq_iff)
    then show ?thesis using False by simp
  qed
qed

theorem large_page_rounding_witness:
  "buffer_bytes ''LargePage'' (- 1) (- 5) = 0 \<and> unat (buffer_bytes ''LargePage'' (- 1) 2097153) < 4194305"
  using large_page_rounding [of "- 1" "- 5"] large_page_rounding [of "- 1" 2097153] by simp

end
