(* ===== verification/Evaluation.thy ===== *)
theory Evaluation
  imports Statistics Timing Json
begin

text \<open>
  Model of \<open>src/evaluation_lab.cpp\<close>: the robust statistics of the validation pipeline (block
  averages, MAD outlier filter, signal-to-noise ratio, classification error, Welch TVLA), the
  synthetic trace fixture, the pipeline \<open>EvaluationLab::run\<close> and the text of its report.  Every
  operation on doubles is rounded where the source rounds.  The bytes drawn from the seeded
  generator, \<open>std::log10\<close>, the platform signature and the file system are parameters.
\<close>

section \<open>Statistics\<close>

definition mean_of :: "double list \<Rightarrow> double" where
  "mean_of samples =
     (if samples = [] then 0
      else dbl (ldbl (foldl (\<lambda>sum value. ldbl (sum + value)) 0 samples / ldbl (of_nat (length samples)))))"

definition stddev_of :: "double list \<Rightarrow> double \<Rightarrow> double" where
  "stddev_of samples mean =
     (if length samples < 2 then 0
      else dsqrt (dbl (ldbl (foldl (\<lambda>squared value. let diff = ldbl (value - mean)
                in ldbl (squared + ldbl (diff * diff))) 0 samples / ldbl (of_nat (length samples - 1))))))"

definition median_of :: "double list \<Rightarrow> double" where
  "median_of samples =
     (if samples = [] then 0
      else let ys = sort samples; middle = length samples div 2
        in if length samples mod 2 = 0 then dbl (dbl (ys ! (middle - 1) + ys ! middle) / 2)
           else ys ! middle)"

definition repeatability_cv :: "double list \<Rightarrow> double" where
  "repeatability_cv values =
     (if length values < 2 then 0
      else let mean = mean_of values
        in if \<bar>mean\<bar> < dbl (1 / 10 ^ 12) then 0
           else dbl (dbl (100 * stddev_of values mean) / \<bar>mean\<bar>))"

definition align_samples :: "double list \<Rightarrow> double list \<Rightarrow> double list" where
  "align_samples first second = take (min (length first) (length second)) first"

definition average_blocks :: "double list \<Rightarrow> nat \<Rightarrow> double list" where
  "average_blocks samples window =
     (if samples = [] \<or> window = 0 then []
      else map (\<lambda>i. dbl (ldbl (foldl (\<lambda>sum j. ldbl (sum + samples ! (i * window + j))) 0 [0..<window]
                    / ldbl (of_nat window))))
             [0..<length samples div window])"

definition remove_mad_outliers :: "double list \<Rightarrow> double \<Rightarrow> double list" where
  "remove_mad_outliers samples threshold =
     (if length samples < 5 \<or> threshold \<le> 0 then samples
      else
        let median = median_of samples;
            mad = median_of (map (\<lambda>value. \<bar>dbl (value - median)\<bar>) samples)
        in if mad \<le> dbl (1 / 10 ^ 12) then samples
           else
             let scale = dbl (dbl (14826 / 10000) * mad)
             in filter (\<lambda>value. \<bar>dbl (value - median)\<bar> \<le> dbl (threshold * scale)) samples)"

record robust =
  input_count :: nat
  kept_count :: nat
  rejected_count :: nat
  r_mean :: double
  r_median :: double
  r_stddev :: double

definition robust_metrics :: "double list \<Rightarrow> double \<Rightarrow> robust" where
  "robust_metrics samples outlier_threshold =
     (let filtered = remove_mad_outliers samples outlier_threshold; mean = mean_of filtered
      in \<lparr>input_count = length samples, kept_count = length filtered,
          rejected_count = length samples - length filtered,
          r_mean = mean, r_median = median_of filtered, r_stddev = stddev_of filtered mean\<rparr>)"

text \<open>The default thresholds of the header.\<close>

definition outlier_default :: double where "outlier_default = 7 / 2"
definition tvla_default :: double where "tvla_default = 9 / 2"

definition snr_linear :: "double list \<Rightarrow> double list \<Rightarrow> double" where
  "snr_linear first second =
     (let a = robust_metrics first outlier_default; b = robust_metrics second outlier_default
      in if kept_count a < 2 \<or> kept_count b < 2 then 0
         else
           let signal = \<bar>dbl (r_mean a - r_mean b)\<bar>;
               noise = dsqrt (dbl (dbl (dbl (r_stddev a * r_stddev a) + dbl (r_stddev b * r_stddev b)) / 2))
           in if noise \<le> dbl (1 / 10 ^ 12) then 0 else dbl (signal / noise))"

definition classification_error_rate :: "double list \<Rightarrow> double list \<Rightarrow> double" where
  "classification_error_rate fixed_samples random_samples =
     (let fixed = robust_metrics fixed_samples outlier_default;
          random = robust_metrics random_samples outlier_default
      in if kept_count fixed = 0 \<or> kept_count random = 0 then 100
         else
           let threshold = dbl (dbl (r_mean fixed + r_mean random) / 2);
               errors = length (filter (\<lambda>value. threshold < value) fixed_samples)
                      + length (filter (\<lambda>value. value \<le> threshold) random_samples);
               total = length fixed_samples + length random_samples
           in if total = 0 then 100
              else dbl (dbl (100 * double_of_nat errors) / double_of_nat total))"

record tvla_result =
  fixed_count :: nat
  random_count :: nat
  fixed_mean :: double
  random_mean :: double
  fixed_stddev :: double
  random_stddev :: double
  t_statistic :: double
  abs_t :: double
  threshold_value :: double
  threshold_exceeded :: bool

definition welch_tvla :: "double list \<Rightarrow> double list \<Rightarrow> double \<Rightarrow> tvla_result" where
  "welch_tvla fixed_samples random_samples threshold =
     (let r0 = \<lparr>fixed_count = length fixed_samples, random_count = length random_samples,
            fixed_mean = 0, random_mean = 0, fixed_stddev = 0, random_stddev = 0,
            t_statistic = 0, abs_t = 0, threshold_value = threshold, threshold_exceeded = False\<rparr>
      in if length fixed_samples < 2 \<or> length random_samples < 2 then r0
         else
           let fm = mean_of fixed_samples; rm = mean_of random_samples;
               fs = stddev_of fixed_samples fm; rs = stddev_of random_samples rm;
               r1 = r0\<lparr>fixed_mean := fm, random_mean := rm, fixed_stddev := fs, random_stddev := rs\<rparr>;
               denominator = dsqrt (dbl (dbl (dbl (fs * fs) / double_of_nat (length fixed_samples))
                                       + dbl (dbl (rs * rs) / double_of_nat (length random_samples))))
           in if denominator \<le> dbl (1 / 10 ^ 12) then r1
              else
                let t = dbl (dbl (fm - rm) / denominator)
                in r1\<lparr>t_statistic := t, abs_t := \<bar>t\<bar>, threshold_exceeded := (threshold \<le> \<bar>t\<bar>)\<rparr>)"

section \<open>The synthetic fixture\<close>

record fixture =
  draws :: nat
  fixture_cpu :: "u64 machine"

definition mix :: "u64 \<Rightarrow> u64" where
  "mix x0 =
     (let x1 = x0 XOR drop_bit 13 x0; x2 = x1 * 0xBF58476D1CE4E5B9
      in x2 XOR drop_bit 17 x2)"

definition trace_sample ::
  "hardware \<Rightarrow> (nat \<Rightarrow> u8) \<Rightarrow> bool \<Rightarrow> bool \<Rightarrow> u64 \<Rightarrow> fixture \<Rightarrow> (exn + double \<times> u64) \<times> fixture" where
  "trace_sample hw byte_dist randomized leaky_fixture sink s =
     (let value = (if randomized then byte_dist (draws s) else 0xA5);
          s0 = (if randomized then s\<lparr>draws := Suc (draws s)\<rparr> else s);
          extra = (if leaky_fixture then unat (value AND 0x0F) else 0);
          rounds = 80 + extra * 8
      in case monotonic_raw_ns hw (fixture_cpu s0) of
           (Inl e, m1) \<Rightarrow> (Inl e, s0\<lparr>fixture_cpu := m1\<rparr>)
         | (Inr start, m1) \<Rightarrow>
             (let x = (mix ^^ rounds) (ucast value + 0x9E3779B97F4A7C15);
                  sink' = sink XOR x
              in case monotonic_raw_ns hw (emit [Store sink'] m1) of
                   (Inl e, m2) \<Rightarrow> (Inl e, s0\<lparr>fixture_cpu := m2\<rparr>)
                 | (Inr finish, m2) \<Rightarrow>
                     (Inr (double_of_u64 (finish - start), sink'), s0\<lparr>fixture_cpu := m2\<rparr>)))"

fun trace_loop ::
  "hardware \<Rightarrow> (nat \<Rightarrow> u8) \<Rightarrow> nat \<Rightarrow> bool \<Rightarrow> bool \<Rightarrow> u64 \<Rightarrow> double list \<Rightarrow> fixture
     \<Rightarrow> (exn + double list) \<times> fixture" where
  "trace_loop hw byte_dist 0 randomized leaky sink tr s = (Inr tr, s)"
| "trace_loop hw byte_dist (Suc n) randomized leaky sink tr s =
     (case trace_sample hw byte_dist randomized leaky sink s of
        (Inl e, s') \<Rightarrow> (Inl e, s')
      | (Inr (x, sink'), s') \<Rightarrow> trace_loop hw byte_dist n randomized leaky sink' (tr @ [x]) s')"

definition collect_trace ::
  "hardware \<Rightarrow> (nat \<Rightarrow> u8) \<Rightarrow> nat \<Rightarrow> bool \<Rightarrow> bool \<Rightarrow> fixture \<Rightarrow> (exn + double list) \<times> fixture" where
  "collect_trace hw byte_dist samples randomized leaky s =
     trace_loop hw byte_dist samples randomized leaky 0 [] s"

section \<open>The pipeline\<close>

record platform_signature =
  p_vendor :: string
  p_brand :: string
  p_os_release :: string
  p_machine :: string
  p_physical_cores :: int
  p_logical_cpus :: int
  p_packages :: int
  p_smt_active :: bool

record control_evaluation =
  control :: string
  scenario :: string
  expected_action :: string
  evidence :: string
  executed :: bool

definition control_matrix :: "control_evaluation list" where
  "control_matrix =
     [\<lparr>control = ''EDR'', scenario = ''simulated suspicious execution'',
       expected_action = ''alert and retain telemetry'',
       evidence = ''synthetic event only; no real process execution'', executed = False\<rparr>,
      \<lparr>control = ''DLP'', scenario = ''simulated sensitive-data export'',
       expected_action = ''alert or block the transfer'',
       evidence = ''synthetic event only; no data leaves the process'', executed = False\<rparr>,
      \<lparr>control = ''Microsegmentation'', scenario = ''simulated unauthorized network egress'',
       expected_action = ''deny the flow'',
       evidence = ''synthetic policy event only; no socket is opened'', executed = False\<rparr>,
      \<lparr>control = ''Least privilege'', scenario = ''simulated protected-resource access path'',
       expected_action = ''deny access'',
       evidence = ''synthetic authorization event only'', executed = False\<rparr>,
      \<lparr>control = ''Network monitoring'', scenario = ''simulated command-channel pattern'',
       expected_action = ''generate observable network telemetry'',
       evidence = ''synthetic event only; no command channel exists'', executed = False\<rparr>,
      \<lparr>control = ''Persistence monitoring'', scenario = ''simulated persistence attempt'',
       expected_action = ''alert and retain an audit event'',
       evidence = ''synthetic event only; no persistence mechanism is created'', executed = False\<rparr>,
      \<lparr>control = ''Stealth/evasion monitoring'', scenario = ''simulated defense-evasion indicator'',
       expected_action = ''raise a reviewable signal'',
       evidence = ''synthetic event only; no evasion logic is executed'', executed = False\<rparr>,
      \<lparr>control = ''Data-flow monitoring'', scenario = ''simulated sensitive-data path'',
       expected_action = ''track source-to-sink movement'',
       evidence = ''synthetic event only; data remains local'', executed = False\<rparr>]"

record evaluation_result =
  e_runs :: int
  trace_samples :: int
  averaging_window :: int
  simulated_capture_faults :: int
  recovered_captures :: int
  recovery_rate_percent :: double
  aligned_samples :: nat
  alignment_loss_percent :: double
  fixed_metrics :: robust
  random_metrics :: robust
  snr_value :: double
  snr_db :: double
  classification_error_percent :: double
  repeatability_cv_percent :: double
  tvla :: tvla_result
  repeatability_ok :: bool
  leakage_detected :: bool
  platform :: platform_signature
  controls :: "control_evaluation list"
  report_written :: bool
  report_path :: string

text \<open>The accumulators of the loop over runs: both sample vectors, the medians, faults, recoveries.\<close>

record run_state =
  fixed_all :: "double list"
  random_all :: "double list"
  run_medians :: "double list"
  faults :: int
  recovered :: int

definition add_pairs :: "nat \<Rightarrow> double list \<Rightarrow> double list \<Rightarrow> run_state \<Rightarrow> run_state" where
  "add_pairs window fixed random acc =
     (let fixed_averaged = average_blocks fixed window;
          random_averaged = average_blocks random window;
          aligned_fixed = align_samples fixed_averaged random_averaged
      in if aligned_fixed = [] then acc
         else acc\<lparr>fixed_all := fixed_all acc @ aligned_fixed,
                  random_all := random_all acc @ take (length aligned_fixed) random_averaged,
                  run_medians := run_medians acc @ [median_of aligned_fixed]\<rparr>)"

text \<open>In the first run the last 8 samples of the fixed class are lost and collected again.\<close>

definition repair ::
  "hardware \<Rightarrow> (nat \<Rightarrow> u8) \<Rightarrow> nat \<Rightarrow> double list \<Rightarrow> run_state \<Rightarrow> fixture \<Rightarrow> (exn + double list \<times> run_state) \<times> fixture" where
  "repair hw byte_dist samples fixed acc s =
     (case collect_trace hw byte_dist 8 False True s of
        (Inl e, s') \<Rightarrow> (Inl e, s')
      | (Inr recovery, s') \<Rightarrow>
          (let fixed' = take (length fixed - 8) fixed @ recovery
           in (Inr (fixed', acc\<lparr>faults := faults acc + 1,
                 recovered := (if length fixed' = samples then recovered acc + 1 else recovered acc)\<rparr>), s')))"

definition run_step ::
  "hardware \<Rightarrow> (nat \<Rightarrow> u8) \<Rightarrow> nat \<Rightarrow> nat \<Rightarrow> nat \<Rightarrow> run_state \<Rightarrow> fixture \<Rightarrow> (exn + run_state) \<times> fixture" where
  "run_step hw byte_dist samples window run acc s =
     (case collect_trace hw byte_dist samples False True s of (Inl e, s1) \<Rightarrow> (Inl e, s1) | (Inr fixed, s1) \<Rightarrow>
     (case collect_trace hw byte_dist samples True True s1 of (Inl e, s2) \<Rightarrow> (Inl e, s2) | (Inr random, s2) \<Rightarrow>
     (case (if run = 0 \<and> 8 < length fixed then repair hw byte_dist samples fixed acc s2
            else (Inr (fixed, acc), s2)) of
        (Inl e, s3) \<Rightarrow> (Inl e, s3)
      | (Inr (fixed', acc1), s3) \<Rightarrow> (Inr (add_pairs window fixed' random acc1), s3))))"

fun run_loop ::
  "hardware \<Rightarrow> (nat \<Rightarrow> u8) \<Rightarrow> nat \<Rightarrow> nat \<Rightarrow> nat \<Rightarrow> nat \<Rightarrow> run_state \<Rightarrow> fixture \<Rightarrow> (exn + run_state) \<times> fixture" where
  "run_loop hw byte_dist samples window run 0 acc s = (Inr acc, s)"
| "run_loop hw byte_dist samples window run (Suc n) acc s =
     (case run_step hw byte_dist samples window run acc s of
        (Inl e, s') \<Rightarrow> (Inl e, s')
      | (Inr acc', s') \<Rightarrow> run_loop hw byte_dist samples window (Suc run) n acc' s')"

definition no_metrics :: robust where
  "no_metrics = \<lparr>input_count = 0, kept_count = 0, rejected_count = 0, r_mean = 0, r_median = 0, r_stddev = 0\<rparr>"

definition no_tvla :: tvla_result where
  "no_tvla = \<lparr>fixed_count = 0, random_count = 0, fixed_mean = 0, random_mean = 0, fixed_stddev = 0,
     random_stddev = 0, t_statistic = 0, abs_t = 0, threshold_value = tvla_default, threshold_exceeded = False\<rparr>"

definition initial_result :: "platform_signature \<Rightarrow> int \<Rightarrow> int \<Rightarrow> nat \<Rightarrow> string \<Rightarrow> evaluation_result" where
  "initial_result sig runs samples window path =
     \<lparr>e_runs = runs, trace_samples = samples, averaging_window = sint (of_nat window :: u32),
      simulated_capture_faults = 0, recovered_captures = 0, recovery_rate_percent = 0,
      aligned_samples = 0, alignment_loss_percent = 0, fixed_metrics = no_metrics, random_metrics = no_metrics,
      snr_value = 0, snr_db = 0, classification_error_percent = 0, repeatability_cv_percent = 0,
      tvla = no_tvla, repeatability_ok = False, leakage_detected = False,
      platform = sig, controls = control_matrix, report_written = False, report_path = path\<rparr>"

text \<open>The metrics that follow the loop; the second component is the TVLA of the cleaned samples.\<close>

definition conclude ::
  "(double \<Rightarrow> double) \<Rightarrow> nat \<Rightarrow> nat \<Rightarrow> nat \<Rightarrow> evaluation_result \<Rightarrow> run_state \<Rightarrow> evaluation_result \<times> tvla_result" where
  "conclude log10 runs samples window r acc =
     (let fa = fixed_all acc; ra = random_all acc;
          requested_pairs = runs * samples div window;
          loss = (if 0 < requested_pairs
                  then dbl (100 * dbl (1 - dbl (double_of_nat (length fa) / double_of_nat requested_pairs)))
                  else 0);
          snr = snr_linear fa ra;
          err = classification_error_rate fa ra;
          raw = welch_tvla fa ra tvla_default;
          clean = welch_tvla (average_blocks (remove_mad_outliers fa outlier_default) 1)
                             (average_blocks (remove_mad_outliers ra outlier_default) 1) tvla_default;
          cv = repeatability_cv (run_medians acc);
          recovery = (if faults acc = 0 then 100
                      else dbl (dbl (100 * dbl (of_int (recovered acc))) / dbl (of_int (faults acc))))
      in (r\<lparr>simulated_capture_faults := faults acc, recovered_captures := recovered acc,
            aligned_samples := length fa, alignment_loss_percent := loss,
            fixed_metrics := robust_metrics fa outlier_default,
            random_metrics := robust_metrics ra outlier_default,
            snr_value := snr, snr_db := (if 0 < snr then dbl (20 * log10 snr) else 0),
            classification_error_percent := err, tvla := raw,
            repeatability_cv_percent := cv, recovery_rate_percent := recovery,
            repeatability_ok := (cv \<le> 10 \<and> err \<le> 5),
            leakage_detected := (threshold_exceeded raw \<or> threshold_exceeded clean)\<rparr>, clean))"

section \<open>The report\<close>

definition number :: "nat \<Rightarrow> string" where "number n = to_dec n"

definition control_member :: "control_evaluation \<Rightarrow> (string \<times> string) list" where
  "control_member c =
     [(''control'', json_string (control c)), (''scenario'', json_string (scenario c)),
      (''expected_action'', json_string (expected_action c)), (''executed'', bool_text (executed c)),
      (''evidence'', json_string (evidence c))]"

definition platform_members :: "platform_signature \<Rightarrow> (string \<times> string) list" where
  "platform_members p =
     [(''vendor'', json_string (p_vendor p)), (''brand'', json_string (p_brand p)),
      (''os_release'', json_string (p_os_release p)), (''machine'', json_string (p_machine p)),
      (''physical_cores'', to_string (p_physical_cores p)),
      (''logical_cpus'', to_string (p_logical_cpus p)), (''packages'', to_string (p_packages p)),
      (''smt_active'', bool_text (p_smt_active p))]"

definition report_members :: "evaluation_result \<Rightarrow> tvla_result \<Rightarrow> double list \<Rightarrow> (string \<times> string) list" where
  "report_members r clean medians =
     [(''lab'', json_string ''evaluation_validation_lab''),
      (''scope'', json_string ''local_synthetic_reference_fixture''),
      (''runs'', to_string (e_runs r)), (''trace_samples'', to_string (trace_samples r)),
      (''averaging_window'', to_string (averaging_window r)),
      (''simulated_capture_faults'', to_string (simulated_capture_faults r)),
      (''recovered_captures'', to_string (recovered_captures r)),
      (''recovery_rate_percent'', show_fixed 4 (recovery_rate_percent r)),
      (''aligned_samples'', number (aligned_samples r)),
      (''alignment_loss_percent'', show_fixed 4 (alignment_loss_percent r)),
      (''fixed_input_count'', number (input_count (fixed_metrics r))),
      (''fixed_kept_count'', number (kept_count (fixed_metrics r))),
      (''fixed_rejected_count'', number (rejected_count (fixed_metrics r))),
      (''random_input_count'', number (input_count (random_metrics r))),
      (''random_kept_count'', number (kept_count (random_metrics r))),
      (''random_rejected_count'', number (rejected_count (random_metrics r))),
      (''snr_linear'', show_fixed 4 (snr_value r)), (''snr_db'', show_fixed 4 (snr_db r)),
      (''classification_error_percent'', show_fixed 4 (classification_error_percent r)),
      (''repeatability_cv_percent'', show_fixed 4 (repeatability_cv_percent r)),
      (''tvla_raw_t'', show_fixed 4 (t_statistic (tvla r))), (''tvla_clean_t'', show_fixed 4 (t_statistic clean)),
      (''tvla_threshold'', show_fixed 4 (threshold_value (tvla r))),
      (''tvla_raw_threshold_exceeded'', bool_text (threshold_exceeded (tvla r))),
      (''tvla_clean_threshold_exceeded'', bool_text (threshold_exceeded clean)),
      (''repeatability_ok'', bool_text (repeatability_ok r)),
      (''leakage_detected'', bool_text (leakage_detected r)),
      (''acceptance_criteria'', json_object 2
         [(''repeatability_cv_percent_max'', ''10.0''), (''classification_error_percent_max'', ''5.0''),
          (''tvla_reference_threshold'', ''4.5'')]),
      (''platform'', json_object 2 (platform_members (platform r))),
      (''run_medians'', ''['' @ separated '', '' (map (show_fixed 4) medians) @ '']''),
      (''control_evaluation'', json_objects 2 (map control_member (controls r)))]"

definition report_text :: "evaluation_result \<Rightarrow> tvla_result \<Rightarrow> double list \<Rightarrow> string" where
  "report_text r clean medians = json_object 0 (report_members r clean medians) @ [CHR 0x0A]"

text \<open>\<open>EvaluationLab::run\<close>: the result and the report when the file could be written.\<close>

definition run ::
  "(double \<Rightarrow> double) \<Rightarrow> platform_signature \<Rightarrow> (string \<Rightarrow> bool) \<Rightarrow> hardware \<Rightarrow> (nat \<Rightarrow> u8)
     \<Rightarrow> int \<Rightarrow> int \<Rightarrow> nat \<Rightarrow> string \<Rightarrow> fixture \<Rightarrow> (exn + evaluation_result \<times> string option) \<times> fixture" where
  "run log10 sig writable hw byte_dist runs samples window path s =
     (let r0 = initial_result sig runs samples window path in
      if runs \<le> 0 \<or> samples \<le> 0 \<or> window = 0 \<or> path = [] then (Inr (r0, None), s)
      else case run_loop hw byte_dist (nat samples) window 0 (nat runs)
             \<lparr>fixed_all = [], random_all = [], run_medians = [], faults = 0, recovered = 0\<rparr> s of
          (Inl e, s') \<Rightarrow> (Inl e, s')
        | (Inr acc, s') \<Rightarrow>
            (let (r1, clean) = conclude log10 (nat runs) (nat samples) window r0 acc
             in (Inr (if writable path
                      then (r1\<lparr>report_written := True\<rparr>, Some (report_text r1 clean (run_medians acc)))
                      else (r1, None)), s')))"

section \<open>Lemmas on the statistics\<close>

subsection \<open>Agreement with the summaries\<close>

lemma mean_of_sample: "xs \<noteq> [] \<Longrightarrow> mean_of xs = sample_mean xs"
  by (simp add: mean_of_def sample_mean_def acc_sum_def)

lemma stddev_of_sample: "2 \<le> length xs \<Longrightarrow> stddev_of xs m = sample_stddev xs m"
  by (simp add: stddev_of_def sample_stddev_def squared_deviations_def)

lemma stddev_of_nonneg: "0 \<le> stddev_of xs m"
  using sample_stddev_nonneg [of xs m] stddev_of_sample [of xs m]
  by (cases "2 \<le> length xs") (simp_all add: stddev_of_def)

lemma median_of_half: "dbl (dbl x / 2) = dbl (x / 2)"
  by (simp add: fl_half dbl.idem)

lemma median_of_summary:
  assumes "xs \<noteq> []" "length xs \<le> 2 ^ 53" "\<And>x. x \<in> set xs \<Longrightarrow> is_double x"
  shows "median_of xs = s_median (summarize xs)"
proof -
  have ne: "sort xs \<noteq> []" using assms(1) by (metis set_empty set_sort)
  have "even (length xs) \<longleftrightarrow> length xs mod 2 = 0" by (rule even_iff_mod_2_eq_zero)
  then show ?thesis
    using assms quantile_median [OF ne]
    by (auto simp: median_of_def s_median_summarize median_of_half Let_def)
qed

interpretation median: estimator median_of
proof
  fix xs ys :: "double list"
  assume m: "mset xs = mset ys"
  then have "sort xs = sort ys" "length xs = length ys" "xs = [] \<longleftrightarrow> ys = []"
    using sort_cong_mset mset_eq_length by auto
  then show "median_of xs = median_of ys" unfolding median_of_def Let_def by simp
next
  fix xs :: "double list" and lo hi
  assume ne: "xs \<noteq> []" and b: "\<And>x. x \<in> set xs \<Longrightarrow> is_double x \<and> lo \<le> x \<and> x \<le> hi"
  let ?k = "length xs div 2"
  have "sort xs ! ?k \<in> set xs" "sort xs ! (?k - 1) \<in> set xs"
    using half_less_length [OF ne] by (simp_all add: sort_nth_mem)
  then have "is_double (sort xs ! ?k)" "lo \<le> sort xs ! ?k" "sort xs ! ?k \<le> hi"
    "is_double (sort xs ! (?k - 1))" "lo \<le> sort xs ! (?k - 1)" "sort xs ! (?k - 1) \<le> hi"
    using b by simp_all
  then show "lo \<le> median_of xs \<and> median_of xs \<le> hi"
    using dbl.midpoint_between [of "sort xs ! (?k - 1)" "sort xs ! ?k" lo hi] ne
    by (auto simp: median_of_def Let_def)
qed

lemma is_double_median: "(\<And>x. x \<in> set xs \<Longrightarrow> is_double x) \<Longrightarrow> is_double (median_of xs)"
  using half_less_length [of xs] sort_nth_mem [of "length xs div 2" xs]
  by (auto simp: median_of_def Let_def dbl.idem)

text \<open>At least half of the samples are at most the median.\<close>

lemma median_of_rank:
  assumes "xs \<noteq> []" "\<And>x. x \<in> set xs \<Longrightarrow> is_double x"
  shows "length xs \<le> 2 * length (filter (\<lambda>x. x \<le> median_of xs) xs)"
proof -
  let ?n = "length xs"
  define i where "i = (if even ?n then ?n div 2 - 1 else ?n div 2)"
  have "i \<le> ?n div 2" by (simp add: i_def)
  then have i: "i < ?n" "?n \<le> 2 * (i + 1)"
    using half_less_length [OF assms(1)] by (simp, cases "even ?n") (auto simp: i_def elim!: evenE oddE)
  have "sort xs ! i \<le> median_of xs"
  proof (cases "even ?n")
    case True
    let ?a = "sort xs ! (?n div 2 - 1)" and ?b = "sort xs ! (?n div 2)"
    have "?a \<in> set xs" "?b \<in> set xs" using half_less_length [OF assms(1)] by (simp_all add: sort_nth_mem)
    moreover have "?a \<le> ?b" using half_less_length [OF assms(1)] by (intro sort_nth_mono) simp_all
    ultimately show ?thesis
      using assms True dbl.midpoint(1) [of ?a ?b] by (simp add: median_of_def i_def Let_def)
  next
    case False
    have "i = ?n div 2" using False by (simp add: i_def)
    moreover have "median_of xs = sort xs ! (?n div 2)"
      using False assms(1) by (simp add: median_of_def Let_def even_iff_mod_2_eq_zero)
    ultimately show ?thesis by simp
  qed
  then have "length (filter (\<lambda>x. x \<le> sort xs ! i) xs) \<le> length (filter (\<lambda>x. x \<le> median_of xs) xs)"
    by (intro length_filter_mono) simp
  with rank_below [OF i(1)] have "i + 1 \<le> length (filter (\<lambda>x. x \<le> median_of xs) xs)"
    by (rule order_trans)
  then have "2 * (i + 1) \<le> 2 * length (filter (\<lambda>x. x \<le> median_of xs) xs)" by (rule mult_le_mono2)
  with i(2) show ?thesis by (rule order_trans)
qed

subsection \<open>The outlier filter\<close>

lemma dbl_ge_1: "1 \<le> c \<Longrightarrow> 0 \<le> x \<Longrightarrow> is_double x \<Longrightarrow> x \<le> dbl (c * x)"
  by (rule dbl.le_iff) (simp_all add: mult_right_mono [of 1 c x, simplified])

lemma mad_constant: "1 \<le> dbl (14826 / 10000)"
  by (rule dbl.le_iff) simp_all

lemma remove_subset: "set (remove_mad_outliers xs th) \<subseteq> set xs"
  by (auto simp: remove_mad_outliers_def Let_def)

lemma length_remove_le: "length (remove_mad_outliers xs th) \<le> length xs"
  by (simp add: remove_mad_outliers_def Let_def)

lemma remove_keeps_half:
  assumes "\<And>x. x \<in> set xs \<Longrightarrow> is_double x" "1 \<le> th"
  shows "length xs \<le> 2 * length (remove_mad_outliers xs th)"
proof (cases "length xs < 5")
  case True
  then show ?thesis by (simp add: remove_mad_outliers_def)
next
  case False
  let ?m = "median_of xs"
  let ?d = "map (\<lambda>v. \<bar>dbl (v - ?m)\<bar>) xs"
  let ?mad = "median_of ?d"
  let ?scale = "dbl (dbl (14826 / 10000) * ?mad)"
  have ne: "?d \<noteq> []" using False by auto
  have d: "is_double x \<and> 0 \<le> x" if "x \<in> set ?d" for x
    using that by (auto simp: dbl.abs dbl.idem)
  have mad: "0 \<le> ?mad" using median.nonneg [OF ne d] .
  have "is_double ?mad" using d by (intro is_double_median) blast
  then have "?mad \<le> ?scale" by (rule dbl_ge_1 [OF mad_constant mad])
  then have "?mad \<le> dbl (th * ?scale)"
    using dbl_ge_1 [of th ?scale] assms(2) mad by (simp add: dbl.idem)
  then have "length (filter (\<lambda>x. x \<le> ?mad) ?d) \<le> length (filter (\<lambda>x. x \<le> dbl (th * ?scale)) ?d)"
    by (intro length_filter_mono) simp
  moreover have "length ?d \<le> 2 * length (filter (\<lambda>x. x \<le> ?mad) ?d)"
    using d by (intro median_of_rank [OF ne]) blast
  ultimately show ?thesis
    by (simp add: remove_mad_outliers_def Let_def filter_map comp_def)
qed

subsection \<open>Constant samples\<close>

lemma mean_of_const:
  assumes "0 < n" "n * c \<le> 2 ^ 64" "c \<le> 2 ^ 53" "n \<le> 2 ^ 64"
  shows "mean_of (replicate n (of_nat c)) = of_nat c"
  using sample_mean_const [OF assms] assms(1) by (simp add: mean_of_sample)

lemma stddev_of_const: "stddev_of (replicate n m) m = 0"
  using stddev_of_sample [of "replicate n m" m] sample_stddev_const [of n m]
  by (cases "2 \<le> n") (simp_all add: stddev_of_def)

lemma tiny_nonneg: "0 \<le> dbl (1 / 10 ^ 12)"
  by (rule dbl.nonneg) simp

lemma remove_const: "is_double c \<Longrightarrow> 0 < n \<Longrightarrow> remove_mad_outliers (replicate n c) th = replicate n c"
  using median.const [of c n] median.const [of 0 n] tiny_nonneg
  by (simp add: remove_mad_outliers_def Let_def map_replicate)

lemma robust_const:
  assumes "0 < n" "n * c \<le> 2 ^ 64" "c \<le> 2 ^ 53" "n \<le> 2 ^ 64"
  shows "robust_metrics (replicate n (of_nat c)) th
     = \<lparr>input_count = n, kept_count = n, rejected_count = 0, r_mean = of_nat c, r_median = of_nat c, r_stddev = 0\<rparr>"
proof -
  have "is_double (of_nat c)" using assms(3) by (intro fl_of_nat) simp_all
  then show ?thesis
    using remove_const [of "of_nat c" n th] median.const [of "of_nat c" n] assms(1)
    by (simp add: robust_metrics_def mean_of_const [OF assms] stddev_of_const Let_def)
qed

subsection \<open>Classification errors\<close>

lemma classification_range:
  assumes "length xs + length ys \<le> 2 ^ 46"
  shows "0 \<le> classification_error_rate xs ys \<and> classification_error_rate xs ys \<le> 100"
proof -
  have le: "length (filter (\<lambda>v. th < v) xs) + length (filter (\<lambda>v. v \<le> th) ys) \<le> length xs + length ys" for th
    by (intro add_mono length_filter_le)
  show ?thesis
    using dbl_percentage [OF le _ assms] by (auto simp: classification_error_rate_def Let_def)
qed

text \<open>The threshold between two constants: no sample is on the wrong side.\<close>

lemma classification_const:
  assumes "c < d" "c + d \<le> 2 ^ 53"
  shows "\<not> dbl (dbl (of_nat c + of_nat d) / 2) < of_nat c" "\<not> (of_nat d :: real) \<le> dbl (dbl (of_nat c + of_nat d) / 2)"
proof -
  have "dbl (of_nat (c + d)) = of_nat (c + d)" using assms(2) by (intro fl_of_nat) simp_all
  then have "dbl (dbl (of_nat c + of_nat d) / 2) = (of_nat c + of_nat d) / 2" by (simp add: fl_half)
  then show "\<not> dbl (dbl (of_nat c + of_nat d) / 2) < of_nat c" "\<not> (of_nat d :: real) \<le> dbl (dbl (of_nat c + of_nat d) / 2)"
    using assms(1) by simp_all
qed

subsection \<open>Block averages and the fixture\<close>

lemma length_average_blocks: "length (average_blocks xs w) = (if w = 0 then 0 else length xs div w)"
  by (simp add: average_blocks_def)

lemma is_double_average: "x \<in> set (average_blocks xs w) \<Longrightarrow> is_double x"
  by (auto simp: average_blocks_def dbl.idem split: if_splits)

lemma length_align [simp]: "length (align_samples xs ys) = min (length xs) (length ys)"
  by (simp add: align_samples_def)

lemma trace_sample_ok:
  assumes "\<And>k. clock_raw hw k \<noteq> None"
  shows "\<exists>x sink' s'. trace_sample hw bd rnd leaky sink s = (Inr (x, sink'), s')"
proof -
  have "\<exists>v m'. monotonic_raw_ns hw m = (Inr v, m')" for m :: "u64 machine"
    using assms [of "clock_reads m"] by (auto simp: monotonic_raw_ns_def)
  then show ?thesis
    by (auto simp: trace_sample_def Let_def split: sum.splits prod.splits) (metis prod.inject sum.distinct(1))+
qed

lemma trace_loop_ok:
  assumes "\<And>k. clock_raw hw k \<noteq> None"
  shows "\<exists>tr' s'. trace_loop hw bd n rnd leaky sink tr s = (Inr tr', s') \<and> length tr' = length tr + n"
proof (induction n arbitrary: sink tr s)
  case (Suc n)
  obtain x sink' s' where "trace_sample hw bd rnd leaky sink s = (Inr (x, sink'), s')"
    using trace_sample_ok [OF assms] by metis
  then show ?case using Suc.IH [of sink' "tr @ [x]" s'] by simp
qed simp

lemma collect_trace_ok:
  assumes "\<And>k. clock_raw hw k \<noteq> None"
  obtains tr s' where "collect_trace hw bd n rnd leaky s = (Inr tr, s')" "length tr = n"
  using trace_loop_ok [OF assms, of bd n rnd leaky 0 "[]" s] by (auto simp: collect_trace_def)

subsection \<open>The loop over runs\<close>

definition advanced :: "nat \<Rightarrow> int \<Rightarrow> run_state \<Rightarrow> run_state \<Rightarrow> bool" where
  "advanced n f acc acc' \<longleftrightarrow>
     length (fixed_all acc') = length (fixed_all acc) + n \<and> length (random_all acc') = length (random_all acc) + n
     \<and> faults acc' = faults acc + f \<and> recovered acc' = recovered acc + f
     \<and> ((\<forall>x\<in>set (fixed_all acc) \<union> set (random_all acc). is_double x)
         \<longrightarrow> (\<forall>x\<in>set (fixed_all acc') \<union> set (random_all acc'). is_double x))"

lemma advanced_trans: "advanced m f a b \<Longrightarrow> advanced n g b c \<Longrightarrow> advanced (m + n) (f + g) a c"
  by (simp add: advanced_def)

lemma set_align: "x \<in> set (align_samples xs ys) \<Longrightarrow> x \<in> set xs"
  by (auto simp: align_samples_def dest: in_set_takeD)

lemma add_pairs_ok:
  assumes "length fixed = samples" "length random = samples" "0 < window"
  shows "advanced (samples div window) 0 acc (add_pairs window fixed random acc)"
proof -
  let ?fa = "average_blocks fixed window" and ?ra = "average_blocks random window"
  have len: "length ?fa = samples div window" "length ?ra = samples div window"
    using assms by (simp_all add: length_average_blocks)
  have "is_double x" if "x \<in> set (align_samples ?fa ?ra) \<union> set (take k ?ra)" for x k
    using that is_double_average set_align in_set_takeD by fast
  moreover have "samples div window = 0" if "align_samples ?fa ?ra = []"
    using arg_cong [OF that, of length] len by simp
  ultimately show ?thesis
    by (auto simp: add_pairs_def Let_def advanced_def len dest: is_double_average)
qed

lemma run_step_ok:
  assumes clock: "\<And>k. clock_raw hw k \<noteq> None" and "0 < window"
  shows "\<exists>acc' s'. run_step hw bd samples window i acc s = (Inr acc', s')
     \<and> advanced (samples div window) (of_bool (i = 0 \<and> 8 < samples)) acc acc'"
proof -
  obtain fixed s1 where f: "collect_trace hw bd samples False True s = (Inr fixed, s1)" "length fixed = samples"
    by (rule collect_trace_ok [OF clock])
  obtain random s2 where r: "collect_trace hw bd samples True True s1 = (Inr random, s2)" "length random = samples"
    by (rule collect_trace_ok [OF clock])
  obtain recovery s3 where c: "collect_trace hw bd 8 False True s2 = (Inr recovery, s3)" "length recovery = 8"
    by (rule collect_trace_ok [OF clock])
  show ?thesis
  proof (cases "i = 0 \<and> 8 < samples")
    case True
    let ?fixed = "take (samples - 8) fixed @ recovery"
    let ?acc = "acc\<lparr>faults := faults acc + 1, recovered := recovered acc + 1\<rparr>"
    have "length ?fixed = samples" using True f(2) c(2) by simp
    from add_pairs_ok [OF this r(2) assms(2), of ?acc]
    have "advanced (samples div window) 1 acc (add_pairs window ?fixed random ?acc)"
      by (simp add: advanced_def)
    moreover have "repair hw bd samples fixed acc s2 = (Inr (?fixed, ?acc), s3)"
      using True f(2) c by (simp add: repair_def)
    ultimately show ?thesis using True f r by (simp add: run_step_def)
  next
    case False
    then show ?thesis using f r add_pairs_ok [OF f(2) r(2) assms(2), of acc]
      by (auto simp: run_step_def)
  qed
qed

lemma run_loop_ok:
  assumes clock: "\<And>k. clock_raw hw k \<noteq> None" and "0 < window"
  shows "\<exists>acc' s'. run_loop hw bd samples window i n acc s = (Inr acc', s')
     \<and> advanced (n * (samples div window)) (of_bool (i = 0 \<and> 0 < n \<and> 8 < samples)) acc acc'"
proof (induction n arbitrary: i acc s)
  case 0
  then show ?case by (simp add: advanced_def)
next
  case (Suc n)
  obtain acc1 s1 where 1: "run_step hw bd samples window i acc s = (Inr acc1, s1)"
    "advanced (samples div window) (of_bool (i = 0 \<and> 8 < samples)) acc acc1"
    using run_step_ok [OF assms] by metis
  obtain acc2 s2 where 2: "run_loop hw bd samples window (Suc i) n acc1 s1 = (Inr acc2, s2)"
    "advanced (n * (samples div window)) 0 acc1 acc2"
    using Suc.IH [of "Suc i" acc1 s1] by auto
  show ?case using 1(1) 2(1) advanced_trans [OF 1(2) 2(2)] by simp
qed

section \<open>Properties\<close>

text \<open>C29: the lab's own statistics are those of the summary: mean, median and deviation of at most 2^53
  samples agree with \<open>Statistics::summarize\<close> bit for bit, although the median is computed by another
  formula.\<close>

theorem lab_statistics_agree:
  assumes "xs \<noteq> []" "length xs \<le> 2 ^ 53" "\<forall>x\<in>set xs. is_double x"
  shows "mean_of xs = s_mean (summarize xs) \<and> median_of xs = s_median (summarize xs)
     \<and> stddev_of xs (mean_of xs) = s_stddev (summarize xs)"
proof -
  have "stddev_of xs (mean_of xs) = s_stddev (summarize xs)"
    using assms(1) by (cases "2 \<le> length xs")
      (simp_all add: mean_of_sample s_stddev_summarize stddev_of_sample, simp add: stddev_of_def)
  then show ?thesis
    using assms median_of_summary [OF assms(1,2)] by (simp add: mean_of_sample s_mean_summarize)
qed

theorem lab_statistics_agree_witness:
  "median_of [5, 1, 4, 2] = s_median (summarize [5, 1, 4, 2])"
proof -
  have "is_double 5" "is_double 1" "is_double 4" "is_double 2" by code_simp+
  then show ?thesis using lab_statistics_agree [of "[5, 1, 4, 2]"] by simp
qed

text \<open>the outlier filter with a threshold of at least 1 keeps at least half of the samples, in their
  order, whatever the roundings of the deviations and of the scale do; the counters of the robust metrics
  add up.\<close>

theorem outlier_filter_keeps_half:
  assumes "\<forall>x\<in>set xs. is_double x" "1 \<le> th"
  shows "length xs \<le> 2 * kept_count (robust_metrics xs th)
     \<and> kept_count (robust_metrics xs th) + rejected_count (robust_metrics xs th) = input_count (robust_metrics xs th)
     \<and> input_count (robust_metrics xs th) = length xs
     \<and> (\<exists>P. remove_mad_outliers xs th = filter P xs)"
proof -
  have "\<exists>P. remove_mad_outliers xs th = filter P xs"
    by (auto simp: remove_mad_outliers_def Let_def intro: exI [of _ "\<lambda>_. True"])
  then show ?thesis
    using remove_keeps_half [of xs th] assms length_remove_le [of xs th]
    by (simp add: robust_metrics_def Let_def)
qed

theorem outlier_filter_keeps_half_witness:
  "5 \<le> 2 * kept_count (robust_metrics [10, 11, 12, 13, 100] (7 / 2))"
proof -
  have "is_double 10" "is_double 11" "is_double 12" "is_double 13" "is_double 100" by code_simp+
  then show ?thesis using outlier_filter_keeps_half [of "[10, 11, 12, 13, 100]" "7 / 2"] by simp
qed

text \<open>Exchanging the two classes negates Welch's t exactly and keeps its magnitude and the verdict; the
  signal-to-noise ratio does not depend on the order of the classes either.\<close>

theorem class_order_symmetry:
  "t_statistic (welch_tvla ys xs th) = - t_statistic (welch_tvla xs ys th)
     \<and> abs_t (welch_tvla ys xs th) = abs_t (welch_tvla xs ys th)
     \<and> threshold_exceeded (welch_tvla ys xs th) = threshold_exceeded (welch_tvla xs ys th)
     \<and> snr_linear ys xs = snr_linear xs ys"
proof -
  have neg: "dbl (dbl (a - b) / d) = - dbl (dbl (b - a) / d)" for a b d
    using fl_minus [of 53 "b - a"] fl_minus [of 53 "dbl (b - a) / d"] by simp
  have abs: "\<bar>dbl (a - b)\<bar> = \<bar>dbl (b - a)\<bar>" for a b
    using fl_minus [of 53 "b - a"] by simp
  show ?thesis
    using neg [of "mean_of ys" "mean_of xs"]
      abs [of "r_mean (robust_metrics ys outlier_default)" "r_mean (robust_metrics xs outlier_default)"]
    by (simp add: welch_tvla_def snr_linear_def Let_def add.commute disj_commute)
qed

text \<open>C30: a defect: leakage without noise is not detected.  Two constant classes leak as clearly as two classes
  can: the reported means are the two constants, and the classifier of the lab separates the classes without an
  error.  Both deviations are 0, though, so the guards against a vanishing denominator return before t and the
  signal-to-noise ratio are computed: t and the ratio stay 0 and the threshold is never exceeded, whatever the
  distance of the classes.  \<open>tests/evaluation_test.cpp\<close> asserts the contrary for 100 samples of 10 and 100 of 20.\<close>

theorem constant_classes_not_detected:
  assumes n: "0 < n" "n * c \<le> 2 ^ 64" "c \<le> 2 ^ 53" "n \<le> 2 ^ 64"
    and k: "0 < k" "k * d \<le> 2 ^ 64" "d \<le> 2 ^ 53" "k \<le> 2 ^ 64"
  defines "xs \<equiv> replicate n (of_nat c)" and "ys \<equiv> replicate k (of_nat d)"
  shows "(c < d \<and> c + d \<le> 2 ^ 53 \<longrightarrow> classification_error_rate xs ys = 0)
     \<and> (2 \<le> n \<and> 2 \<le> k \<longrightarrow> fixed_mean (welch_tvla xs ys th) = of_nat c \<and> random_mean (welch_tvla xs ys th) = of_nat d)
     \<and> t_statistic (welch_tvla xs ys th) = 0 \<and> abs_t (welch_tvla xs ys th) = 0
     \<and> \<not> threshold_exceeded (welch_tvla xs ys th) \<and> snr_linear xs ys = 0"
proof -
  note const = robust_const [OF n] robust_const [OF k] mean_of_const [OF n] mean_of_const [OF k]
  have "classification_error_rate xs ys = 0" if "c < d" "c + d \<le> 2 ^ 53"
    using const classification_const [OF that] n(1) k(1) by (simp add: xs_def ys_def classification_error_rate_def Let_def)
  then show ?thesis
    using const tiny_nonneg by (simp add: xs_def ys_def welch_tvla_def snr_linear_def Let_def stddev_of_const)
qed

theorem constant_classes_not_detected_witness:
  "classification_error_rate (replicate 100 10) (replicate 100 20) = 0
     \<and> fixed_mean (welch_tvla (replicate 100 10) (replicate 100 20) (9 / 2)) = 10
     \<and> random_mean (welch_tvla (replicate 100 10) (replicate 100 20) (9 / 2)) = 20
     \<and> \<not> threshold_exceeded (welch_tvla (replicate 100 10) (replicate 100 20) (9 / 2))
     \<and> snr_linear (replicate 100 10) (replicate 100 20) = 0"
  using constant_classes_not_detected [of 100 10 100 20 "9 / 2"] by simp

text \<open>What the conclusion of the pipeline takes from the pooled samples: the parts of the report, each with its
  range.\<close>

lemma alignment_loss_range:
  assumes "0 < w"
  shows "0 \<le> dbl (100 * dbl (1 - dbl (double_of_nat (m * (n div w)) / double_of_nat (m * n div w))))
     \<and> dbl (100 * dbl (1 - dbl (double_of_nat (m * (n div w)) / double_of_nat (m * n div w)))) \<le> 100"
proof -
  have "n div w * w \<le> n" by (rule div_times_less_eq_dividend)
  then have "m * (n div w) * w \<le> m * n" by (simp add: mult.assoc)
  then have "m * (n div w) \<le> m * n div w" using assms by (simp add: less_eq_div_iff_mult_less_eq)
  note ratio = dbl_ratio [OF this]
  show ?thesis by (rule dbl_percent) (use ratio in \<open>auto intro: dbl.nonneg dbl.ge_iff\<close>)
qed

lemma conclude_result:
  assumes w: "0 < w" and len: "length (fixed_all acc) = n" "length (random_all acc) = n"
    and n: "n = m * (k div w)" "n \<le> 2 ^ 45"
    and doubles: "\<forall>x\<in>set (fixed_all acc) \<union> set (random_all acc). is_double x"
    and c: "conclude lg m k w init acc = (r, clean)"
  shows "aligned_samples r = n" "report_written r = report_written init"
    and "simulated_capture_faults r = faults acc" "recovered_captures r = recovered acc"
    and "0 \<le> alignment_loss_percent r" "alignment_loss_percent r \<le> 100"
    and "0 \<le> classification_error_percent r" "classification_error_percent r \<le> 100"
    and "input_count (fixed_metrics r) = n" "n \<le> 2 * kept_count (fixed_metrics r)"
    and "input_count (random_metrics r) = n" "n \<le> 2 * kept_count (random_metrics r)"
    and "faults acc = of_bool lost \<Longrightarrow> recovered acc = of_bool lost \<Longrightarrow> recovery_rate_percent r = 100"
proof -
  note parts = conclude_def Let_def
  show "aligned_samples r = n" "report_written r = report_written init"
    "simulated_capture_faults r = faults acc" "recovered_captures r = recovered acc"
    using c len by (auto simp: parts)
  have "alignment_loss_percent r = (if 0 < m * k div w
      then dbl (100 * dbl (1 - dbl (double_of_nat n / double_of_nat (m * k div w)))) else 0)"
    using c len by (auto simp: parts)
  then show "0 \<le> alignment_loss_percent r" "alignment_loss_percent r \<le> 100"
    using alignment_loss_range [OF w, of m k] n(1) by simp_all
  have "classification_error_percent r = classification_error_rate (fixed_all acc) (random_all acc)"
    using c by (auto simp: parts)
  then show "0 \<le> classification_error_percent r" "classification_error_percent r \<le> 100"
    using classification_range [of "fixed_all acc" "random_all acc"] len n(2) by simp_all
  have metrics: "fixed_metrics r = robust_metrics (fixed_all acc) outlier_default"
    "random_metrics r = robust_metrics (random_all acc) outlier_default"
    using c by (auto simp: parts)
  have half: "n \<le> 2 * length (remove_mad_outliers xs outlier_default)"
    if "length xs = n" "\<forall>x\<in>set xs. is_double x" for xs
    using remove_keeps_half [of xs outlier_default] that by (simp add: outlier_default_def)
  show "input_count (fixed_metrics r) = n" "n \<le> 2 * kept_count (fixed_metrics r)"
    "input_count (random_metrics r) = n" "n \<le> 2 * kept_count (random_metrics r)"
    using metrics half len doubles by (simp_all add: robust_metrics_def Let_def)
  show "recovery_rate_percent r = 100" if "faults acc = of_bool lost" "recovered acc = of_bool lost"
    using c that dbl_100 by (auto simp: parts)
qed

text \<open>C31: the pipeline with a working clock: each run contributes one pair per complete block, and no pair is
  lost or made up; the injected capture fault is always recovered; the loss and the error rate are
  percentages; the filters keep at least half of each class; and a report is written exactly when the file
  can be.\<close>

theorem pipeline_result:
  assumes "\<forall>k. clock_raw hw k \<noteq> None" "0 < runs" "0 < samples" "0 < window" "path \<noteq> []"
    and "nat runs * (nat samples div window) \<le> 2 ^ 45"
  shows "\<exists>r rep s'. run lg sig writable hw bd runs samples window path s = (Inr (r, rep), s')
     \<and> aligned_samples r = nat runs * (nat samples div window)
     \<and> simulated_capture_faults r = of_bool (8 < samples) \<and> recovered_captures r = of_bool (8 < samples)
     \<and> recovery_rate_percent r = 100
     \<and> 0 \<le> alignment_loss_percent r \<and> alignment_loss_percent r \<le> 100
     \<and> 0 \<le> classification_error_percent r \<and> classification_error_percent r \<le> 100
     \<and> input_count (fixed_metrics r) = aligned_samples r \<and> aligned_samples r \<le> 2 * kept_count (fixed_metrics r)
     \<and> input_count (random_metrics r) = aligned_samples r \<and> aligned_samples r \<le> 2 * kept_count (random_metrics r)
     \<and> (report_written r \<longleftrightarrow> writable path) \<and> (rep \<noteq> None \<longleftrightarrow> writable path)"
proof -
  let ?acc0 = "\<lparr>fixed_all = [], random_all = [], run_medians = [], faults = 0, recovered = 0\<rparr> :: run_state"
  let ?init = "initial_result sig runs samples window path"
  obtain acc s' where l: "run_loop hw bd (nat samples) window 0 (nat runs) ?acc0 s = (Inr acc, s')"
    and a: "advanced (nat runs * (nat samples div window)) (of_bool ((0::nat) = 0 \<and> 0 < nat runs \<and> 8 < nat samples)) ?acc0 acc"
    using run_loop_ok [of hw window bd "nat samples" 0 "nat runs" ?acc0 s] assms(1,4) by blast
  have f: "length (fixed_all acc) = nat runs * (nat samples div window)"
    "length (random_all acc) = nat runs * (nat samples div window)" "faults acc = of_bool (8 < samples)"
    "recovered acc = of_bool (8 < samples)" "\<forall>x\<in>set (fixed_all acc) \<union> set (random_all acc). is_double x"
    using a assms(2) by (auto simp: advanced_def)
  obtain r clean where c: "conclude lg (nat runs) (nat samples) window ?init acc = (r, clean)" by fastforce
  have i: "\<not> report_written ?init" by (simp add: initial_result_def)
  note r = conclude_result [OF assms(4) f(1,2) refl assms(6) f(5) c]
  let ?r = "if writable path then r\<lparr>report_written := True\<rparr> else r"
  let ?rep = "if writable path then Some (report_text r clean (run_medians acc)) else None"
  have "run lg sig writable hw bd runs samples window path s = (Inr (?r, ?rep), s')"
    using assms(2-5) by (simp add: run_def Let_def l c)
  then show ?thesis using r f(3,4) i by (intro exI [of _ ?r] exI [of _ ?rep] exI [of _ s']) simp
qed

theorem pipeline_result_witness:
  "\<exists>r rep s'. run (\<lambda>x. x) \<lparr>p_vendor = [], p_brand = [], p_os_release = [], p_machine = [],
       p_physical_cores = 1, p_logical_cpus = 1, p_packages = 1, p_smt_active = False\<rparr> (\<lambda>_. True)
       \<lparr>rdtscp = (\<lambda>_. (0, 0)), clock_raw = (\<lambda>k. Some (0, of_nat k))\<rparr> (\<lambda>_. 7) 3 18 4 ''r.json''
       \<lparr>draws = 0, fixture_cpu = \<lparr>tsc_reads = 0, clock_reads = 0, trace = []\<rparr>\<rparr> = (Inr (r, rep), s')
     \<and> aligned_samples r = 12 \<and> recovery_rate_percent r = 100 \<and> rep \<noteq> None"
  using pipeline_result [of "\<lparr>rdtscp = (\<lambda>_. (0, 0)), clock_raw = (\<lambda>k. Some (0, of_nat k))\<rparr>" 3 18 4 "''r.json''"
      "\<lambda>x. x" "\<lparr>p_vendor = [], p_brand = [], p_os_release = [], p_machine = [],
       p_physical_cores = 1, p_logical_cpus = 1, p_packages = 1, p_smt_active = False\<rparr>" "\<lambda>_. True" "\<lambda>_. 7"
      "\<lparr>draws = 0, fixture_cpu = \<lparr>tsc_reads = 0, clock_reads = 0, trace = []\<rparr>\<rparr>"]
  by auto

end
