(* ===== verification/Labs.thy ===== *)
theory Labs
  imports Spectre Json "HOL-Library.Monad_Syntax"
begin

text \<open>
  Model of \<open>src/operational_lab.cpp\<close> and \<open>src/defensive_lab.cpp\<close>: the fixed catalogues of synthetic
  events, the counters and rates, and the text of the two reports.  Products of \<open>int\<close> are kept in
  range: \<open>None\<close> stands for the undefined behaviour of an overflow.
\<close>

section \<open>Operational lab\<close>

record synthetic_event =
  ev_name :: string
  ev_stage :: string
  ev_control :: string
  detectable :: bool
  recoverable :: bool

definition scenario_catalog :: "synthetic_event list" where
  "scenario_catalog =
     [\<lparr>ev_name = ''synthetic_target_access'', ev_stage = ''target_access'', ev_control = ''EDR + least privilege'', detectable = True, recoverable = True\<rparr>,
      \<lparr>ev_name = ''synthetic_privilege_change'', ev_stage = ''privilege_attempt'', ev_control = ''least privilege'', detectable = True, recoverable = True\<rparr>,
      \<lparr>ev_name = ''synthetic_persistence'', ev_stage = ''persistence'', ev_control = ''persistence monitoring'', detectable = True, recoverable = True\<rparr>,
      \<lparr>ev_name = ''synthetic_defense_evasion'', ev_stage = ''evasion'', ev_control = ''EDR'', detectable = True, recoverable = True\<rparr>,
      \<lparr>ev_name = ''synthetic_command_channel'', ev_stage = ''command_and_control'', ev_control = ''network monitoring'', detectable = True, recoverable = True\<rparr>,
      \<lparr>ev_name = ''synthetic_sensitive_collection'', ev_stage = ''collection'', ev_control = ''DLP + data-flow monitoring'', detectable = True, recoverable = True\<rparr>,
      \<lparr>ev_name = ''synthetic_data_staging'', ev_stage = ''staging'', ev_control = ''DLP + EDR'', detectable = True, recoverable = True\<rparr>,
      \<lparr>ev_name = ''synthetic_data_transfer'', ev_stage = ''exfiltration'', ev_control = ''DLP + microsegmentation'', detectable = True, recoverable = True\<rparr>,
      \<lparr>ev_name = ''synthetic_cleanup'', ev_stage = ''recovery'', ev_control = ''incident response'', detectable = True, recoverable = True\<rparr>]"

record scenario_result =
  sc_name :: string
  sc_stage :: string
  expected_control :: string
  detected :: bool
  sc_recovered :: bool

record operational_result =
  op_runs :: int
  events_generated :: int
  detected_events :: int
  missed_events :: int
  false_positive_events :: int
  recovery_attempts :: int
  recovered_events :: int
  detection_rate :: double
  false_positive_rate :: double
  recovery_rate :: double
  reference_boundary :: string
  op_report_path :: string
  scenarios :: "scenario_result list"
  op_report_written :: bool

definition initial_operational :: "int \<Rightarrow> string \<Rightarrow> operational_result" where
  "initial_operational runs path =
     \<lparr>op_runs = runs, events_generated = 0, detected_events = 0, missed_events = 0,
      false_positive_events = 0, recovery_attempts = 0, recovered_events = 0, detection_rate = 0,
      false_positive_rate = 0, recovery_rate = 0,
      reference_boundary = ''in_memory_synthetic_state_machine'', op_report_path = path,
      scenarios = [], op_report_written = False\<rparr>"

definition play_event :: "operational_result \<Rightarrow> synthetic_event \<Rightarrow> operational_result" where
  "play_event r e =
     (let s = \<lparr>sc_name = ev_name e, sc_stage = ev_stage e, expected_control = ev_control e,
               detected = detectable e, sc_recovered = recoverable e\<rparr>;
          r1 = (if detected s then r\<lparr>detected_events := detected_events r + 1\<rparr>
                else r\<lparr>missed_events := missed_events r + 1\<rparr>);
          r2 = (if detected s \<and> sc_recovered s
                then r1\<lparr>recovery_attempts := recovery_attempts r1 + 1,
                        recovered_events := recovered_events r1 + 1\<rparr>
                else r1)
      in r2\<lparr>scenarios := scenarios r2 @ [s]\<rparr>)"

text \<open>\<open>100.0 * part / whole\<close> on counters.\<close>

definition percent :: "int \<Rightarrow> int \<Rightarrow> double" where
  "percent part whole = dbl (dbl (100 * dbl (of_int part)) / dbl (of_int whole))"

text \<open>Multiplication of \<open>int\<close> counters, undefined when it overflows.\<close>

definition times_i32 :: "int \<Rightarrow> int \<Rightarrow> int option" where
  "times_i32 a b = i32 (a * b)"

definition scale_counters :: "int \<Rightarrow> operational_result \<Rightarrow> operational_result option" where
  "scale_counters runs r =
     do {
       d \<leftarrow> times_i32 (detected_events r) runs;
       mi \<leftarrow> times_i32 (missed_events r) runs;
       ra \<leftarrow> times_i32 (recovery_attempts r) runs;
       re \<leftarrow> times_i32 (recovered_events r) runs;
       Some (r\<lparr>detected_events := d, missed_events := mi, recovery_attempts := ra, recovered_events := re\<rparr>)
     }"

definition set_rates :: "int \<Rightarrow> int \<Rightarrow> operational_result \<Rightarrow> operational_result" where
  "set_rates runs benign_events r0 =
     (let r = r0\<lparr>false_positive_events := runs\<rparr> in
      r\<lparr>detection_rate := (if events_generated r = 0 then 0 else percent (detected_events r) (events_generated r)),
        false_positive_rate := (if benign_events = 0 then 0 else percent (false_positive_events r) benign_events),
        recovery_rate := (if recovery_attempts r = 0 then 100
                          else percent (recovered_events r) (recovery_attempts r))\<rparr>)"

definition scenario_members :: "scenario_result \<Rightarrow> (string \<times> string) list" where
  "scenario_members s =
     [(''name'', json_string (sc_name s)), (''stage'', json_string (sc_stage s)),
      (''expected_control'', json_string (expected_control s)),
      (''detected'', bool_text (detected s)), (''recovered'', bool_text (sc_recovered s))]"

definition operational_report :: "operational_result \<Rightarrow> string" where
  "operational_report r = json_object 0
     [(''lab'', json_string ''operational_defensive_simulation''),
      (''reference_boundary'', json_string ''in_memory_synthetic_state_machine''),
      (''runs'', to_string (op_runs r)), (''events_generated'', to_string (events_generated r)),
      (''detected_events'', to_string (detected_events r)), (''missed_events'', to_string (missed_events r)),
      (''false_positive_events'', to_string (false_positive_events r)),
      (''recovery_attempts'', to_string (recovery_attempts r)),
      (''recovered_events'', to_string (recovered_events r)),
      (''detection_rate_percent'', show_fixed 2 (detection_rate r)),
      (''false_positive_rate_percent'', show_fixed 2 (false_positive_rate r)),
      (''recovery_rate_percent'', show_fixed 2 (recovery_rate r)),
      (''real_network_activity'', ''false''), (''real_persistence'', ''false''),
      (''real_privilege_change'', ''false''), (''external_process_access'', ''false''),
      (''scenarios'', json_objects 2 (map scenario_members (scenarios r)))] @ [CHR 0x0A]"

definition run_operational ::
  "(string \<Rightarrow> bool) \<Rightarrow> int \<Rightarrow> string \<Rightarrow> (operational_result \<times> string option) option" where
  "run_operational writable runs path =
     (let r0 = initial_operational runs path in
      if runs \<le> 0 \<or> path = [] then Some (r0, None)
      else do {
        generated \<leftarrow> times_i32 (int (length scenario_catalog)) runs;
        r1 \<leftarrow> scale_counters runs (foldl play_event (r0\<lparr>events_generated := generated\<rparr>) scenario_catalog);
        benign \<leftarrow> times_i32 runs 20;
        (let r2 = set_rates runs benign r1
         in if writable path then Some (r2\<lparr>op_report_written := True\<rparr>, Some (operational_report r2))
            else Some (r2, None))
      })"

section \<open>Defensive lab\<close>

record lab_event =
  le_name :: string
  le_action :: string
  le_disposition :: string
  le_alert :: bool
  le_confirmed :: bool

definition make_events :: "lab_event list" where
  "make_events =
     [\<lparr>le_name = ''spectre_reliability_fixture'', le_action = ''observe'', le_disposition = ''allowed_local_fixture'', le_alert = True, le_confirmed = True\<rparr>,
      \<lparr>le_name = ''simulated_local_collection'', le_action = ''simulate'', le_disposition = ''no_secret_export'', le_alert = True, le_confirmed = True\<rparr>,
      \<lparr>le_name = ''simulated_export'', le_action = ''simulate'', le_disposition = ''metrics_only_local_file'', le_alert = True, le_confirmed = True\<rparr>,
      \<lparr>le_name = ''network_egress'', le_action = ''simulate'', le_disposition = ''blocked_not_performed'', le_alert = False, le_confirmed = False\<rparr>,
      \<lparr>le_name = ''persistence'', le_action = ''simulate'', le_disposition = ''blocked_not_performed'', le_alert = False, le_confirmed = False\<rparr>]"

text \<open>The three alert counters: alerts, confirmed alerts, false positives.\<close>

definition count_alert :: "int \<times> int \<times> int \<Rightarrow> lab_event \<Rightarrow> int \<times> int \<times> int" where
  "count_alert c e =
     (let (alerts, confirmed, false_positives) = c in
      if le_alert e then
        if le_confirmed e then (alerts + 1, confirmed + 1, false_positives)
        else (alerts + 1, confirmed, false_positives + 1)
      else c)"

record defensive_result =
  df_runs :: int
  df_tries :: int
  byte_accuracy :: double
  exact_rate :: double
  simulated_alerts :: int
  simulated_confirmed :: int
  simulated_false_positives :: int
  df_report_written :: bool
  df_report_path :: string

definition event_members :: "lab_event \<Rightarrow> (string \<times> string) list" where
  "event_members e =
     [(''name'', json_string (le_name e)), (''action'', json_string (le_action e)),
      (''disposition'', json_string (le_disposition e)), (''alert'', bool_text (le_alert e)),
      (''confirmed'', bool_text (le_confirmed e))]"

definition defensive_report :: "lab_result \<Rightarrow> double \<Rightarrow> double \<Rightarrow> lab_event list \<Rightarrow> string" where
  "defensive_report spectre accuracy exact events =
     (let (alerts, confirmed, false_positives) = foldl count_alert (0, 0, 0) events in
      json_object 0
       [(''lab'', json_string ''phase5_defensive_lab''), (''scope'', json_string ''self_contained_local_fixture''),
        (''runs'', to_string (lab_runs spectre)), (''tries_per_byte'', to_string (tries_per_byte spectre)),
        (''byte_accuracy_percent'', show_fixed 2 accuracy), (''exact_recovery_rate_percent'', show_fixed 2 exact),
        (''simulated_alerts'', to_string alerts), (''simulated_confirmed_alerts'', to_string confirmed),
        (''simulated_false_positives'', to_string false_positives),
        (''network_access_performed'', ''false''), (''persistence_performed'', ''false''),
        (''external_process_access'', ''false''),
        (''events'', json_objects 2 (map event_members events))] @ [CHR 0x0A])"

definition byte_accuracy_percent :: "lab_result \<Rightarrow> double" where
  "byte_accuracy_percent spectre =
     (if total_bytes spectre = 0 then 0
      else dbl (dbl (100 * double_of_nat (correct_bytes spectre)) / double_of_nat (total_bytes spectre)))"

definition exact_recovery_rate :: "lab_result \<Rightarrow> double" where
  "exact_recovery_rate spectre =
     (if lab_runs spectre = 0 then 0 else percent (exact_matches spectre) (lab_runs spectre))"

definition run_defensive ::
  "(string \<Rightarrow> bool) \<Rightarrow> hardware \<Rightarrow> int \<Rightarrow> int \<Rightarrow> string \<Rightarrow> spectre_state
     \<Rightarrow> ((defensive_result \<times> string option) \<times> spectre_state) option" where
  "run_defensive writable hw runs tries path s =
     (let r0 = \<lparr>df_runs = runs, df_tries = tries, byte_accuracy = 0, exact_rate = 0, simulated_alerts = 0,
            simulated_confirmed = 0, simulated_false_positives = 0, df_report_written = False, df_report_path = path\<rparr>
      in if runs \<le> 0 \<or> tries \<le> 0 \<or> path = [] then Some ((r0, None), s)
         else case run_reliability_lab hw runs tries s of
             None \<Rightarrow> None
           | Some (spectre, s') \<Rightarrow>
               (let accuracy = byte_accuracy_percent spectre; exact = exact_recovery_rate spectre;
                    (alerts, confirmed, false_positives) = foldl count_alert (0, 0, 0) make_events;
                    r1 = r0\<lparr>byte_accuracy := accuracy, exact_rate := exact, simulated_alerts := alerts,
                            simulated_confirmed := confirmed, simulated_false_positives := false_positives\<rparr>
                in Some (if writable path
                         then (r1\<lparr>df_report_written := True\<rparr>, Some (defensive_report spectre accuracy exact make_events))
                         else (r1, None), s')))"

section \<open>Lemmas\<close>

lemma dbl_i32: "in_i32 x \<Longrightarrow> dbl (of_int x) = of_int x"
  by (intro fl_of_int) (auto simp: in_i32_def i32_min_def i32_max_def)

lemma percent_exact:
  assumes "in_i32 a" "in_i32 b" "0 < b" "100 * a = p * b" "\<bar>p\<bar> \<le> 100"
  shows "percent a b = of_int p"
proof -
  have "dbl (of_int (100 * a)) = of_int (100 * a)"
    using assms(1) by (intro fl_of_int) (auto simp: in_i32_def i32_min_def i32_max_def)
  moreover have "(of_int (100 * a) :: real) / of_int b = of_int p" using assms(3,4) by simp
  moreover have "dbl (of_int p) = of_int p" using assms(5) by (intro fl_of_int) simp_all
  ultimately show ?thesis using assms(1,2) by (simp add: percent_def dbl_i32)
qed

lemma percent_bounds:
  assumes "in_i32 a" "in_i32 b" "0 \<le> a" "a \<le> b" "0 < b"
  shows "0 \<le> percent a b \<and> percent a b \<le> 100"
proof -
  have "dbl (of_int (100 * a)) = of_int (100 * a)"
    using assms(1) by (intro fl_of_int) (auto simp: in_i32_def i32_min_def i32_max_def)
  moreover have "(of_int (100 * a) :: real) / of_int b \<le> 100" using assms by (simp add: divide_le_eq)
  moreover have "dbl 100 = 100" using fl_of_int [of 100 53] by simp
  ultimately show ?thesis using assms by (simp add: percent_def dbl_i32 dbl.nonneg dbl.ge_iff)
qed

lemma play_catalog:
  "foldl play_event r scenario_catalog = r\<lparr>detected_events := detected_events r + 9,
     recovery_attempts := recovery_attempts r + 9, recovered_events := recovered_events r + 9,
     scenarios := scenarios r @ map (\<lambda>e. \<lparr>sc_name = ev_name e, sc_stage = ev_stage e,
        expected_control = ev_control e, detected = True, sc_recovered = True\<rparr>) scenario_catalog\<rparr>"
  by (simp add: scenario_catalog_def play_event_def Let_def)

text \<open>The counters and rates of a lab that does not overflow.\<close>

definition operational_totals :: "int \<Rightarrow> string \<Rightarrow> operational_result" where
  "operational_totals runs path =
     (initial_operational runs path)
       \<lparr>events_generated := 9 * runs, detected_events := 9 * runs, false_positive_events := runs,
        recovery_attempts := 9 * runs, recovered_events := 9 * runs, detection_rate := 100,
        false_positive_rate := 5, recovery_rate := 100,
        scenarios := map (\<lambda>e. \<lparr>sc_name = ev_name e, sc_stage = ev_stage e, expected_control = ev_control e,
          detected = True, sc_recovered = True\<rparr>) scenario_catalog\<rparr>"

lemma run_operational_result:
  assumes "0 < runs" "runs \<le> 107374182" "path \<noteq> []"
  shows "run_operational writable runs path =
     (let r = operational_totals runs path in
      Some (if writable path then (r\<lparr>op_report_written := True\<rparr>, Some (operational_report r)) else (r, None)))"
proof -
  have len: "length scenario_catalog = 9" by (simp add: scenario_catalog_def)
  have i: "in_i32 (9 * runs)" "in_i32 (runs * 20)" "in_i32 runs" "in_i32 0"
    using assms(1,2) by (simp_all add: in_i32_def i32_min_def i32_max_def)
  have p: "percent (9 * runs) (9 * runs) = 100" "percent runs (runs * 20) = 5"
    using percent_exact [OF i(1,1), of 100] percent_exact [OF i(3,2), of 5] assms(1) by simp_all
  show ?thesis
    using assms i p
    by (simp add: i32_in run_operational_def Let_def times_i32_def len play_catalog scale_counters_def
        initial_operational_def operational_totals_def set_rates_def)
qed

lemma run_operational_overflow:
  assumes "107374182 < runs" "path \<noteq> []"
  shows "run_operational writable runs path = None"
proof -
  have "times_i32 runs 20 = None" using assms(1) by (simp add: times_i32_def i32_def in_i32_def i32_max_def)
  then show ?thesis
    using assms by (auto simp: run_operational_def Let_def split: option.splits Option.bind_splits)
qed

section \<open>Properties\<close>

text \<open>C33: the operational lab: for every run count up to 107374182 the counters are exactly 9 events per run, all
  detected and recovered, and the rates are exactly 100, 5 and 100 percent; from 107374183 runs on an
  \<open>int\<close> product overflows, which the guard of the lab does not exclude.\<close>

theorem operational_lab_counters:
  assumes "0 < runs" "in_i32 runs" "path \<noteq> []"
  shows "case run_operational writable runs path of
      None \<Rightarrow> 107374182 < runs
    | Some (r, rep) \<Rightarrow> runs \<le> 107374182 \<and> events_generated r = 9 * runs \<and> detected_events r = 9 * runs
        \<and> missed_events r = 0 \<and> recovered_events r = recovery_attempts r \<and> length (scenarios r) = 9
        \<and> detection_rate r = 100 \<and> false_positive_rate r = 5 \<and> recovery_rate r = 100
        \<and> (op_report_written r \<longleftrightarrow> writable path) \<and> (rep \<noteq> None \<longleftrightarrow> writable path)"
proof (cases "runs \<le> 107374182")
  case True
  then show ?thesis using assms by (simp add: run_operational_result [OF assms(1) True assms(3)] operational_totals_def
      initial_operational_def scenario_catalog_def Let_def)
next
  case False
  then show ?thesis using assms by (simp add: run_operational_overflow)
qed

theorem operational_lab_counters_witness:
  "\<exists>r rep. run_operational (\<lambda>_. True) 3 ''op.json'' = Some (r, rep) \<and> detection_rate r = 100 \<and> false_positive_rate r = 5"
  using operational_lab_counters [of 3 "''op.json''" "\<lambda>_. True"]
  by (auto simp: in_i32_def i32_min_def i32_max_def split: option.splits)

text \<open>the defensive lab reports percentages between 0 and 100 and, whatever the Spectre fixture recovered,
  three alerts, all confirmed and none of them false.\<close>

theorem defensive_lab_rates:
  assumes "run_defensive writable hw runs tries path s = Some ((r, rep), s')"
    and "in_i32 runs" "0 < runs" "0 < tries" "path \<noteq> []"
  shows "0 \<le> byte_accuracy r \<and> byte_accuracy r \<le> 100 \<and> 0 \<le> exact_rate r \<and> exact_rate r \<le> 100
     \<and> simulated_alerts r = 3 \<and> simulated_confirmed r = 3 \<and> simulated_false_positives r = 0
     \<and> (df_report_written r \<longleftrightarrow> writable path) \<and> (rep \<noteq> None \<longleftrightarrow> writable path)"
proof -
  obtain sp where lab: "run_reliability_lab hw runs tries s = Some (sp, s')"
    and r: "byte_accuracy r = byte_accuracy_percent sp" "exact_rate r = exact_recovery_rate sp"
      "simulated_alerts r = 3" "simulated_confirmed r = 3" "simulated_false_positives r = 0"
      "df_report_written r \<longleftrightarrow> writable path" "rep \<noteq> None \<longleftrightarrow> writable path"
    using assms
    by (auto simp: run_defensive_def Let_def make_events_def count_alert_def split: option.splits if_splits)
  note inv = reliability_lab_inv [OF lab assms(3,4)]
  have n: "length kSecret = 40" by (simp add: kSecret_def)
  have sp: "correct_bytes sp \<le> total_bytes sp" "0 < total_bytes sp" "total_bytes sp \<le> 2 ^ 46"
    "0 \<le> exact_matches sp" "exact_matches sp \<le> runs" "lab_runs sp = runs"
    using inv assms(2,3) by (auto simp: lab_inv_def n in_i32_def i32_max_def)
  have "in_i32 (exact_matches sp)" using sp(4,5) assms(2) by (simp add: in_i32_def i32_min_def)
  then show ?thesis
    using r dbl_percentage [OF sp(1-3)] percent_bounds [of "exact_matches sp" runs] sp assms(2,3)
    by (simp add: byte_accuracy_percent_def exact_recovery_rate_def)
qed

theorem defensive_lab_rates_witness:
  "\<exists>r rep s'. run_defensive (\<lambda>_. True) steady_counter 2 3 ''d.json'' (initial_state boot) = Some ((r, rep), s')
     \<and> simulated_alerts r = 3 \<and> byte_accuracy r \<le> 100"
proof -
  obtain sp s' where "run_reliability_lab steady_counter 2 3 (initial_state boot) = Some (sp, s')"
    using lab_total [of 3 steady_counter 2 "initial_state boot"] by auto
  then have "\<exists>r rep s'. run_defensive (\<lambda>_. True) steady_counter 2 3 ''d.json'' (initial_state boot) = Some ((r, rep), s')"
    by (simp add: run_defensive_def Let_def split_beta)
  then obtain r rep s' where r: "run_defensive (\<lambda>_. True) steady_counter 2 3 ''d.json'' (initial_state boot) = Some ((r, rep), s')"
    by blast
  then show ?thesis
    using defensive_lab_rates [OF r] by (auto simp: in_i32_def i32_min_def i32_max_def)
qed

end
