(* ===== verification/Shared_Memory.thy ===== *)
theory Shared_Memory
  imports Statistics Timing Decimal
begin

text \<open>
  Model of \<open>src/shared_memory_measurer.cpp\<close>.  First the two processes as a step relation over the
  four shared flags, one atomic access per step, with time-outs at any moment; then the calls of the
  parent process in order, with the answers of the operating system, of the waits and of the counter as
  parameters, and the set of resources the parent holds.
\<close>

section \<open>Transition systems\<close>

locale transition_system =
  fixes init :: "'s \<Rightarrow> bool" and step :: "'s \<Rightarrow> 's \<Rightarrow> bool" and inv :: "'s \<Rightarrow> bool"
  assumes inv_init: "init s \<Longrightarrow> inv s"
    and inv_step: "inv s \<Longrightarrow> step s t \<Longrightarrow> inv t"
begin

lemma reachable: "init s \<Longrightarrow> step\<^sup>*\<^sup>* s t \<Longrightarrow> inv t"
  by (rotate_tac 1, induction rule: rtranclp_induct) (auto intro: inv_init inv_step)

lemma trace_inv: "init s \<Longrightarrow> step\<^sup>*\<^sup>* s t \<Longrightarrow> step\<^sup>*\<^sup>* t u \<Longrightarrow> inv t \<and> inv u"
  using reachable rtranclp_trans [of step s t u] by blast

end

text \<open>A system whose steps are steps of a specification, or leave its state alone.\<close>

locale refinement = transition_system +
  fixes abs :: "'s \<Rightarrow> 'a" and spec_start :: 'a and spec_step :: "'a \<Rightarrow> 'a \<Rightarrow> bool"
  assumes abs_init: "init s \<Longrightarrow> abs s = spec_start"
    and abs_step: "inv s \<Longrightarrow> step s t \<Longrightarrow> abs t = abs s \<or> spec_step (abs s) (abs t)"
begin

lemma simulated:
  assumes "init s" "step\<^sup>*\<^sup>* s t"
  shows "spec_step\<^sup>*\<^sup>* spec_start (abs t)"
  using assms(2)
proof (induction rule: rtranclp_induct)
  case base
  then show ?case using abs_init [OF assms(1)] by simp
next
  case (step t u)
  then show ?case using abs_step [OF reachable [OF assms(1) step.hyps(1)] step.hyps(2)]
    by (metis rtranclp.rtrancl_into_rtrancl)
qed

end

section \<open>The handshake\<close>

text \<open>Where the producer and the consumer are in their loops; the producer carries the index of
  the round (warm-up rounds first).\<close>

datatype producer = Await_ready | Issue nat | Await_response nat | Clear_response nat | Stopping | Stopped
datatype consumer = Announce | Check_stop | Await_request | Clear_request | Respond | Exited

record handshake =
  request :: u32
  response :: u32
  consumer_ready :: u32
  stop :: u32
  prod :: producer
  cons :: consumer
  issued :: nat
  served :: nat
  completed :: nat

definition handshake_init :: "handshake \<Rightarrow> bool" where
  "handshake_init s \<longleftrightarrow> s = \<lparr>request = 0, response = 0, consumer_ready = 0, stop = 0,
     prod = Await_ready, cons = Announce, issued = 0, served = 0, completed = 0\<rparr>"

text \<open>The flag of a step is True for a wait that gives up and for a consumer that cannot be pinned.\<close>

inductive handshake_step :: "nat \<Rightarrow> bool \<Rightarrow> handshake \<Rightarrow> handshake \<Rightarrow> bool" for rounds :: nat where
  seen_ready: "prod s = Await_ready \<Longrightarrow> consumer_ready s = 1 \<Longrightarrow>
    handshake_step rounds False s (s\<lparr>prod := if rounds = 0 then Stopping else Issue 0\<rparr>)"
| ready_timeout: "prod s = Await_ready \<Longrightarrow> consumer_ready s \<noteq> 1 \<Longrightarrow>
    handshake_step rounds True s (s\<lparr>prod := Stopping\<rparr>)"
| issue: "prod s = Issue i \<Longrightarrow>
    handshake_step rounds False s (s\<lparr>request := 1, issued := Suc (issued s), prod := Await_response i\<rparr>)"
| seen_response: "prod s = Await_response i \<Longrightarrow> response s = 1 \<Longrightarrow>
    handshake_step rounds False s (s\<lparr>prod := Clear_response i\<rparr>)"
| response_timeout: "prod s = Await_response i \<Longrightarrow> response s \<noteq> 1 \<Longrightarrow>
    handshake_step rounds True s (s\<lparr>prod := Stopping\<rparr>)"
| clear_response: "prod s = Clear_response i \<Longrightarrow>
    handshake_step rounds False s (s\<lparr>response := 0, completed := Suc (completed s),
      prod := if Suc i < rounds then Issue (Suc i) else Stopping\<rparr>)"
| raise_stop: "prod s = Stopping \<Longrightarrow> handshake_step rounds False s (s\<lparr>stop := 1, prod := Stopped\<rparr>)"
| announce: "cons s = Announce \<Longrightarrow>
    handshake_step rounds False s (s\<lparr>consumer_ready := 1, cons := Check_stop\<rparr>)"
| pin_failed: "cons s = Announce \<Longrightarrow> handshake_step rounds True s (s\<lparr>cons := Exited\<rparr>)"
| stop_seen: "cons s = Check_stop \<Longrightarrow> stop s \<noteq> 0 \<Longrightarrow> handshake_step rounds False s (s\<lparr>cons := Exited\<rparr>)"
| not_stopped: "cons s = Check_stop \<Longrightarrow> stop s = 0 \<Longrightarrow> handshake_step rounds False s (s\<lparr>cons := Await_request\<rparr>)"
| seen_request: "cons s = Await_request \<Longrightarrow> request s = 1 \<Longrightarrow>
    handshake_step rounds False s (s\<lparr>cons := Clear_request\<rparr>)"
| request_timeout: "cons s = Await_request \<Longrightarrow> request s \<noteq> 1 \<Longrightarrow> handshake_step rounds True s (s\<lparr>cons := Exited\<rparr>)"
| stopped_waiting: "cons s = Await_request \<Longrightarrow> request s \<noteq> 1 \<Longrightarrow> stop s \<noteq> 0 \<Longrightarrow>
    handshake_step rounds False s (s\<lparr>cons := Exited\<rparr>)"
| clear_request: "cons s = Clear_request \<Longrightarrow> handshake_step rounds False s (s\<lparr>request := 0, cons := Respond\<rparr>)"
| respond: "cons s = Respond \<Longrightarrow>
    handshake_step rounds False s (s\<lparr>response := 1, served := Suc (served s), cons := Check_stop\<rparr>)"

text \<open>One token circulates while the producer waits: the request flag, the consumer between its two
  stores, or the response flag.  After a time-out the producer only stops.\<close>

definition handshake_inv :: "nat \<Rightarrow> handshake \<Rightarrow> bool" where
  "handshake_inv rounds s \<longleftrightarrow>
     request s \<in> {0, 1} \<and> response s \<in> {0, 1} \<and> stop s \<in> {0, 1}
     \<and> (cons s = Announce \<longrightarrow> consumer_ready s = 0) \<and> (stop s = 1 \<longleftrightarrow> prod s = Stopped)
     \<and> issued s = served s + of_bool (request s = 1 \<or> cons s = Respond)
     \<and> \<not> (request s = 1 \<and> cons s = Respond)
     \<and> (cons s = Clear_request \<longrightarrow> request s = 1)
     \<and> \<not> (response s = 1 \<and> (request s = 1 \<or> cons s = Respond))
     \<and> (case prod s of
          Await_ready \<Rightarrow> issued s = 0 \<and> completed s = 0 \<and> response s = 0
        | Issue i \<Rightarrow> i < rounds \<and> issued s = i \<and> served s = i \<and> completed s = i \<and> response s = 0
        | Await_response i \<Rightarrow> i < rounds \<and> issued s = Suc i \<and> completed s = i
            \<and> served s = i + of_bool (response s = 1)
        | Clear_response i \<Rightarrow> i < rounds \<and> issued s = Suc i \<and> served s = Suc i \<and> completed s = i \<and> response s = 1
        | _ \<Rightarrow> completed s \<le> served s \<and> issued s \<le> rounds \<and> issued s \<le> Suc (completed s)
            \<and> served s = completed s + of_bool (response s = 1))"

inductive_cases handshake_stepE: "handshake_step rounds late s t"

lemma handshake_inv_step: "handshake_inv rounds s \<Longrightarrow> handshake_step rounds late s t \<Longrightarrow> handshake_inv rounds t"
  by (erule handshake_stepE) (auto simp: handshake_inv_def split: producer.splits)

lemma handshake_inv_init: "handshake_init s \<Longrightarrow> handshake_inv rounds s"
  by (simp add: handshake_init_def handshake_inv_def)

interpretation handshake: transition_system handshake_init
  "\<lambda>s t. \<exists>late. handshake_step rounds late s t" "handshake_inv rounds"
  by unfold_locales (auto intro: handshake_inv_init handshake_inv_step)

text \<open>The contract of the four flags: a synchronous call, repeated.  The state counts the calls made, answered
  and returned.\<close>

inductive call_step :: "nat \<Rightarrow> nat \<times> nat \<times> nat \<Rightarrow> nat \<times> nat \<times> nat \<Rightarrow> bool" for rounds :: nat where
  call: "k < rounds \<Longrightarrow> call_step rounds (k, k, k) (Suc k, k, k)"
| answer: "call_step rounds (Suc k, k, k) (Suc k, Suc k, k)"
| give_back: "call_step rounds (Suc k, Suc k, k) (Suc k, Suc k, Suc k)"

inductive_simps call_step_simps: "call_step rounds (a, b, c) t"

definition calls_of :: "handshake \<Rightarrow> nat \<times> nat \<times> nat" where
  "calls_of s = (issued s, served s, completed s)"

lemma calls_step:
  "handshake_inv rounds s \<Longrightarrow> handshake_step rounds late s t \<Longrightarrow>
     calls_of t = calls_of s \<or> call_step rounds (calls_of s) (calls_of t)"
  by (erule handshake_stepE)
    (auto simp: handshake_inv_def calls_of_def call_step_simps split: producer.splits if_splits)

interpretation calls: refinement handshake_init "\<lambda>s t. \<exists>late. handshake_step rounds late s t"
    "handshake_inv rounds" calls_of "(0, 0, 0)" "call_step rounds"
  by unfold_locales (auto simp: handshake_init_def calls_of_def dest: calls_step)

text \<open>Without time-outs the producer stops only after the last round, and the consumer only after it.\<close>

definition punctual_inv :: "nat \<Rightarrow> handshake \<Rightarrow> bool" where
  "punctual_inv rounds s \<longleftrightarrow> handshake_inv rounds s
     \<and> (prod s \<in> {Stopping, Stopped} \<longrightarrow> completed s = rounds)
     \<and> (cons s = Exited \<longrightarrow> stop s = 1) \<and> (cons s \<noteq> Announce \<longrightarrow> consumer_ready s = 1)"

lemma punctual_inv_step: "punctual_inv rounds s \<Longrightarrow> handshake_step rounds False s t \<Longrightarrow> punctual_inv rounds t"
  using handshake_inv_step [of rounds s False t]
  by (erule_tac handshake_stepE) (auto simp: punctual_inv_def handshake_inv_def split: producer.splits if_splits)

interpretation punctual: transition_system handshake_init "handshake_step rounds False" "punctual_inv rounds"
proof
  show "handshake_init s \<Longrightarrow> punctual_inv rounds s" for s
    using handshake_inv_init [of s rounds] by (simp add: punctual_inv_def handshake_init_def)
qed (rule punctual_inv_step)

text \<open>Every punctual step advances this rank by one.\<close>

definition producer_rank :: "nat \<Rightarrow> producer \<Rightarrow> nat" where
  "producer_rank rounds p =
     (case p of Await_ready \<Rightarrow> 0 | Issue i \<Rightarrow> 1 + 3 * i | Await_response i \<Rightarrow> 2 + 3 * i
      | Clear_response i \<Rightarrow> 3 + 3 * i | Stopping \<Rightarrow> 1 + 3 * rounds | Stopped \<Rightarrow> 2 + 3 * rounds)"

definition consumer_rank :: "consumer \<Rightarrow> nat" where
  "consumer_rank c =
     (case c of Announce \<Rightarrow> 0 | Check_stop \<Rightarrow> 1 | Await_request \<Rightarrow> 2 | Clear_request \<Rightarrow> 3 | Respond \<Rightarrow> 4 | Exited \<Rightarrow> 3)"

definition rank :: "nat \<Rightarrow> handshake \<Rightarrow> nat" where
  "rank rounds s = producer_rank rounds (prod s) + consumer_rank (cons s) + 4 * served s"

lemma rank_step: "punctual_inv rounds s \<Longrightarrow> handshake_step rounds False s t \<Longrightarrow> rank rounds s < rank rounds t"
  by (erule handshake_stepE)
    (auto simp: rank_def producer_rank_def consumer_rank_def punctual_inv_def handshake_inv_def split: producer.splits)

lemma rank_bound: "punctual_inv rounds s \<Longrightarrow> rank rounds s \<le> 6 + 7 * rounds"
  by (auto simp: rank_def producer_rank_def consumer_rank_def punctual_inv_def handshake_inv_def
      split: producer.splits consumer.splits)

lemma stuck_final:
  assumes "punctual_inv rounds s" "\<And>t. \<not> handshake_step rounds False s t"
  shows "prod s = Stopped \<and> cons s = Exited \<and> completed s = rounds \<and> served s = rounds"
proof -
  note inv = assms(1) [unfolded punctual_inv_def handshake_inv_def]
  have p: "prod s \<noteq> Issue i" "prod s \<noteq> Clear_response i" "prod s \<noteq> Stopping"
    "prod s = Await_ready \<Longrightarrow> consumer_ready s \<noteq> 1" "prod s = Await_response i \<Longrightarrow> response s \<noteq> 1" for i
    using assms(2) issue clear_response raise_stop seen_ready seen_response by blast+
  have c: "cons s \<noteq> Announce" "cons s \<noteq> Check_stop" "cons s \<noteq> Clear_request" "cons s \<noteq> Respond"
    "cons s = Await_request \<Longrightarrow> request s \<noteq> 1 \<and> stop s = 0"
    using assms(2) announce stop_seen not_stopped clear_request respond seen_request stopped_waiting by blast+
  have exited: "cons s = Exited"
  proof (cases "cons s")
    case Await_request
    then have r: "request s \<noteq> 1" "stop s = 0" using c(5) by simp_all
    then show ?thesis using inv p Await_request by (cases "prod s") (auto split: if_splits)
  qed (use c in auto)
  then have "prod s = Stopped" using inv by auto
  with exited show ?thesis using inv by auto
qed

section \<open>The parent process\<close>

subsection \<open>Waiting for a value\<close>

definition spin_iterations :: nat where "spin_iterations = 2000000"
definition timeout_ms :: u64 where "timeout_ms = 1000"

text \<open>What one poll of the flag and the stop flag decides: \<open>Some True\<close> when the value is there.\<close>

definition poll :: "(nat \<Rightarrow> u32) \<Rightarrow> u32 \<Rightarrow> (nat \<Rightarrow> u32) option \<Rightarrow> nat \<Rightarrow> bool option" where
  "poll flag expected stop_flag k =
     (if flag k = expected then Some True
      else case stop_flag of None \<Rightarrow> None | Some st \<Rightarrow> if st k \<noteq> 0 then Some False else None)"

fun spin_wait :: "(nat \<Rightarrow> u32) \<Rightarrow> u32 \<Rightarrow> (nat \<Rightarrow> u32) option \<Rightarrow> nat \<Rightarrow> nat \<Rightarrow> bool option \<times> nat" where
  "spin_wait flag expected stop_flag 0 k = (None, k)"
| "spin_wait flag expected stop_flag (Suc n) k =
     (case poll flag expected stop_flag k of
        Some b \<Rightarrow> (Some b, Suc k)
      | None \<Rightarrow> spin_wait flag expected stop_flag n (Suc k))"

text \<open>The loop up to the deadline; \<open>clock c\<close> is what the \<open>c\<close>-th clock read returns, \<open>None\<close>
  when \<open>clock_gettime\<close> fails and \<open>Timer::monotonic_raw_ns\<close> throws.\<close>

definition clock_failure :: exn where
  "clock_failure = RuntimeError ''clock_gettime(CLOCK_MONOTONIC_RAW) failed''"

partial_function (option) deadline_wait ::
  "(nat \<Rightarrow> u64 option) \<Rightarrow> u64 \<Rightarrow> (nat \<Rightarrow> u32) \<Rightarrow> u32 \<Rightarrow> (nat \<Rightarrow> u32) option \<Rightarrow> nat \<Rightarrow> nat
     \<Rightarrow> (exn + bool) option" where
  "deadline_wait clock deadline flag expected stop_flag c k =
     (case clock c of
        None \<Rightarrow> Some (Inl clock_failure)
      | Some t \<Rightarrow>
          if t < deadline then
            case poll flag expected stop_flag k of
              Some b \<Rightarrow> Some (Inr b)
            | None \<Rightarrow> deadline_wait clock deadline flag expected stop_flag (Suc c) (Suc k)
          else Some (Inr False))"

definition wait_for_value ::
  "(nat \<Rightarrow> u64 option) \<Rightarrow> (nat \<Rightarrow> u32) \<Rightarrow> u32 \<Rightarrow> (nat \<Rightarrow> u32) option \<Rightarrow> (exn + bool) option" where
  "wait_for_value clock flag expected stop_flag =
     (case spin_wait flag expected stop_flag spin_iterations 0 of
        (Some b, _) \<Rightarrow> Some (Inr b)
      | (None, k) \<Rightarrow>
          (case clock 0 of
             None \<Rightarrow> Some (Inl clock_failure)
           | Some t \<Rightarrow> deadline_wait clock (t + timeout_ms * 1000000) flag expected stop_flag 1 k))"

subsection \<open>Reaping the child\<close>

fun reap_loop :: "(nat \<Rightarrow> int) \<Rightarrow> int \<Rightarrow> nat \<Rightarrow> nat \<Rightarrow> bool option" where
  "reap_loop waitpid pid 0 k = None"
| "reap_loop waitpid pid (Suc n) k =
     (if waitpid k = pid then Some True
      else if waitpid k < 0 then Some False
      else reap_loop waitpid pid n (Suc k))"

text \<open>\<open>waitpid k\<close> is the answer of the \<open>k\<close>-th call; the loop makes one call per 10 ms.\<close>

definition wait_or_kill :: "(nat \<Rightarrow> int) \<Rightarrow> int \<Rightarrow> int \<Rightarrow> int \<Rightarrow> bool" where
  "wait_or_kill waitpid kill_status pid timeout =
     (let n = nat ((timeout + 9) div 10) in
      case reap_loop waitpid pid n 0 of
        Some b \<Rightarrow> b
      | None \<Rightarrow> if kill_status \<noteq> 0 then False else waitpid n = pid)"

subsection \<open>The measurement\<close>

datatype resource = Shm_object string | Descriptor | Mapping | Child

text \<open>The answers of the environment: the system calls, the values the polls of the flags read and the
  clock reads of the waits.  The parent's wait for readiness is wait 0, its wait for the \<open>k\<close>-th response
  is wait \<open>Suc k\<close>.\<close>

record os_env =
  process_id :: nat
  shm_open_ok :: bool
  ftruncate_ok :: bool
  mmap_ok :: bool
  fork_result :: int
  ready_polls :: "nat \<Rightarrow> u32"
  response_polls :: "nat \<Rightarrow> nat \<Rightarrow> u32"
  stop_polls :: "nat \<Rightarrow> nat \<Rightarrow> u32"
  wait_clock :: "nat \<Rightarrow> nat \<Rightarrow> u64 option"
  waitpid_status :: "nat \<Rightarrow> int"
  kill_status :: int

record shm_result =
  shm_stats :: summary
  shm_iterations :: int
  producer_cpu :: int
  consumer_cpu :: int
  shm_success :: bool
  error_message :: string

definition unique_name :: "os_env \<Rightarrow> u64 \<Rightarrow> string" where
  "unique_name os ns = ''/mla_shm_'' @ to_dec (process_id os) @ ''_'' @ to_dec (unat ns)"

definition wait_ready :: "os_env \<Rightarrow> (exn + bool) option" where
  "wait_ready os = wait_for_value (wait_clock os 0) (ready_polls os) 1 None"

definition wait_response :: "os_env \<Rightarrow> nat \<Rightarrow> (exn + bool) option" where
  "wait_response os k = wait_for_value (wait_clock os (Suc k)) (response_polls os k) 1 (Some (stop_polls os k))"

text \<open>\<open>wait_or_kill\<close>, \<open>munmap\<close> and \<open>shm_unlink\<close>, in the order of every exit after the fork.\<close>

definition shut_down :: "os_env \<Rightarrow> string \<Rightarrow> int \<Rightarrow> resource set \<Rightarrow> resource set" where
  "shut_down os name timeout held =
     (let reaped = wait_or_kill (waitpid_status os) (kill_status os) (fork_result os) timeout;
          held1 = (if reaped then held - {Child} else held)
      in held1 - {Mapping} - {Shm_object name})"

text \<open>The warm-up rounds: whether all were answered; the timed rounds: the samples and whether a wait
  failed.  \<open>None\<close> is a wait that never returns.\<close>

fun warmup_rounds :: "os_env \<Rightarrow> nat \<Rightarrow> nat \<Rightarrow> (exn + bool) option" where
  "warmup_rounds os 0 k = Some (Inr True)"
| "warmup_rounds os (Suc n) k =
     (case wait_response os k of
        Some (Inr True) \<Rightarrow> warmup_rounds os n (Suc k)
      | r \<Rightarrow> r)"

fun timed_rounds ::
  "hardware \<Rightarrow> os_env \<Rightarrow> nat \<Rightarrow> nat \<Rightarrow> u64 list \<Rightarrow> nat machine
     \<Rightarrow> ((exn + u64 list \<times> bool) \<times> nat machine) option" where
  "timed_rounds hw os 0 k samples m = Some (Inr (samples, False), m)"
| "timed_rounds hw os (Suc n) k samples m =
     (let ((start, _), m1) = read_tsc_start hw m in
      case wait_response os k of
        None \<Rightarrow> None
      | Some (Inl e) \<Rightarrow> Some (Inl e, m1)
      | Some (Inr ok) \<Rightarrow>
          if \<not> ok then Some (Inr (samples, True), m1)
          else let ((finish, _), m2) = read_tsc_end hw m1
               in timed_rounds hw os n (Suc k) (samples @ [finish - start]) m2)"

text \<open>The parent after the fork; \<open>held\<close> is what it holds then.\<close>

definition parent_rounds ::
  "hardware \<Rightarrow> os_env \<Rightarrow> string \<Rightarrow> int \<Rightarrow> int \<Rightarrow> shm_result \<Rightarrow> resource set \<Rightarrow> nat machine
     \<Rightarrow> ((exn + shm_result) \<times> resource set \<times> nat machine) option" where
  "parent_rounds hw os name iterations warmup r0 held m =
     (case wait_ready os of
        None \<Rightarrow> None
      | Some (Inl e) \<Rightarrow> Some (Inl e, held, m)
      | Some (Inr False) \<Rightarrow>
          Some (Inr (r0\<lparr>error_message := ''Consumer did not become ready''\<rparr>), shut_down os name 500 held, m)
      | Some (Inr True) \<Rightarrow>
     (case warmup_rounds os (nat warmup) 0 of
        None \<Rightarrow> None
      | Some (Inl e) \<Rightarrow> Some (Inl e, held, m)
      | Some (Inr False) \<Rightarrow>
          Some (Inr (r0\<lparr>error_message := ''Consumer stopped during warmup''\<rparr>), shut_down os name 500 held, m)
      | Some (Inr True) \<Rightarrow>
     (case timed_rounds hw os (nat iterations) (nat warmup) [] m of
        None \<Rightarrow> None
      | Some (Inl e, m2) \<Rightarrow> Some (Inl e, held, m2)
      | Some (Inr (samples, failed), m2) \<Rightarrow>
          (let r1 = (if failed then r0\<lparr>error_message := ''Consumer stopped during measurement''\<rparr> else r0);
               held1 = shut_down os name 1000 held
           in if samples = []
              then Some (Inr (if error_message r1 = []
                              then r1\<lparr>error_message := ''No successful shared-memory samples''\<rparr> else r1), held1, m2)
              else Some (Inr (r1\<lparr>shm_stats := summarize_u64 samples, shm_iterations := int (length samples),
                                shm_success := True\<rparr>), held1, m2)))))"

definition measure_cross_process ::
  "hardware \<Rightarrow> os_env \<Rightarrow> int \<Rightarrow> int \<Rightarrow> int \<Rightarrow> int \<Rightarrow> nat machine
     \<Rightarrow> ((exn + shm_result) \<times> resource set \<times> nat machine) option" where
  "measure_cross_process hw os iterations warmup pcpu ccpu m =
     (let r0 = \<lparr>shm_stats = empty_summary, shm_iterations = iterations, producer_cpu = pcpu,
            consumer_cpu = ccpu, shm_success = False, error_message = []\<rparr>;
          fail = (\<lambda>msg held m. Some (Inr (r0\<lparr>error_message := msg\<rparr>), held, m))
      in if iterations \<le> 0 \<or> warmup < 0 then fail ''Invalid shared-memory iteration configuration'' {} m
         else if pcpu < 0 \<or> ccpu < 0 then fail ''Invalid CPU affinity selection'' {} m
         else case monotonic_raw_ns hw m of
           (Inl e, m1) \<Rightarrow> Some (Inl e, {}, m1)
         | (Inr ns, m1) \<Rightarrow>
           (let name = unique_name os ns in
            if \<not> shm_open_ok os then fail ''shm_open failed'' {} m1
            else let held1 = {Shm_object name, Descriptor} in
            if \<not> ftruncate_ok os then fail ''ftruncate failed'' (held1 - {Descriptor} - {Shm_object name}) m1
            else let held2 = (if mmap_ok os then insert Mapping held1 else held1) - {Descriptor} in
            if \<not> mmap_ok os then fail ''mmap failed'' (held2 - {Shm_object name}) m1
            else if fork_result os < 0 then fail ''fork failed'' (held2 - {Mapping} - {Shm_object name}) m1
            else parent_rounds hw os name iterations warmup r0 (insert Child held2) m1))"

subsection \<open>Lemmas\<close>

lemma warmup_rounds_iff:
  "warmup_rounds os n k = Some (Inr True) \<longleftrightarrow> (\<forall>i<n. wait_response os (k + i) = Some (Inr True))"
  by (induction n arbitrary: k) (auto simp: less_Suc_eq_0_disj split: option.splits sum.splits bool.splits)

text \<open>The number of rounds answered before the first wait that was not, out of \<open>n\<close>.\<close>

fun answered_prefix :: "os_env \<Rightarrow> nat \<Rightarrow> nat \<Rightarrow> nat" where
  "answered_prefix os 0 k = 0"
| "answered_prefix os (Suc n) k =
     (if wait_response os k = Some (Inr True) then Suc (answered_prefix os n (Suc k)) else 0)"

lemma timed_rounds_eq:
  assumes "answered_prefix os n k < n \<Longrightarrow> wait_response os (k + answered_prefix os n k) = Some (Inr False)"
  shows "\<exists>m'. timed_rounds hw os n k samples m
     = Some (Inr (samples @ map (tick_delta hw (tsc_reads m)) [0..<answered_prefix os n k],
               answered_prefix os n k < n), m')"
  using assms
proof (induction n arbitrary: k samples m)
  case (Suc n)
  show ?case
  proof (cases "wait_response os k = Some (Inr True)")
    case True
    then have "answered_prefix os n (Suc k) < n \<Longrightarrow>
        wait_response os (Suc k + answered_prefix os n (Suc k)) = Some (Inr False)"
      using Suc.prems by simp
    note IH = Suc.IH [OF this]
    obtain m' where "timed_rounds hw os n (Suc k) (samples @ [fst (rdtscp hw (Suc (tsc_reads m))) - fst (rdtscp hw (tsc_reads m))])
        (snd (read_tsc_end hw (snd (read_tsc_start hw m)))) = Some (Inr (samples @
          map (tick_delta hw (tsc_reads m)) [0..<answered_prefix os (Suc n) k], answered_prefix os (Suc n) k < Suc n), m')"
      using IH [of "samples @ [fst (rdtscp hw (Suc (tsc_reads m))) - fst (rdtscp hw (tsc_reads m))]"
          "snd (read_tsc_end hw (snd (read_tsc_start hw m)))"] True
      by (auto simp: read_tsc_start_def read_tsc_end_def upt_0_Suc tick_delta_shift comp_def simp del: upt_Suc)
        (simp add: tick_delta_def)
    then show ?thesis
      using True by (simp add: Let_def split_beta read_tsc_start_def read_tsc_end_def)
  next
    case False
    then have "wait_response os k = Some (Inr False)" using Suc.prems by simp
    then show ?thesis by (simp add: Let_def split_beta)
  qed
qed simp

text \<open>The first poll that decides, if it is among polls \<open>k\<close> to \<open>k + n - 1\<close>.\<close>

definition decides :: "(nat \<Rightarrow> u32) \<Rightarrow> u32 \<Rightarrow> (nat \<Rightarrow> u32) option \<Rightarrow> nat \<Rightarrow> nat \<Rightarrow> bool \<Rightarrow> bool" where
  "decides flag v st k i r \<longleftrightarrow> poll flag v st (k + i) = Some r \<and> (\<forall>j<i. poll flag v st (k + j) = None)"

lemma decides_0: "decides flag v st k 0 r \<longleftrightarrow> poll flag v st k = Some r"
  by (simp add: decides_def)

lemma decides_Suc: "decides flag v st k (Suc i) r \<longleftrightarrow> poll flag v st k = None \<and> decides flag v st (Suc k) i r"
  by (auto simp: decides_def less_Suc_eq_0_disj)

lemma decides_unique: "decides flag v st k i r \<Longrightarrow> decides flag v st k j q \<Longrightarrow> i = j \<and> r = q"
  unfolding decides_def by (metis linorder_neqE_nat option.distinct(1) option.inject)

lemma spin_wait_Some:
  "fst (spin_wait flag v st n k) = Some r \<longleftrightarrow> (\<exists>i<n. decides flag v st k i r)"
proof (induction n arbitrary: k)
  case (Suc n)
  show ?case
    by (cases "poll flag v st k") (simp_all add: Suc.IH decides_0 decides_Suc Ex_less_Suc2)
qed simp

lemma spin_wait_None:
  "fst (spin_wait flag v st n k) = None \<Longrightarrow>
     snd (spin_wait flag v st n k) = k + n \<and> (\<forall>j<n. poll flag v st (k + j) = None)"
proof (induction n arbitrary: k)
  case (Suc n)
  have "poll flag v st k = None" using Suc.prems by (simp split: option.splits)
  then show ?case using Suc.IH [of "Suc k"] Suc.prems by (auto simp: less_Suc_eq_0_disj)
qed simp

lemma deadline_wait_returns:
  assumes "clock (c + d) = Some t" "deadline \<le> t"
  shows "\<exists>r. deadline_wait clock deadline flag v st c k = Some r
     \<and> (r = Inr True \<longrightarrow> (\<exists>i. decides flag v st k i True)) \<and> (\<forall>e. r = Inl e \<longrightarrow> (\<exists>j. clock j = None))"
  using assms
proof (induction d arbitrary: c k)
  case 0
  then have "deadline_wait clock deadline flag v st c k = Some (Inr False)" by (subst deadline_wait.simps) auto
  then show ?case by simp
next
  case (Suc d)
  then have t: "clock (Suc c + d) = Some t" "deadline \<le> t" by simp_all
  note IH = Suc.IH [OF this, of "Suc k"]
  consider "clock c = None" | u where "clock c = Some u" "\<not> u < deadline"
    | u r where "clock c = Some u" "u < deadline" "poll flag v st k = Some r"
    | u where "clock c = Some u" "u < deadline" "poll flag v st k = None"
    by (cases "clock c"; cases "poll flag v st k") auto
  then show ?case
  proof cases
    case 1
    then show ?thesis by (subst deadline_wait.simps) auto
  next
    case 2
    then have "deadline_wait clock deadline flag v st c k = Some (Inr False)" by (subst deadline_wait.simps) simp
    then show ?thesis by simp
  next
    case 3
    then have "deadline_wait clock deadline flag v st c k = Some (Inr r)" by (subst deadline_wait.simps) simp
    moreover have "r \<longrightarrow> decides flag v st k 0 True" using 3 by (simp add: decides_0)
    ultimately show ?thesis by auto
  next
    case 4
    then have "deadline_wait clock deadline flag v st c k = deadline_wait clock deadline flag v st (Suc c) (Suc k)"
      by (subst deadline_wait.simps) simp
    moreover have "(\<exists>i. decides flag v st (Suc k) i True) \<longrightarrow> (\<exists>i. decides flag v st k i True)"
      using 4 decides_Suc by blast
    ultimately show ?thesis using IH by metis
  qed
qed

lemma wait_for_value_first: "poll flag v st 0 = Some b \<Longrightarrow> wait_for_value clock flag v st = Some (Inr b)"
  using spin_wait_Some [of flag v st spin_iterations 0 b] decides_0 [of flag v st 0 b]
  by (auto simp: wait_for_value_def spin_iterations_def split: prod.splits option.splits)

lemma shut_down_subset: "shut_down os name timeout {Child, Mapping, Shm_object name} \<subseteq> {Child}"
  by (auto simp: shut_down_def Let_def)

lemma shut_down_child:
  "Child \<in> shut_down os name timeout held \<Longrightarrow>
     \<not> wait_or_kill (waitpid_status os) (kill_status os) (fork_result os) timeout"
  by (auto simp: shut_down_def Let_def split: if_splits)

text \<open>What the parent may still hold when the measurement returns or throws.\<close>

definition released :: "os_env \<Rightarrow> ((exn + shm_result) \<times> resource set \<times> nat machine) option \<Rightarrow> bool" where
  "released os outcome =
     (case outcome of
        None \<Rightarrow> True
      | Some (Inl e, held, m') \<Rightarrow> held = {} \<or> (\<exists>name. held = {Child, Mapping, Shm_object name})
      | Some (Inr r, held, m') \<Rightarrow> held \<subseteq> {Child}
          \<and> (Child \<in> held \<longrightarrow> (\<exists>t \<in> {500, 1000}.
               \<not> wait_or_kill (waitpid_status os) (kill_status os) (fork_result os) t)))"

lemma released_simps [simp]:
  "released os None"
  "released os (Some (Inl e, {}, m))"
  "released os (Some (Inl e, {Child, Mapping, Shm_object name}, m))"
  "released os (Some (Inr r, {}, m))"
  "released os (Some (Inr r, shut_down os name 500 {Child, Mapping, Shm_object name}, m))"
  "released os (Some (Inr r, shut_down os name 1000 {Child, Mapping, Shm_object name}, m))"
  using shut_down_subset [of os name 500] shut_down_subset [of os name 1000]
    shut_down_child [of os name 500] shut_down_child [of os name 1000]
  by (auto simp: released_def)

lemma parent_rounds_released [simp]:
  "released os (parent_rounds hw os name iterations warmup r0 {Child, Mapping, Shm_object name} m)"
  by (simp add: parent_rounds_def Let_def split: option.split sum.split prod.split bool.split)

lemma measure_released: "released os (measure_cross_process hw os iterations warmup pcpu ccpu m)"
  by (simp add: measure_cross_process_def Let_def insert_Diff_if split: sum.split prod.split)

text \<open>The shared flags before either process has run.\<close>

definition quiet :: handshake where
  "quiet = \<lparr>request = 0, response = 0, consumer_ready = 0, stop = 0, prod = Await_ready, cons = Announce,
     issued = 0, served = 0, completed = 0\<rparr>"

text \<open>The first call is over: nine steps, some of each process.\<close>

definition one_call_done :: handshake where
  "one_call_done = quiet\<lparr>consumer_ready := 1, prod := Issue 1, cons := Check_stop, issued := 1, served := 1, completed := 1\<rparr>"

lemma one_call_run: "(handshake_step 5 False)\<^sup>*\<^sup>* quiet one_call_done"
proof -
  let ?step = "handshake_step 5 False"
  let ?s1 = "quiet\<lparr>consumer_ready := 1, cons := Check_stop\<rparr>" let ?s2 = "?s1\<lparr>cons := Await_request\<rparr>"
  let ?s3 = "?s2\<lparr>prod := Issue 0\<rparr>" let ?s4 = "?s3\<lparr>request := 1, issued := 1, prod := Await_response 0\<rparr>"
  let ?s5 = "?s4\<lparr>cons := Clear_request\<rparr>" let ?s6 = "?s5\<lparr>request := 0, cons := Respond\<rparr>"
  let ?s7 = "?s6\<lparr>response := 1, served := 1, cons := Check_stop\<rparr>" let ?s8 = "?s7\<lparr>prod := Clear_response 0\<rparr>"
  have "?step quiet ?s1" "?step ?s1 ?s2" using announce [of quiet] not_stopped [of ?s1] by (simp_all add: quiet_def)
  moreover have "?step ?s2 ?s3" "?step ?s3 ?s4" using seen_ready [of ?s2 5] issue [of ?s3 0] by (simp_all add: quiet_def)
  moreover have "?step ?s4 ?s5" "?step ?s5 ?s6" using seen_request [of ?s4] clear_request [of ?s5] by (simp_all add: quiet_def)
  moreover have "?step ?s6 ?s7" "?step ?s7 ?s8" using respond [of ?s6] seen_response [of ?s7 0] by (simp_all add: quiet_def)
  moreover have "?step ?s8 one_call_done"
    using clear_response [of ?s8 0 5] by (simp add: quiet_def one_call_done_def)
  ultimately show ?thesis by (meson converse_rtranclp_into_rtranclp rtranclp.rtrancl_refl)
qed

lemma one_call_run_late: "(\<lambda>s t. \<exists>late. handshake_step 5 late s t)\<^sup>*\<^sup>* quiet one_call_done"
  using one_call_run by (rule rtranclp_mono [THEN predicate2D, rotated]) auto

section \<open>Properties\<close>

text \<open>C10: the handshake, with every interleaving of the two processes and with time-outs at any moment: no
  request is served twice or skipped: the rounds the producer has completed, the requests the consumer has
  served and the requests issued differ by at most one, the two flags are never raised together, and when
  the producer reads a response it is the answer to the request of its own round.\<close>

theorem handshake_one_answer_per_request:
  assumes "handshake_init s" "(\<lambda>s t. \<exists>late. handshake_step rounds late s t)\<^sup>*\<^sup>* s t"
  shows "completed t \<le> served t \<and> served t \<le> issued t \<and> issued t \<le> Suc (completed t) \<and> issued t \<le> rounds
     \<and> \<not> (request t = 1 \<and> response t = 1)
     \<and> (\<forall>i. prod t = Clear_response i \<longrightarrow> served t = Suc i \<and> issued t = Suc i)"
  using handshake.reachable [OF assms]
  by (cases "prod t") (auto simp: handshake_inv_def)

theorem handshake_one_answer_per_request_witness:
  "completed one_call_done = 1 \<and> completed one_call_done \<le> served one_call_done \<and> served one_call_done \<le> issued one_call_done
     \<and> issued one_call_done \<le> 5 \<and> \<not> (request one_call_done = 1 \<and> response one_call_done = 1)"
  using handshake_one_answer_per_request [of quiet 5 one_call_done] one_call_run_late
  by (simp add: handshake_init_def quiet_def one_call_done_def)

text \<open>C6: the handshake refines a synchronous call: whatever the interleaving of the two processes and the
  time-outs, the requests issued, served and completed change only as calls that are made one at a time, at
  most one per round, answered once each and returned before the next call is made.\<close>

theorem handshake_refines_calls:
  assumes "handshake_init s" "(\<lambda>s t. \<exists>late. handshake_step rounds late s t)\<^sup>*\<^sup>* s t"
  shows "(call_step rounds)\<^sup>*\<^sup>* (0, 0, 0) (issued t, served t, completed t)"
  using calls.simulated [OF assms] by (simp add: calls_of_def)

theorem handshake_refines_calls_witness:
  "(call_step 5)\<^sup>*\<^sup>* (0, 0, 0) (1, 1, 1)"
  using handshake_refines_calls [of quiet 5 one_call_done] one_call_run_late
  by (simp add: handshake_init_def quiet_def one_call_done_def)

text \<open>C9: when no wait times out the handshake cannot deadlock and always ends: an execution has at most
  7 * rounds + 6 steps, and where no step is possible any more, both processes have finished and every round was
  completed and served.\<close>

theorem handshake_terminates:
  assumes "handshake_init s" "(handshake_step rounds False)\<^sup>*\<^sup>* s t"
  shows "(\<forall>u. handshake_step rounds False t u \<longrightarrow> rank rounds t < rank rounds u)
     \<and> rank rounds t \<le> 6 + 7 * rounds
     \<and> ((\<nexists>u. handshake_step rounds False t u)
         \<longrightarrow> prod t = Stopped \<and> cons t = Exited \<and> completed t = rounds \<and> served t = rounds)"
  using punctual.reachable [OF assms] rank_step rank_bound stuck_final by blast

theorem handshake_terminates_witness:
  "rank 5 one_call_done < rank 5 (one_call_done\<lparr>cons := Await_request\<rparr>) \<and> rank 5 one_call_done \<le> 41"
proof -
  have "handshake_step 5 False one_call_done (one_call_done\<lparr>cons := Await_request\<rparr>)"
    by (rule not_stopped) (simp_all add: one_call_done_def quiet_def)
  then show ?thesis
    using handshake_terminates [of quiet 5 one_call_done] one_call_run by (simp add: handshake_init_def quiet_def)
qed

text \<open>C16: a wait returns as soon as the clock reaches its deadline, one second after the two million spins; it
  returns True only when some poll saw the value before any poll saw the stop flag, and always when one of
  the first two million polls did; it throws only when a clock read fails.\<close>

theorem wait_for_value_returns:
  assumes "clock 0 = Some t" "clock (1 + d) = Some u" "t + timeout_ms * 1000000 \<le> u"
  shows "\<exists>r. wait_for_value clock flag v st = Some r \<and> (r = Inr True \<longrightarrow> (\<exists>i. decides flag v st 0 i True))
     \<and> (\<forall>i < spin_iterations. decides flag v st 0 i True \<longrightarrow> r = Inr True)
     \<and> (\<forall>e. r = Inl e \<longrightarrow> (\<exists>j. clock j = None))"
proof -
  obtain r k where s: "spin_wait flag v st spin_iterations 0 = (r, k)" by fastforce
  show ?thesis
  proof (cases r)
    case (Some b)
    then obtain i where i: "decides flag v st 0 i b"
      using spin_wait_Some [of flag v st spin_iterations 0 b] by (auto simp: s)
    have w: "wait_for_value clock flag v st = Some (Inr b)" by (simp add: wait_for_value_def s Some)
    have "decides flag v st 0 j True \<Longrightarrow> b" for j using decides_unique [OF i] by blast
    then show ?thesis using w i by (intro exI [of _ "Inr b"]) auto
  next
    case None
    have k: "k = spin_iterations" "\<forall>j < spin_iterations. poll flag v st j = None"
      using spin_wait_None [of flag v st spin_iterations 0] by (simp_all add: s None)
    obtain r where r: "deadline_wait clock (t + timeout_ms * 1000000) flag v st 1 k = Some r"
      "r = Inr True \<longrightarrow> (\<exists>i. decides flag v st k i True)" "\<forall>e. r = Inl e \<longrightarrow> (\<exists>j. clock j = None)"
      using deadline_wait_returns [where clock = clock and c = 1 and d = d, OF assms(2,3)] by blast
    have "decides flag v st 0 (k + i) True" if "decides flag v st k i True" for i
      unfolding decides_def
    proof (intro conjI allI impI)
      show "poll flag v st (0 + (k + i)) = Some True" using that by (simp add: decides_def)
      fix j assume "j < k + i"
      then show "poll flag v st (0 + j) = None"
        using that k by (cases "j < k") (auto simp: decides_def dest: spec [of _ "j - k"])
    qed
    moreover have "\<not> decides flag v st 0 i True" if "i < spin_iterations" for i
      using k(2) that by (simp add: decides_def)
    moreover have "wait_for_value clock flag v st = Some r" using r(1) by (simp add: wait_for_value_def s None assms(1))
    ultimately show ?thesis using r(2,3) by (intro exI [of _ r]) blast
  qed
qed

theorem wait_for_value_returns_witness:
  "\<exists>r. wait_for_value (\<lambda>k. Some (if k = 0 then 0 else 1000000000)) (\<lambda>k. if k < 7 then 0 else 1) 1 None = Some r"
  using wait_for_value_returns [of "\<lambda>k. Some (if k = 0 then 0 else 1000000000)" 0 0 1000000000
      "\<lambda>k. if k < 7 then 0 else 1" 1 None]
  by (auto simp: timeout_ms_def)

text \<open>C34: when the measurement returns a result, errors included, the parent has given back the shared object,
  the descriptor and the mapping, and the child is left only when \<open>wait_or_kill\<close> did not reap it; when it
  throws, it holds nothing if the clock failed before the shared object was made, and otherwise it leaves the
  object, the mapping and the running child behind.\<close>

theorem parent_releases_resources:
  "case measure_cross_process hw os iterations warmup pcpu ccpu m of
     None \<Rightarrow> True
   | Some (Inl e, held, m') \<Rightarrow> held = {} \<or> (\<exists>name. held = {Child, Mapping, Shm_object name})
   | Some (Inr r, held, m') \<Rightarrow> held \<subseteq> {Child}
       \<and> (Child \<in> held \<longrightarrow> (\<exists>t \<in> {500, 1000}.
            \<not> wait_or_kill (waitpid_status os) (kill_status os) (fork_result os) t))"
  using measure_released [of os hw iterations warmup pcpu ccpu m] by (simp add: released_def)

text \<open>C35: with a working system the result summarises the round trips answered before the first wait that was
  not, each as the ticks between the two counter reads of its own round; one sample is enough for success, and
  a measurement that broke off carries both the success flag and the error message.\<close>

theorem measure_cross_process_result:
  assumes "0 < iterations" "0 \<le> warmup" "0 \<le> pcpu" "0 \<le> ccpu"
    and "shm_open_ok os" "ftruncate_ok os" "mmap_ok os" "0 < fork_result os"
    and "wait_ready os = Some (Inr True)" "\<forall>i < nat warmup. wait_response os i = Some (Inr True)"
    and "n = answered_prefix os (nat iterations) (nat warmup)"
    and "n < nat iterations \<longrightarrow> wait_response os (nat warmup + n) = Some (Inr False)"
    and "monotonic_raw_ns hw m = (Inr ns, m')"
  shows "map_option fst (measure_cross_process hw os iterations warmup pcpu ccpu m) = Some (Inr
     \<lparr>shm_stats = (if n = 0 then empty_summary else summarize_u64 (map (tick_delta hw (tsc_reads m)) [0..<n])),
      shm_iterations = (if n = 0 then iterations else int n), producer_cpu = pcpu, consumer_cpu = ccpu,
      shm_success = (0 < n),
      error_message = (if n < nat iterations then ''Consumer stopped during measurement'' else [])\<rparr>)"
proof -
  have w: "warmup_rounds os (nat warmup) 0 = Some (Inr True)" using assms(10) by (simp add: warmup_rounds_iff)
  have r: "tsc_reads m' = tsc_reads m" using assms(13) by (auto simp: monotonic_raw_ns_def)
  obtain m2 where t: "timed_rounds hw os (nat iterations) (nat warmup) [] m'
      = Some (Inr (map (tick_delta hw (tsc_reads m)) [0..<n], n < nat iterations), m2)"
    using timed_rounds_eq [of os "nat iterations" "nat warmup" hw "[]" m'] assms(11,12) r by auto
  show ?thesis
    using assms(1-9,13) w by (simp add: measure_cross_process_def parent_rounds_def Let_def t)
qed

text \<open>Four answered waits, then a consumer that has raised the stop flag.\<close>

definition stopping_consumer :: os_env where
  "stopping_consumer = \<lparr>process_id = 1, shm_open_ok = True, ftruncate_ok = True, mmap_ok = True, fork_result = 42,
     ready_polls = (\<lambda>_. 1), response_polls = (\<lambda>w k. if w < 4 then 1 else 0), stop_polls = (\<lambda>w k. 1),
     wait_clock = (\<lambda>_ _. Some 0), waitpid_status = (\<lambda>_. 42), kill_status = 0\<rparr>"

lemma stopping_consumer_waits:
  "wait_ready stopping_consumer = Some (Inr True)"
  "wait_response stopping_consumer k = Some (Inr (k < 4))"
  unfolding wait_ready_def wait_response_def
  by (rule wait_for_value_first, simp add: stopping_consumer_def poll_def)+

lemma stopping_consumer_system:
  "shm_open_ok stopping_consumer" "ftruncate_ok stopping_consumer" "mmap_ok stopping_consumer"
  "fork_result stopping_consumer = 42"
  by (simp_all add: stopping_consumer_def)

theorem measure_cross_process_result_witness:
  "\<exists>r. map_option fst (measure_cross_process \<lparr>rdtscp = (\<lambda>k. (of_nat k, 0)), clock_raw = (\<lambda>k. Some (0, 0))\<rparr>
     stopping_consumer 5 2 0 1 \<lparr>tsc_reads = 0, clock_reads = 0, trace = []\<rparr>) = Some (Inr r)
     \<and> shm_success r \<and> shm_iterations r = 2 \<and> error_message r = ''Consumer stopped during measurement''"
  by (rule exI, rule conjI, rule measure_cross_process_result
      [where n = 2 and ns = 0 and m' = "\<lparr>tsc_reads = 0, clock_reads = 1, trace = []\<rparr>"])
    (simp_all add: monotonic_raw_ns_def eval_nat_numeral stopping_consumer_waits stopping_consumer_system)

theorem parent_releases_resources_witness:
  "case measure_cross_process \<lparr>rdtscp = (\<lambda>k. (of_nat k, 0)), clock_raw = (\<lambda>k. Some (0, 0))\<rparr>
     stopping_consumer 5 2 0 1 \<lparr>tsc_reads = 0, clock_reads = 0, trace = []\<rparr> of
     Some (Inr r, held, m') \<Rightarrow> held = {}
   | _ \<Rightarrow> True"
proof -
  have reaped: "wait_or_kill (waitpid_status stopping_consumer) (kill_status stopping_consumer)
      (fork_result stopping_consumer) t" if "t \<in> {500, 1000}" for t
    using that by (auto simp: stopping_consumer_def wait_or_kill_def eval_nat_numeral)
  show ?thesis
    using parent_releases_resources [of stopping_consumer "\<lparr>rdtscp = (\<lambda>k. (of_nat k, 0)), clock_raw = (\<lambda>k. Some (0, 0))\<rparr>"
        5 2 0 1 "\<lparr>tsc_reads = 0, clock_reads = 0, trace = []\<rparr>"] reaped
    by (auto split: option.splits sum.splits)
qed

text \<open>reaping the child: the result is True only when a poll within the time-out, or the final wait after a
  successful kill, returned the child's own id; a failing \<open>waitpid\<close> or \<open>kill\<close> is reported.\<close>

theorem wait_or_kill_true:
  assumes "wait_or_kill wp ks pid timeout"
  shows "\<exists>k \<le> nat ((timeout + 9) div 10). wp k = pid \<and> (\<forall>j<k. wp j \<noteq> pid \<and> 0 \<le> wp j)
     \<and> (k = nat ((timeout + 9) div 10) \<longrightarrow> ks = 0)"
proof -
  let ?n = "nat ((timeout + 9) div 10)"
  have loop: "case reap_loop wp pid n k of
      None \<Rightarrow> \<forall>j<n. wp (k + j) \<noteq> pid \<and> 0 \<le> wp (k + j)
    | Some b \<Rightarrow> b \<longrightarrow> (\<exists>i<n. wp (k + i) = pid \<and> (\<forall>j<i. wp (k + j) \<noteq> pid \<and> 0 \<le> wp (k + j)))" for n k
  proof (induction n arbitrary: k)
    case (Suc n)
    show ?case
      using Suc.IH [of "Suc k"]
      by (auto simp: Ex_less_Suc2 All_less_Suc2 not_less split: option.splits)
  qed simp
  show ?thesis
    using assms loop [of ?n 0]
    by (auto simp: wait_or_kill_def split: option.splits if_splits intro: less_imp_le)
qed

theorem wait_or_kill_true_witness:
  "\<exists>k::nat. (if k < 3 then 0 else 42) = (42 :: int) \<and> (\<forall>j<k. (if j < 3 then 0 else 42) \<noteq> (42 :: int))"
proof -
  have "wait_or_kill (\<lambda>k. if k < 3 then 0 else 42) 0 42 500" by (simp add: wait_or_kill_def eval_nat_numeral)
  from wait_or_kill_true [OF this] show ?thesis by blast
qed

end
