(* ===== verification/Cpu_Lists.thy ===== *)
theory Cpu_Lists
  imports Decimal "HOL-Library.Monad_Syntax"
begin

text \<open>
  The two readers of the kernel's CPU list format, \<open>parse_cpu_list\<close> of \<open>src/numa_support.cpp\<close> (a scan
  by index) and of \<open>src/cpu_info.cpp\<close> (a \<open>std::getline\<close> loop), and the text input shared by the
  modules that read files: lines, and integers extracted with \<open>operator>>\<close>.  A rejected list is the
  empty list; \<open>None\<close> is the overflow of the loop counter on a range that ends at \<open>INT_MAX\<close>, which
  is undefined behaviour.
\<close>

section \<open>Text input\<close>

text \<open>\<open>std::getline\<close> with a delimiter: the line and the rest, or \<open>None\<close> at the end of the text.\<close>

definition getline :: "char \<Rightarrow> string \<Rightarrow> (string \<times> string) option" where
  "getline delim cs =
     (if cs = [] then None
      else Some (takeWhile (\<lambda>c. c \<noteq> delim) cs, drop 1 (dropWhile (\<lambda>c. c \<noteq> delim) cs)))"

lemma getline_shorter: "getline delim cs = Some (line, rest) \<Longrightarrow> length rest < length cs"
proof -
  assume g: "getline delim cs = Some (line, rest)"
  then have "cs \<noteq> []" by (auto simp: getline_def)
  moreover have "length (dropWhile (\<lambda>c. c \<noteq> delim) cs) \<le> length cs" by (rule length_dropWhile_le)
  ultimately show ?thesis using g by (cases cs) (auto simp: getline_def)
qed

function lines_of :: "char \<Rightarrow> string \<Rightarrow> string list" where
  "lines_of delim cs =
     (case getline delim cs of None \<Rightarrow> [] | Some (line, rest) \<Rightarrow> line # lines_of delim rest)"
  by pat_completeness auto
termination by (relation "measure (\<lambda>(delim, cs). length cs)") (auto dest: getline_shorter)

declare lines_of.simps [simp del]

lemma lines_of_Nil [simp]: "lines_of delim [] = []"
  by (subst lines_of.simps) (simp add: getline_def)

text \<open>Splitting at a separator that the first part does not contain.\<close>

lemma separator_free:
  "d \<notin> set cs \<Longrightarrow> takeWhile (\<lambda>c. c \<noteq> d) cs = cs"
  "d \<notin> set cs \<Longrightarrow> dropWhile (\<lambda>c. c \<noteq> d) cs = []"
  "d \<notin> set cs \<Longrightarrow> takeWhile (\<lambda>c. c \<noteq> d) (cs @ d # rest) = cs"
  "d \<notin> set cs \<Longrightarrow> dropWhile (\<lambda>c. c \<noteq> d) (cs @ d # rest) = d # rest"
  by (induction cs) auto

lemma getline_last: "d \<notin> set cs \<Longrightarrow> cs \<noteq> [] \<Longrightarrow> getline d cs = Some (cs, [])"
  by (simp add: getline_def separator_free)

lemma getline_append: "d \<notin> set cs \<Longrightarrow> getline d (cs @ d # rest) = Some (cs, rest)"
  by (simp add: getline_def separator_free)

lemma lines_of_last: "d \<notin> set cs \<Longrightarrow> cs \<noteq> [] \<Longrightarrow> lines_of d cs = [cs]"
  by (subst lines_of.simps) (simp add: getline_last)

lemma lines_of_append: "d \<notin> set cs \<Longrightarrow> lines_of d (cs @ d # rest) = cs # lines_of d rest"
  by (subst lines_of.simps) (simp add: getline_append)

text \<open>\<open>file >> value\<close> on a signed integer with the given range: white space, a sign and digits.  The result
  is the new value of the variable, whether the extraction succeeded, and the rest.  At the end of the text
  the variable keeps its value; without digits it becomes 0; out of range it becomes the nearest bound.\<close>

definition extract_number :: "int \<Rightarrow> int \<Rightarrow> int \<Rightarrow> string \<Rightarrow> int \<times> bool \<times> string" where
  "extract_number lowest highest old cs =
     (let t = dropWhile is_space cs in
      if t = [] then (old, False, [])
      else
        let neg = (hd t = CHR ''-'');
            u = (if hd t = CHR ''-'' \<or> hd t = CHR ''+'' then tl t else t);
            ds = takeWhile is_digit u; rest = dropWhile is_digit u;
            v = (if neg then - int (of_dec ds) else int (of_dec ds))
        in if ds = [] then (0, False, rest)
           else if lowest \<le> v \<and> v \<le> highest then (v, True, rest)
           else (if neg then lowest else highest, False, rest))"

definition extract_int :: "int \<Rightarrow> string \<Rightarrow> int \<times> bool \<times> string" where
  "extract_int = extract_number i32_min i32_max"

lemma extract_int_shorter: "extract_int old cs = (v, True, rest) \<Longrightarrow> length rest < length cs"
proof -
  assume e: "extract_int old cs = (v, True, rest)"
  define t where "t = dropWhile is_space cs"
  define u where "u = (if hd t = CHR ''-'' \<or> hd t = CHR ''+'' then tl t else t)"
  have "rest = dropWhile is_digit u" "takeWhile is_digit u \<noteq> []"
    using e by (auto simp: extract_int_def extract_number_def Let_def t_def u_def split: if_splits)
  moreover have "length u = length (takeWhile is_digit u) + length (dropWhile is_digit u)"
    by (metis length_append takeWhile_dropWhile_id)
  moreover have "length u \<le> length t" by (simp add: u_def)
  moreover have "length t \<le> length cs" unfolding t_def by (rule length_dropWhile_le)
  ultimately show ?thesis by (cases "takeWhile is_digit u") auto
qed

text \<open>\<open>while (file >> value)\<close>.\<close>

function read_ints :: "int \<Rightarrow> string \<Rightarrow> int list" where
  "read_ints old cs =
     (case extract_int old cs of (v, ok, rest) \<Rightarrow> if ok then v # read_ints v rest else [])"
  by pat_completeness auto
termination by (relation "measure (\<lambda>(old, cs). length cs)") (auto dest: extract_int_shorter [OF sym])

declare read_ints.simps [simp del]

section \<open>The readers\<close>

text \<open>One element of the list: a number or a range, with the exceptions of \<open>std::stoi\<close> and the test of
  the bounds as rejections.\<close>

datatype item = Overflow | Rejected | Cpus "int list"

definition read_item :: "string \<Rightarrow> item" where
  "read_item token =
     (if CHR ''-'' \<notin> set token then
        (case stoi token of None \<Rightarrow> Rejected | Some n \<Rightarrow> Cpus [n])
      else
        (case stoi (takeWhile (\<lambda>c. c \<noteq> CHR ''-'') token) of
           None \<Rightarrow> Rejected
         | Some lo \<Rightarrow>
             (case stoi (drop 1 (dropWhile (\<lambda>c. c \<noteq> CHR ''-'') token)) of
                None \<Rightarrow> Rejected
              | Some hi \<Rightarrow>
                  if hi < lo then Rejected
                  else if hi = i32_max then Overflow
                  else Cpus [lo..hi])))"

text \<open>\<open>NumaSupport\<close>: the text from \<open>begin\<close> on is the second argument, an empty token is rejected
  before it is read.\<close>

function numa_cpu_loop :: "int list \<Rightarrow> string \<Rightarrow> int list option" where
  "numa_cpu_loop cpus cs =
     (if cs = [] then Some cpus
      else
        let token = takeWhile (\<lambda>c. c \<noteq> CHR '','') cs; after = dropWhile (\<lambda>c. c \<noteq> CHR '','') cs in
        if token = [] then Some []
        else case read_item token of
               Overflow \<Rightarrow> None
             | Rejected \<Rightarrow> Some []
             | Cpus xs \<Rightarrow> if after = [] then Some (cpus @ xs) else numa_cpu_loop (cpus @ xs) (tl after))"
  by pat_completeness auto
termination
proof (relation "measure (\<lambda>(cpus, cs). length cs)", simp)
  fix cpus :: "int list" and cs token after :: string and xs
  assume "after = dropWhile (\<lambda>c. c \<noteq> CHR '','') cs" "after \<noteq> []"
  then have "length (tl after) < length after" "length after \<le> length cs"
    by (simp_all add: length_dropWhile_le)
  then show "((cpus @ xs, tl after), cpus, cs) \<in> measure (\<lambda>(cpus, cs). length cs)" by simp
qed

declare numa_cpu_loop.simps [simp del]

definition numa_parse_cpu_list :: "string \<Rightarrow> int list option" where
  "numa_parse_cpu_list cs = numa_cpu_loop [] cs"

text \<open>\<open>CpuInfo\<close>: \<open>std::getline\<close> with a comma until it fails.\<close>

function info_cpu_loop :: "int list \<Rightarrow> string \<Rightarrow> int list option" where
  "info_cpu_loop cpus cs =
     (case getline CHR '','' cs of
        None \<Rightarrow> Some cpus
      | Some (line, rest) \<Rightarrow>
          (case read_item line of
             Overflow \<Rightarrow> None
           | Rejected \<Rightarrow> Some []
           | Cpus xs \<Rightarrow> info_cpu_loop (cpus @ xs) rest))"
  by pat_completeness auto
termination by (relation "measure (\<lambda>(cpus, cs). length cs)") (auto dest: getline_shorter)

declare info_cpu_loop.simps [simp del]

definition info_parse_cpu_list :: "string \<Rightarrow> int list option" where
  "info_parse_cpu_list cs = info_cpu_loop [] cs"

section \<open>Lemmas\<close>

lemma read_item_Nil: "read_item [] = Rejected"
  by (simp add: read_item_def stoi_def)

lemma loops_agree: "numa_cpu_loop cpus cs = info_cpu_loop cpus cs"
proof (induction cpus cs rule: info_cpu_loop.induct)
  case (1 cpus cs)
  let ?token = "takeWhile (\<lambda>c. c \<noteq> CHR '','') cs" and ?after = "dropWhile (\<lambda>c. c \<noteq> CHR '','') cs"
  show ?case
  proof (cases "cs = []")
    case True
    then show ?thesis by (subst numa_cpu_loop.simps, subst info_cpu_loop.simps) (simp add: getline_def)
  next
    case False
    then have g: "getline CHR '','' cs = Some (?token, drop 1 ?after)" by (simp add: getline_def)
    have at_end: "info_cpu_loop cpus' [] = Some cpus'" for cpus'
      by (subst info_cpu_loop.simps) (simp add: getline_def)
    have IH: "read_item ?token = Cpus xs \<Longrightarrow>
        numa_cpu_loop (cpus @ xs) (drop 1 ?after) = info_cpu_loop (cpus @ xs) (drop 1 ?after)" for xs
      using 1 [OF g refl] by simp
    show ?thesis
    proof (cases "?token = []")
      case True
      then show ?thesis using False g read_item_Nil
        by (subst numa_cpu_loop.simps, subst info_cpu_loop.simps) simp
    next
      case nonempty: False
      define after where "after = ?after"
      have n: "numa_cpu_loop cpus cs = (case read_item ?token of Overflow \<Rightarrow> None | Rejected \<Rightarrow> Some []
          | Cpus xs \<Rightarrow> if after = [] then Some (cpus @ xs) else numa_cpu_loop (cpus @ xs) (tl after))"
        unfolding after_def using False nonempty by (subst numa_cpu_loop.simps) (simp only: Let_def if_False)
      have i: "info_cpu_loop cpus cs = (case read_item ?token of Overflow \<Rightarrow> None | Rejected \<Rightarrow> Some []
          | Cpus xs \<Rightarrow> info_cpu_loop (cpus @ xs) (drop 1 after))"
        unfolding after_def using g by (subst info_cpu_loop.simps) (simp only: option.case prod.case)
      note IH' = IH [folded after_def]
      show ?thesis
      proof (cases "read_item ?token")
        case (Cpus xs)
        then show ?thesis using IH' [OF Cpus] at_end by (cases after) (simp_all add: n i)
      qed (simp_all add: n i)
    qed
  qed
qed

text \<open>No list holds a negative number: the only minus sign of an element separates its bounds.\<close>

lemma stoi_nonneg: "stoi cs = Some v \<Longrightarrow> CHR ''-'' \<notin> set cs \<Longrightarrow> 0 \<le> v"
proof -
  assume s: "stoi cs = Some v" and minus: "CHR ''-'' \<notin> set cs"
  obtain c ds where t: "dropWhile is_space cs = c # ds" using s by (cases "dropWhile is_space cs") (auto simp: stoi_def)
  then have "c \<in> set cs" by (metis list.set_intros(1) set_dropWhileD)
  then have "c \<noteq> CHR ''-''" using minus by blast
  then show "0 \<le> v" using s by (auto simp: stoi_def t signed_value_def i32_def split: if_splits)
qed

lemma read_item_nonneg: "read_item cs = Cpus xs \<Longrightarrow> x \<in> set xs \<Longrightarrow> 0 \<le> x"
  using stoi_nonneg [of cs] stoi_nonneg [of "takeWhile (\<lambda>c. c \<noteq> CHR ''-'') cs"]
  by (fastforce simp: read_item_def dest: set_takeWhileD split: if_splits option.splits)

lemma info_cpus_nonneg: "info_cpu_loop cpus cs = Some xs \<Longrightarrow> \<forall>x \<in> set cpus. 0 \<le> x \<Longrightarrow> x \<in> set xs \<Longrightarrow> 0 \<le> x"
proof (induction cpus cs rule: info_cpu_loop.induct)
  case (1 cpus cs)
  show ?case
  proof (cases "getline CHR '','' cs")
    case None
    then show ?thesis using 1 by (simp add: info_cpu_loop.simps [of cpus cs])
  next
    case (Some g)
    obtain line rest where g: "g = (line, rest)" by fastforce
    show ?thesis
    proof (cases "read_item line")
      case (Cpus ys)
      have "\<forall>y \<in> set (cpus @ ys). 0 \<le> y" using 1(3) read_item_nonneg [OF Cpus] by auto
      then show ?thesis using 1 Cpus Some by (simp add: info_cpu_loop.simps [of cpus cs] g)
    qed (use 1 Some in \<open>simp_all add: info_cpu_loop.simps [of cpus cs] g\<close>)
  qed
qed

lemma numa_cpus_nonneg: "numa_parse_cpu_list cs = Some xs \<Longrightarrow> x \<in> set xs \<Longrightarrow> 0 \<le> x"
  using info_cpus_nonneg [of "[]"] by (simp add: numa_parse_cpu_list_def loops_agree)

text \<open>The kernel's format: ranges joined with commas.\<close>

definition show_range :: "nat \<times> nat \<Rightarrow> string" where
  "show_range r = (if fst r = snd r then to_dec (fst r) else to_dec (fst r) @ CHR ''-'' # to_dec (snd r))"

fun show_ranges :: "(nat \<times> nat) list \<Rightarrow> string" where
  "show_ranges [] = []"
| "show_ranges [r] = show_range r"
| "show_ranges (r # q # rs) = show_range r @ CHR '','' # show_ranges (q # rs)"

definition range_cpus :: "nat \<times> nat \<Rightarrow> int list" where
  "range_cpus r = [int (fst r)..int (snd r)]"

definition range_ok :: "nat \<times> nat \<Rightarrow> bool" where
  "range_ok r \<longleftrightarrow> fst r \<le> snd r \<and> int (snd r) < i32_max"

lemma no_dash_to_dec: "CHR ''-'' \<notin> set (to_dec n)" and no_comma_to_dec: "CHR '','' \<notin> set (to_dec n)"
  using to_dec_digits [of "CHR ''-''" n] to_dec_digits [of "CHR '',''" n] is_digit_not by blast+

lemma read_item_range: "range_ok r \<Longrightarrow> read_item (show_range r) = Cpus (range_cpus r)"
proof (cases "fst r = snd r")
  case True
  assume "range_ok r"
  then show ?thesis using True no_dash_to_dec [of "snd r"] stoi_to_dec [of "snd r"]
    by (simp add: read_item_def show_range_def range_cpus_def range_ok_def)
next
  case False
  assume r: "range_ok r"
  then have "stoi (to_dec (fst r)) = Some (int (fst r))" "stoi (to_dec (snd r)) = Some (int (snd r))"
    by (auto intro!: stoi_to_dec simp: range_ok_def)
  then show ?thesis using False r
    by (simp add: read_item_def show_range_def range_cpus_def range_ok_def separator_free no_dash_to_dec)
qed

lemma no_comma_range: "CHR '','' \<notin> set (show_range r)" and show_range_not_Nil: "show_range r \<noteq> []"
  using no_comma_to_dec by (auto simp: show_range_def)

lemma info_loop_ranges:
  "list_all range_ok rs \<Longrightarrow> info_cpu_loop cpus (show_ranges rs) = Some (cpus @ concat (map range_cpus rs))"
proof (induction rs arbitrary: cpus rule: show_ranges.induct)
  case 1
  then show ?case by (subst info_cpu_loop.simps) (simp add: getline_def)
next
  case (2 r)
  have "getline CHR '','' (show_range r) = Some (show_range r, [])"
    by (rule getline_last [OF no_comma_range show_range_not_Nil])
  moreover have "info_cpu_loop cpus' [] = Some cpus'" for cpus'
    by (subst info_cpu_loop.simps) (simp add: getline_def)
  ultimately show ?case using 2 read_item_range by (subst info_cpu_loop.simps) simp
next
  case (3 r q rs)
  have "getline CHR '','' (show_range r @ CHR '','' # cs) = Some (show_range r, cs)" for cs
    by (rule getline_append [OF no_comma_range])
  then show ?case using 3 read_item_range by (subst info_cpu_loop.simps) simp
qed

section \<open>Properties\<close>

text \<open>C36: the index scan of \<open>NumaSupport\<close> and the stream loop of \<open>CpuInfo\<close> are the same function of the
  text: the same CPUs, the same rejections and the same undefined range.\<close>

theorem cpu_list_parsers_agree: "numa_parse_cpu_list cs = info_parse_cpu_list cs"
  by (simp add: numa_parse_cpu_list_def info_parse_cpu_list_def loops_agree)

text \<open>C37: reading back the kernel's list of CPU ranges gives the CPUs of the ranges, in order.\<close>

theorem cpu_list_roundtrip:
  assumes "list_all range_ok rs"
  shows "info_parse_cpu_list (show_ranges rs) = Some (concat (map range_cpus rs))"
  using info_loop_ranges [OF assms, of "[]"] by (simp add: info_parse_cpu_list_def)

theorem cpu_list_roundtrip_witness: "info_parse_cpu_list (show_ranges [(0, 3), (8, 8), (10, 11)]) = Some [0, 1, 2, 3, 8, 10, 11]"
  using cpu_list_roundtrip [of "[(0, 3), (8, 8), (10, 11)]"]
  by (simp add: range_ok_def i32_max_def range_cpus_def upto.simps)

end
