(* ===== verification/Topology.thy ===== *)
theory Topology
  imports Prelude Cpu_Lists "HOL-Library.Product_Lexorder" "HOL-Library.List_Lexorder" "HOL-Library.Char_ord"
begin

text \<open>
  Model of \<open>src/numa_support.cpp\<close> (nodes and distances; its allocator is in \<open>Memory\<close>),
  \<open>src/cpu_info.cpp\<close> (caches by CPUID leaf 4, cores and packages) and \<open>src/platform_utils.cpp\<close>
  (affinity).  The files under \<open>/sys\<close> and \<open>/proc\<close>, the CPUID instruction and the scheduler calls are
  parameters.  \<open>None\<close> is the undefined behaviour of \<open>Cpu_Lists\<close>.
\<close>

section \<open>Files and processor\<close>

text \<open>\<open>node_dir\<close> holds the entries of \<open>/sys/devices/system/node\<close> in iteration order, each with whether
  it is a directory; \<open>None\<close> when the path is not a directory.\<close>

record file_system =
  contents :: "string \<Rightarrow> string option"
  node_dir :: "(string \<times> bool) list option"

record regs =
  eax :: u32
  ebx :: u32
  ecx :: u32
  edx :: u32

text \<open>CPUID by leaf and subleaf; \<open>__get_cpuid\<close> of \<open>cpuid.h\<close> checks the leaf against the highest one.\<close>

type_synonym cpuid = "u32 \<Rightarrow> u32 \<Rightarrow> regs"

definition get_cpuid :: "cpuid \<Rightarrow> u32 \<Rightarrow> regs option" where
  "get_cpuid cpu leaf =
     (let highest = eax (cpu (leaf AND 0x80000000) 0)
      in if highest = 0 \<or> highest < leaf then None else Some (cpu leaf 0))"

definition max_basic_leaf :: "cpuid \<Rightarrow> u32" where
  "max_basic_leaf cpu = (case get_cpuid cpu 0 of None \<Rightarrow> 0 | Some r \<Rightarrow> eax r)"

text \<open>\<open>read_text\<close>: the first line, and whether anything was read; a missing file leaves the line empty.\<close>

definition read_text :: "file_system \<Rightarrow> string \<Rightarrow> bool \<times> string" where
  "read_text fs path =
     (case contents fs path of
        None \<Rightarrow> (False, [])
      | Some t \<Rightarrow> (t \<noteq> [], takeWhile (\<lambda>c. c \<noteq> CHR 0x0A) t))"

text \<open>\<open>read_int_file\<close>: the variable after the extraction and the result.\<close>

definition read_int_file :: "file_system \<Rightarrow> string \<Rightarrow> int \<Rightarrow> int \<times> bool" where
  "read_int_file fs path old =
     (case contents fs path of
        None \<Rightarrow> (old, False)
      | Some t \<Rightarrow> (case extract_int old t of (v, ok, _) \<Rightarrow> (v, ok)))"

section \<open>NUMA nodes\<close>

record node_info =
  node_id :: int
  node_cpus :: "int list"

definition parse_node_id :: "string \<Rightarrow> int option" where
  "parse_node_id name =
     (if take 4 name \<noteq> ''node'' \<or> length name \<le> 4 then None
      else case stoi (drop 4 name) of
             None \<Rightarrow> None
           | Some n \<Rightarrow> if 0 \<le> n then Some n else None)"

definition node_root :: string where "node_root = ''/sys/devices/system/node''"

text \<open>One directory entry: no node, a node, or undefined.\<close>

definition node_of_entry :: "file_system \<Rightarrow> string \<times> bool \<Rightarrow> node_info option option" where
  "node_of_entry fs entry =
     (if \<not> snd entry then Some None
      else case parse_node_id (fst entry) of
             None \<Rightarrow> Some None
           | Some n \<Rightarrow>
               do {
                 cpus \<leftarrow> numa_parse_cpu_list (snd (read_text fs (node_root @ ''/'' @ fst entry @ ''/cpulist'')));
                 Some (Some \<lparr>node_id = n, node_cpus = cpus\<rparr>)
               })"

fun collect_nodes :: "file_system \<Rightarrow> (string \<times> bool) list \<Rightarrow> node_info list option" where
  "collect_nodes fs [] = Some []"
| "collect_nodes fs (e # es) =
     do {
       entry \<leftarrow> node_of_entry fs e;
       ns \<leftarrow> collect_nodes fs es;
       Some (case entry of None \<Rightarrow> ns | Some n \<Rightarrow> n # ns)
     }"

definition numa_nodes :: "file_system \<Rightarrow> node_info list option" where
  "numa_nodes fs =
     (case node_dir fs of
        None \<Rightarrow> Some []
      | Some entries \<Rightarrow> map_option (sort_key node_id) (collect_nodes fs entries))"

definition node_for_cpu :: "file_system \<Rightarrow> int \<Rightarrow> int option" where
  "node_for_cpu fs cpu =
     (if cpu < 0 then Some (- 1)
      else map_option (\<lambda>ns. case find (\<lambda>n. cpu \<in> set (node_cpus n)) ns of None \<Rightarrow> - 1 | Some n \<Rightarrow> node_id n)
             (numa_nodes fs))"

text \<open>The index of the first element that satisfies \<open>P\<close>, the length when none does.\<close>

fun find_index :: "('a \<Rightarrow> bool) \<Rightarrow> 'a list \<Rightarrow> nat" where
  "find_index P [] = 0"
| "find_index P (x # xs) = (if P x then 0 else Suc (find_index P xs))"

definition distance :: "file_system \<Rightarrow> int \<Rightarrow> int \<Rightarrow> int option" where
  "distance fs from_node to_node =
     (if from_node < 0 \<or> to_node < 0 then Some (- 1)
      else case contents fs (node_root @ ''/node'' @ to_string from_node @ ''/distance'') of
             None \<Rightarrow> Some (- 1)
           | Some t \<Rightarrow>
               (let values = read_ints 0 t in
                map_option (\<lambda>ns. let index = find_index (\<lambda>n. node_id n = to_node) ns
                                in if index = length ns then - 1
                                   else if index < length values then values ! index else - 1)
                  (numa_nodes fs)))"

section \<open>Caches\<close>

record cache_level =
  cl_level :: int
  cl_size :: u64
  cl_line :: u64
  cache_type :: string

text \<open>One subleaf of leaf 4: the end of the enumeration (\<open>None\<close>), a level that is skipped
  (\<open>Some None\<close>), or a cache.\<close>

definition decode_cache :: "regs \<Rightarrow> cache_level option option" where
  "decode_cache info =
     (let kind = eax info AND 0x1F;
          level = uint (drop_bit 5 (eax info) AND 0x7)
      in if kind = 0 then None
         else if level < 1 \<or> 3 < level then Some None
         else if kind = 2 then Some None
         else
           let line = ucast ((ebx info AND 0xFFF) + 1) :: u64;
               partitions = ucast ((drop_bit 12 (ebx info) AND 0x3FF) + 1);
               ways = ucast ((drop_bit 22 (ebx info) AND 0x3FF) + 1);
               sets = ucast (ecx info) + 1
           in Some (Some \<lparr>cl_level = level, cl_size = line * partitions * ways * sets, cl_line = line,
                          cache_type = (if kind = 1 then ''Data'' else ''Unified'')\<rparr>))"

fun cache_loop :: "cpuid \<Rightarrow> nat \<Rightarrow> u32 \<Rightarrow> cache_level list" where
  "cache_loop cpu 0 subleaf = []"
| "cache_loop cpu (Suc n) subleaf =
     (case decode_cache (cpu 4 subleaf) of
        None \<Rightarrow> []
      | Some None \<Rightarrow> cache_loop cpu n (subleaf + 1)
      | Some (Some c) \<Rightarrow> c # cache_loop cpu n (subleaf + 1))"

definition detect_caches :: "cpuid \<Rightarrow> cache_level list" where
  "detect_caches cpu =
     (if max_basic_leaf cpu < 4 then []
      else sort_key (\<lambda>c. (cl_level c, cache_type c)) (cache_loop cpu 32 0))"

definition cpu_cache_line_size :: "cpuid \<Rightarrow> u64" where
  "cpu_cache_line_size cpu =
     (case find (\<lambda>c. cl_line c \<noteq> 0) (detect_caches cpu) of None \<Rightarrow> 64 | Some c \<Rightarrow> cl_line c)"

section \<open>Cores and packages\<close>

definition cpu_dir :: "int \<Rightarrow> string" where
  "cpu_dir cpu = ''/sys/devices/system/cpu/cpu'' @ to_string cpu"

definition cpu_topology_pair :: "file_system \<Rightarrow> int \<Rightarrow> int \<times> int" where
  "cpu_topology_pair fs cpu =
     (fst (read_int_file fs (cpu_dir cpu @ ''/topology/physical_package_id'') 0),
      fst (read_int_file fs (cpu_dir cpu @ ''/topology/core_id'') cpu))"

text \<open>\<open>CpuInfo::model_name\<close>: the first line of \<open>/proc/cpuinfo\<close> with the key and a colon.\<close>

fun model_line :: "string list \<Rightarrow> string" where
  "model_line [] = ''Unknown x86 CPU''"
| "model_line (l # ls) =
     (if take 10 l \<noteq> ''model name'' then model_line ls
      else if CHR '':'' \<notin> set l then model_line ls
      else dropWhile (\<lambda>c. c = CHR '' '') (drop 1 (dropWhile (\<lambda>c. c \<noteq> CHR '':'') l)))"

definition model_name :: "file_system \<Rightarrow> string" where
  "model_name fs =
     model_line (case contents fs ''/proc/cpuinfo'' of None \<Rightarrow> [] | Some t \<Rightarrow> lines_of CHR 0x0A t)"

record cpu_topology =
  logical_cpus :: int
  physical_cores :: int
  packages :: int
  smt_capable :: bool
  smt_active :: bool

text \<open>The counts, from the set of (package, core) pairs.\<close>

definition count_cores :: "int \<Rightarrow> bool \<Rightarrow> (int \<times> int) set \<Rightarrow> cpu_topology" where
  "count_cores logical capable cores =
     (let (physical, package_count) =
        (if cores \<noteq> {} then (int (card cores), int (card (fst ` cores))) else (logical, 1))
      in \<lparr>logical_cpus = logical, physical_cores = physical, packages = package_count,
          smt_capable = capable, smt_active = (physical < logical)\<rparr>)"

text \<open>\<open>online\<close> is the result of \<open>sysconf(_SC_NPROCESSORS_ONLN)\<close>.\<close>

definition topology :: "file_system \<Rightarrow> cpuid \<Rightarrow> int \<Rightarrow> cpu_topology option" where
  "topology fs cpu online =
     (let logical = (if 0 < online then online else 1);
          capable = (case get_cpuid cpu 1 of None \<Rightarrow> False | Some r \<Rightarrow> bit (edx r) 28)
      in do {
        cpus \<leftarrow> (case contents fs ''/sys/devices/system/cpu/online'' of
                  None \<Rightarrow> Some []
                | Some t \<Rightarrow> info_parse_cpu_list (takeWhile (\<lambda>c. c \<noteq> CHR 0x0A) t));
        Some (count_cores logical capable (set (map (cpu_topology_pair fs) cpus)))
      })"

definition has_hyperthreading :: "file_system \<Rightarrow> cpuid \<Rightarrow> int \<Rightarrow> bool option" where
  "has_hyperthreading fs cpu online = map_option smt_active (topology fs cpu online)"

definition logical_cores :: "file_system \<Rightarrow> cpuid \<Rightarrow> int \<Rightarrow> int option" where
  "logical_cores fs cpu online = map_option logical_cpus (topology fs cpu online)"

definition physical_core_count :: "file_system \<Rightarrow> cpuid \<Rightarrow> int \<Rightarrow> int option" where
  "physical_core_count fs cpu online = map_option physical_cores (topology fs cpu online)"

definition choose_distinct_cpu :: "file_system \<Rightarrow> int \<Rightarrow> int list \<Rightarrow> int" where
  "choose_distinct_cpu fs primary allowed =
     (if length allowed < 2 then primary
      else case find (\<lambda>cpu. cpu \<noteq> primary \<and> cpu_topology_pair fs cpu \<noteq> cpu_topology_pair fs primary) allowed of
             Some cpu \<Rightarrow> cpu
           | None \<Rightarrow> allowed ! 1)"

section \<open>Affinity\<close>

definition cpu_setsize :: nat where "cpu_setsize = 1024"

text \<open>\<open>affinity\<close> is the mask \<open>sched_getaffinity\<close> returns, \<open>None\<close> when it fails.\<close>

definition allowed_cpus :: "(nat \<Rightarrow> bool) option \<Rightarrow> int list" where
  "allowed_cpus affinity =
     (case affinity of None \<Rightarrow> [] | Some permitted \<Rightarrow> map int (filter permitted [0..<cpu_setsize]))"

text \<open>\<open>set_affinity\<close> answers \<open>sched_setaffinity\<close> for the set with one CPU.\<close>

definition pin_current_thread :: "(nat \<Rightarrow> bool) \<Rightarrow> int \<Rightarrow> bool" where
  "pin_current_thread set_affinity cpu =
     (if cpu < 0 \<or> int cpu_setsize \<le> cpu then False else set_affinity (nat cpu))"

text \<open>\<open>set_priority\<close> answers \<open>setpriority\<close> for the calling process; the header gives the default value.\<close>

definition raise_priority_best_effort :: "(int \<Rightarrow> int) \<Rightarrow> int \<Rightarrow> bool" where
  "raise_priority_best_effort set_priority nice_value = (set_priority nice_value = 0)"

definition default_nice_value :: int where "default_nice_value = - 10"

section \<open>Lemmas\<close>

subsection \<open>Integers in text\<close>

text \<open>The kernel's format of a row of distances.\<close>

fun show_ints :: "nat list \<Rightarrow> string" where
  "show_ints [] = []"
| "show_ints [n] = to_dec n"
| "show_ints (n # m # ns) = to_dec n @ CHR '' '' # show_ints (m # ns)"

lemma extract_int_dec:
  assumes "int n \<le> i32_max" "\<And>c cs. rest = c # cs \<Longrightarrow> \<not> is_digit c"
  shows "extract_int old (to_dec n @ rest) = (int n, True, rest)"
proof -
  obtain c cs where c: "to_dec n = c # cs" "is_digit c" by (rule to_dec_Cons)
  have d: "takeWhile is_digit (to_dec n @ rest) = to_dec n" "dropWhile is_digit (to_dec n @ rest) = rest"
    using assms(2) to_dec_digits by (cases rest; simp add: takeWhile_append2 dropWhile_append2
        takeWhile_digits takeWhile_digits_append dropWhile_append dropWhile_eq_Nil_conv)+
  moreover have "i32_min \<le> int n" by (simp add: i32_min_def)
  moreover have "dropWhile is_space (to_dec n @ rest) = to_dec n @ rest" using c digit_not_space by simp
  moreover have "hd (to_dec n @ rest) \<noteq> CHR ''-''" "hd (to_dec n @ rest) \<noteq> CHR ''+''" using c by auto
  ultimately show ?thesis using assms(1) by (simp add: extract_int_def extract_number_def Let_def)
qed

lemma extract_int_space: "is_space c \<Longrightarrow> extract_int old (c # cs) = extract_int old cs"
  by (simp add: extract_int_def extract_number_def)

lemma read_ints_space: "is_space c \<Longrightarrow> read_ints old (c # cs) = read_ints old cs"
  by (subst (1 2) read_ints.simps) (simp add: extract_int_space)

lemma is_space_facts [simp]: "is_space CHR '' ''" "is_space CHR 0x0A" "\<not> is_digit CHR 0x0A"
  by (simp_all add: is_space_def is_digit_def)

lemma read_ints_row:
  "list_all (\<lambda>d. int d \<le> i32_max) ds \<Longrightarrow> read_ints old (show_ints ds @ [CHR 0x0A]) = map int ds"
proof (induction ds arbitrary: old rule: show_ints.induct)
  case (2 n)
  have "read_ints (int n) [CHR 0x0A] = []"
    by (subst read_ints.simps) (simp add: extract_int_def extract_number_def)
  moreover have "extract_int old (to_dec n @ [CHR 0x0A]) = (int n, True, [CHR 0x0A])"
    using 2 by (intro extract_int_dec) auto
  ultimately show ?case by (subst read_ints.simps) simp
next
  case (3 n m ns)
  then have "extract_int old (to_dec n @ CHR '' '' # show_ints (m # ns) @ [CHR 0x0A])
      = (int n, True, CHR '' '' # show_ints (m # ns) @ [CHR 0x0A])"
    by (intro extract_int_dec) auto
  then show ?case using 3 by (subst read_ints.simps) (simp add: read_ints_space del: show_ints.simps(2))
qed (subst read_ints.simps, simp add: extract_int_def extract_number_def)

subsection \<open>Nodes\<close>

lemma find_index_nth:
  "i < length xs \<Longrightarrow> P (xs ! i) \<Longrightarrow> \<forall>j<i. \<not> P (xs ! j) \<Longrightarrow> find_index P xs = i"
proof (induction xs arbitrary: i)
  case (Cons x xs)
  then show ?case by (cases i) (auto simp: All_less_Suc2)
qed simp

lemma find_sorted_least:
  assumes "sorted (map f xs)" "find P xs = Some x"
  shows "x \<in> set xs \<and> P x \<and> (\<forall>y \<in> set xs. P y \<longrightarrow> f x \<le> f y)"
  using assms by (induction xs) (auto split: if_splits)

lemma nodes_sorted: "numa_nodes fs = Some ns \<Longrightarrow> sorted (map node_id ns)"
  by (auto simp: numa_nodes_def split: option.splits)

lemma node_of_entry_id: "node_of_entry fs e = Some (Some n) \<Longrightarrow> 0 \<le> node_id n"
  by (auto simp: node_of_entry_def parse_node_id_def bind_eq_Some_conv split: if_splits option.splits)

lemma collect_nodes_ids: "collect_nodes fs es = Some ns \<Longrightarrow> n \<in> set ns \<Longrightarrow> 0 \<le> node_id n"
  by (induction es arbitrary: ns) (auto simp: bind_eq_Some_conv dest: node_of_entry_id split: option.splits)

lemma nodes_ids: "numa_nodes fs = Some ns \<Longrightarrow> n \<in> set ns \<Longrightarrow> 0 \<le> node_id n"
  by (auto simp: numa_nodes_def dest: collect_nodes_ids split: option.splits)

lemma node_of_entry_cpus: "node_of_entry fs e = Some (Some n) \<Longrightarrow> c \<in> set (node_cpus n) \<Longrightarrow> 0 \<le> c"
  by (auto simp: node_of_entry_def bind_eq_Some_conv dest: numa_cpus_nonneg split: if_splits option.splits)

lemma collect_nodes_cpus: "collect_nodes fs es = Some ns \<Longrightarrow> n \<in> set ns \<Longrightarrow> c \<in> set (node_cpus n) \<Longrightarrow> 0 \<le> c"
  by (induction es arbitrary: ns) (auto simp: bind_eq_Some_conv dest: node_of_entry_cpus split: option.splits)

lemma nodes_cpus: "numa_nodes fs = Some ns \<Longrightarrow> n \<in> set ns \<Longrightarrow> c \<in> set (node_cpus n) \<Longrightarrow> 0 \<le> c"
  by (auto simp: numa_nodes_def dest: collect_nodes_cpus split: option.splits)

subsection \<open>Caches\<close>

lemma unat_and_bits: "unat (w AND mask n) < 2 ^ n"
  by (simp add: take_bit_eq_mask [symmetric] unsigned_take_bit_eq)

text \<open>The four factors of a cache size as natural numbers.\<close>

definition cache_factors :: "regs \<Rightarrow> nat \<times> nat \<times> nat \<times> nat" where
  "cache_factors r =
     (unat (ebx r AND mask 12) + 1, unat (drop_bit 12 (ebx r) AND mask 10) + 1,
      unat (drop_bit 22 (ebx r) AND mask 10) + 1, unat (ecx r) + 1)"

lemma masks: "(0xFFF :: u32) = mask 12" "(0x3FF :: u32) = mask 10" "(0x7 :: u32) = mask 3"
  by (simp_all add: mask_eq_exp_minus_1)

lemma unat_field: "n \<le> 12 \<Longrightarrow> unat (ucast ((w AND mask n) + 1 :: u32) :: u64) = unat (w AND mask n) + 1"
proof -
  assume "n \<le> 12"
  then have "(2::nat) ^ n \<le> 2 ^ 12" by (intro power_increasing) simp_all
  then have b: "unat (w AND mask n) < 4096" using unat_and_bits [of w n] by simp
  then have "unat ((w AND mask n) + 1) = unat (w AND mask n) + 1"
    by (simp add: unat_word_ariths)
  then show ?thesis using b by (simp add: unsigned_ucast_eq take_bit_nat_eq_self)
qed

lemma unat_product4: "unat (a * b * c * d :: u64) = (unat a * unat b * unat c * unat d) mod 2 ^ 64"
  by (simp add: unat_word_ariths mod_simps)

lemma decode_cache_fields:
  assumes "decode_cache r = Some (Some c)" "cache_factors r = (l, p, w, s)"
  shows "1 \<le> cl_level c \<and> cl_level c \<le> 3 \<and> unat (cl_line c) = l \<and> 1 \<le> l \<and> l \<le> 4096
    \<and> unat (cl_size c) = (l * p * w * s) mod 2 ^ 64"
proof -
  have "unat (ecx r) < 2 ^ 32" using unsigned_less [of "ecx r"] by simp
  then have s: "unat (ucast (ecx r) + 1 :: u64) = unat (ecx r) + 1"
    by (simp add: unat_word_ariths unsigned_ucast_eq take_bit_nat_eq_self)
  have l: "unat (ebx r AND mask 12) < 4096" using unat_and_bits [of "ebx r" 12] by simp
  show ?thesis
    using assms s l unat_field [of 12 "ebx r"] unat_field [of 10 "drop_bit 12 (ebx r)"]
      unat_field [of 10 "drop_bit 22 (ebx r)"]
    by (auto simp: decode_cache_def cache_factors_def Let_def masks unat_product4 simp del: One_nat_def split: if_splits)
qed

text \<open>Leaf 4 by arithmetic on the registers: the type, the level, and the cache.\<close>

definition leaf4_kind :: "regs \<Rightarrow> nat" where "leaf4_kind r = unat (eax r) mod 32"

definition leaf4_level :: "regs \<Rightarrow> nat" where "leaf4_level r = unat (eax r) div 32 mod 8"

definition leaf4_cache :: "regs \<Rightarrow> nat \<times> string \<times> nat \<times> nat" where
  "leaf4_cache r =
     (let line = unat (ebx r) mod 4096 + 1;
          partitions = unat (ebx r) div 4096 mod 1024 + 1;
          ways = unat (ebx r) div 4194304 + 1;
          sets = unat (ecx r) + 1
      in (leaf4_level r, if leaf4_kind r = 1 then ''Data'' else ''Unified'', line,
          line * partitions * ways * sets mod 2 ^ 64))"

definition cache_view :: "cache_level \<Rightarrow> nat \<times> string \<times> nat \<times> nat" where
  "cache_view c = (nat (cl_level c), cache_type c, unat (cl_line c), unat (cl_size c))"

lemma unat_and_mask: "unat (w AND mask n) = unat w mod 2 ^ n"
  by (simp add: take_bit_eq_mask [symmetric] unsigned_take_bit_eq flip: take_bit_eq_mod)

lemma unat_field_value: "unat (drop_bit m w AND mask n) = unat w div 2 ^ m mod 2 ^ n"
  using unat_drop_bit_eq [of m w] by (simp only: unat_and_mask drop_bit_eq_div)

lemma cache_factors_arith:
  "cache_factors r = (unat (ebx r) mod 4096 + 1, unat (ebx r) div 4096 mod 1024 + 1,
     unat (ebx r) div 4194304 + 1, unat (ecx r) + 1)"
proof -
  have "unat (ebx r) < 4294967296" using unsigned_less [of "ebx r"] by simp
  then have "unat (ebx r) div 4194304 < 1024" by (simp add: less_mult_imp_div_less)
  then show ?thesis
    unfolding cache_factors_def using unat_field_value [of 12 "ebx r" 10] unat_field_value [of 22 "ebx r" 10]
    by (simp add: unat_and_mask)
qed

lemma decode_cache_arith:
  "leaf4_kind r = 0 \<Longrightarrow> decode_cache r = None"
  "leaf4_kind r \<noteq> 0 \<Longrightarrow> leaf4_kind r = 2 \<or> leaf4_level r \<notin> {1, 2, 3} \<Longrightarrow> decode_cache r = Some None"
  "leaf4_kind r \<noteq> 0 \<Longrightarrow> leaf4_kind r \<noteq> 2 \<Longrightarrow> leaf4_level r \<in> {1, 2, 3} \<Longrightarrow>
     \<exists>c. decode_cache r = Some (Some c) \<and> cache_view c = leaf4_cache r"
proof -
  have five: "(0x1F :: u32) = mask 5" by (simp add: mask_eq_exp_minus_1)
  have kind: "eax r AND 0x1F = k \<longleftrightarrow> leaf4_kind r = unat k" for k
    unfolding five word_unat_eq_iff unat_and_mask leaf4_kind_def by simp
  have level: "uint (drop_bit 5 (eax r) AND 0x7) = int (leaf4_level r)"
    using unat_field_value [of 5 "eax r" 3] by (simp add: leaf4_level_def masks uint_nat del: of_nat_unat)
  show "decode_cache r = None" if "leaf4_kind r = 0"
    using that kind [of 0] by (simp add: decode_cache_def)
  show "decode_cache r = Some None" if "leaf4_kind r \<noteq> 0" "leaf4_kind r = 2 \<or> leaf4_level r \<notin> {1, 2, 3}"
    using that kind [of 0] kind [of 2] by (auto simp: decode_cache_def level Let_def)
  show "\<exists>c. decode_cache r = Some (Some c) \<and> cache_view c = leaf4_cache r"
    if that: "leaf4_kind r \<noteq> 0" "leaf4_kind r \<noteq> 2" "leaf4_level r \<in> {1, 2, 3}"
  proof -
    have "\<exists>c. decode_cache r = Some (Some c) \<and> cl_level c = int (leaf4_level r)
        \<and> cache_type c = (if leaf4_kind r = 1 then ''Data'' else ''Unified'')"
      unfolding decode_cache_def Let_def level kind using that by auto
    then obtain c where c: "decode_cache r = Some (Some c)"
      and f: "cl_level c = int (leaf4_level r)" "cache_type c = (if leaf4_kind r = 1 then ''Data'' else ''Unified'')"
      by blast
    then show ?thesis
      using decode_cache_fields [OF c cache_factors_arith]
      by (simp add: cache_view_def leaf4_cache_def Let_def)
  qed
qed

lemma cache_loop_view:
  "map cache_view (cache_loop cpu n (of_nat k)) =
     map (\<lambda>j. leaf4_cache (cpu 4 (of_nat j)))
       (filter (\<lambda>j. leaf4_kind (cpu 4 (of_nat j)) \<noteq> 2 \<and> leaf4_level (cpu 4 (of_nat j)) \<in> {1, 2, 3})
         (takeWhile (\<lambda>j. leaf4_kind (cpu 4 (of_nat j)) \<noteq> 0) [k..<k + n]))"
proof (induction n arbitrary: k)
  case (Suc n)
  let ?r = "cpu 4 (of_nat k)"
  have upt: "[k..<Suc (k + n)] = k # [Suc k..<Suc (k + n)]" by (rule upt_conv_Cons) simp
  have next_subleaf: "(of_nat k + 1 :: u32) = of_nat (Suc k)" by simp
  consider (stop) "leaf4_kind ?r = 0"
    | (skip) "leaf4_kind ?r \<noteq> 0" "leaf4_kind ?r = 2 \<or> leaf4_level ?r \<notin> {1, 2, 3}"
    | (cache) "leaf4_kind ?r \<noteq> 0" "leaf4_kind ?r \<noteq> 2" "leaf4_level ?r \<in> {1, 2, 3}"
    by blast
  then show ?case
  proof cases
    case stop
    then show ?thesis by (simp add: upt decode_cache_arith(1) del: upt_Suc)
  next
    case skip
    then show ?thesis
      using Suc.IH [of "Suc k"] decode_cache_arith(2) [OF skip] by (auto simp: upt next_subleaf simp del: upt_Suc of_nat_Suc)
  next
    case cache
    then obtain c where "decode_cache ?r = Some (Some c)" "cache_view c = leaf4_cache ?r"
      using decode_cache_arith(3) by blast
    then show ?thesis
      using Suc.IH [of "Suc k"] cache by (simp add: upt next_subleaf del: upt_Suc of_nat_Suc)
  qed
qed simp

lemma cache_loop_mem: "c \<in> set (cache_loop cpu n k) \<Longrightarrow> \<exists>j. decode_cache (cpu 4 j) = Some (Some c)"
proof (induction n arbitrary: k)
  case (Suc n)
  then show ?case by (cases "decode_cache (cpu 4 k)") (auto split: option.splits intro: exI [of _ k])
qed simp

lemma length_cache_loop: "length (cache_loop cpu n k) \<le> n"
  by (induction n arbitrary: k) (auto split: option.splits intro: le_SucI)

lemma detect_caches_mem: "c \<in> set (detect_caches cpu) \<Longrightarrow> \<exists>j. decode_cache (cpu 4 j) = Some (Some c)"
  by (auto simp: detect_caches_def dest: cache_loop_mem split: if_splits)

lemma detect_caches_line: "c \<in> set (detect_caches cpu) \<Longrightarrow> 1 \<le> unat (cl_line c) \<and> unat (cl_line c) \<le> 4096"
  using detect_caches_mem [of c cpu] decode_cache_fields by (metis prod_cases4)

subsection \<open>Cores and affinity\<close>

lemma allowed_cpus_facts:
  "sorted_wrt (<) (allowed_cpus a) \<and> (\<forall>cpu \<in> set (allowed_cpus a). 0 \<le> cpu \<and> cpu < int cpu_setsize)"
  by (auto simp: allowed_cpus_def sorted_wrt_map intro: sorted_wrt_filter split: option.splits)

lemma count_cores_well_formed:
  assumes "finite cores" "1 \<le> logical" "t = count_cores logical capable cores"
  shows "1 \<le> logical_cpus t \<and> 1 \<le> packages t \<and> packages t \<le> physical_cores t
     \<and> (smt_active t \<longleftrightarrow> physical_cores t < logical_cpus t)"
  using assms by (auto simp: count_cores_def card_image_le Suc_le_eq card_gt_0_iff)

text \<open>A machine with two nodes of two CPUs each, listed out of order, and a file that is no node.\<close>

definition two_nodes :: file_system where
  "two_nodes = \<lparr>contents = map_of
      [(''/sys/devices/system/node/node0/cpulist'', ''0-1'' @ [CHR 0x0A]),
       (''/sys/devices/system/node/node1/cpulist'', ''2,3'' @ [CHR 0x0A]),
       (''/sys/devices/system/node/node1/distance'', ''21 10'' @ [CHR 0x0A]),
       (''/sys/devices/system/cpu/online'', ''0-3'' @ [CHR 0x0A]),
       (''/sys/devices/system/cpu/cpu1/topology/core_id'', ''0'' @ [CHR 0x0A])],
     node_dir = Some [(''node1'', True), (''possible'', False), (''node0'', True)]\<rparr>"

lemma two_nodes_nodes:
  "numa_nodes two_nodes = Some [\<lparr>node_id = 0, node_cpus = [0, 1]\<rparr>, \<lparr>node_id = 1, node_cpus = [2, 3]\<rparr>]"
  by code_simp

section \<open>Properties\<close>

text \<open>the node reported for a CPU is the smallest node whose list contains it, and -1 exactly when no
  list does.\<close>

theorem node_for_cpu_least:
  assumes "numa_nodes fs = Some ns" "0 \<le> cpu"
  shows "\<exists>n. node_for_cpu fs cpu = Some n
     \<and> (n = - 1 \<longleftrightarrow> (\<forall>x \<in> set ns. cpu \<notin> set (node_cpus x)))
     \<and> (n \<noteq> - 1 \<longrightarrow> (\<exists>x \<in> set ns. node_id x = n \<and> cpu \<in> set (node_cpus x))
          \<and> (\<forall>y \<in> set ns. cpu \<in> set (node_cpus y) \<longrightarrow> n \<le> node_id y))"
proof (cases "find (\<lambda>n. cpu \<in> set (node_cpus n)) ns")
  case None
  then have "\<forall>x \<in> set ns. cpu \<notin> set (node_cpus x)" by (simp add: find_None_iff)
  then show ?thesis using assms by (simp add: node_for_cpu_def None)
next
  case (Some x)
  note x = find_sorted_least [OF nodes_sorted [OF assms(1)] Some]
  then have "0 \<le> node_id x" using nodes_ids [OF assms(1)] by blast
  then show ?thesis using assms Some x by (auto simp: node_for_cpu_def)
qed

theorem node_for_cpu_least_witness: "node_for_cpu two_nodes 3 = Some 1 \<and> node_for_cpu two_nodes 9 = Some (- 1)"
  using node_for_cpu_least [OF two_nodes_nodes, of 3] node_for_cpu_least [OF two_nodes_nodes, of 9] by auto

text \<open>the distance row of a node, as the kernel writes it for the nodes in order of their ids, is read back
  to the node it belongs to; nodes the directory does not list have distance -1.\<close>

theorem distance_roundtrip:
  assumes "numa_nodes fs = Some ns" "distinct (map node_id ns)" "0 \<le> from_node" "length ds = length ns"
    and "contents fs (''/sys/devices/system/node/node'' @ to_string from_node @ ''/distance'')
           = Some (show_ints ds @ [CHR 0x0A])"
    and "list_all (\<lambda>d. int d \<le> i32_max) ds"
  shows "(\<forall>i < length ns. distance fs from_node (node_id (ns ! i)) = Some (int (ds ! i)))
     \<and> (\<forall>n. n \<notin> set (map node_id ns) \<longrightarrow> distance fs from_node n = Some (- 1))"
proof (intro conjI allI impI)
  note row = read_ints_row [OF assms(6), of 0]
  fix i assume i: "i < length ns"
  have "\<forall>j<i. node_id (ns ! j) \<noteq> node_id (ns ! i)"
    using assms(2) i by (auto simp: distinct_conv_nth)
  then have "find_index (\<lambda>n. node_id n = node_id (ns ! i)) ns = i" using i by (intro find_index_nth) simp_all
  moreover have "0 \<le> node_id (ns ! i)" using nodes_ids [OF assms(1)] i by simp
  ultimately show "distance fs from_node (node_id (ns ! i)) = Some (int (ds ! i))"
    using assms(1,3-5) i row by (simp add: distance_def node_root_def Let_def)
next
  fix n assume "n \<notin> set (map node_id ns)"
  then have "find_index (\<lambda>x. node_id x = n) ns = length ns" by (induction ns) auto
  then show "distance fs from_node n = Some (- 1)"
    using assms(1,5) by (simp add: distance_def node_root_def Let_def)
qed

theorem distance_roundtrip_witness:
  "distance two_nodes 1 0 = Some 21 \<and> distance two_nodes 1 1 = Some 10 \<and> distance two_nodes 1 7 = Some (- 1)"
proof -
  have t: "contents two_nodes (''/sys/devices/system/node/node'' @ to_string 1 @ ''/distance'')
      = Some (show_ints [21, 10] @ [CHR 0x0A])" by code_simp
  show ?thesis
    using distance_roundtrip [OF two_nodes_nodes _ _ _ t] by (simp add: i32_max_def All_less_Suc2)
qed

text \<open>C38: the caches are those of leaf 4, all of them and no others, in order of level and type: the subleaves
  are enumerated up to the first without a cache, at most 32; one that describes an instruction cache or a level
  outside 1 to 3 is skipped, and every other appears once with its level, its type, its line size and its size,
  the product of line, partitions, ways and sets modulo 2 ^ 64, as arithmetic on the registers gives them.  A
  processor without leaf 4 has no cache.  The cache line size is that of the first cache, 64 without caches.\<close>

theorem detected_caches:
  "mset (map cache_view (detect_caches cpu)) =
     (if max_basic_leaf cpu < 4 then {#}
      else mset (map (\<lambda>j. leaf4_cache (cpu 4 (of_nat j)))
             (filter (\<lambda>j. leaf4_kind (cpu 4 (of_nat j)) \<noteq> 2 \<and> leaf4_level (cpu 4 (of_nat j)) \<in> {1, 2, 3})
               (takeWhile (\<lambda>j. leaf4_kind (cpu 4 (of_nat j)) \<noteq> 0) [0..<32]))))
   \<and> sorted (map (\<lambda>c. (cl_level c, cache_type c)) (detect_caches cpu))
   \<and> unat (cpu_cache_line_size cpu) = (case detect_caches cpu of [] \<Rightarrow> 64 | c # cs \<Rightarrow> unat (cl_line c))"
proof (intro conjI)
  show "mset (map cache_view (detect_caches cpu)) =
     (if max_basic_leaf cpu < 4 then {#}
      else mset (map (\<lambda>j. leaf4_cache (cpu 4 (of_nat j)))
             (filter (\<lambda>j. leaf4_kind (cpu 4 (of_nat j)) \<noteq> 2 \<and> leaf4_level (cpu 4 (of_nat j)) \<in> {1, 2, 3})
               (takeWhile (\<lambda>j. leaf4_kind (cpu 4 (of_nat j)) \<noteq> 0) [0..<32]))))"
    using arg_cong [OF cache_loop_view [of cpu 32 0], of mset] by (simp add: detect_caches_def)
  show "sorted (map (\<lambda>c. (cl_level c, cache_type c)) (detect_caches cpu))"
    by (simp add: detect_caches_def)
  show "unat (cpu_cache_line_size cpu) = (case detect_caches cpu of [] \<Rightarrow> 64 | c # cs \<Rightarrow> unat (cl_line c))"
    using detect_caches_line [of "hd (detect_caches cpu)" cpu]
    by (cases "detect_caches cpu") (auto simp: cpu_cache_line_size_def)
qed

text \<open>Leaf 4 of a processor with a unified second level of 1 MiB and a 32 KiB first level for data and one for
  instructions.\<close>

definition three_caches :: cpuid where
  "three_caches leaf subleaf =
     (if leaf = 0 then \<lparr>eax = 4, ebx = 0, ecx = 0, edx = 0\<rparr>
      else if leaf = 4 \<and> subleaf = 0 then \<lparr>eax = 0x43, ebx = 0x03C0003F, ecx = 0x3FF, edx = 0\<rparr>
      else if leaf = 4 \<and> subleaf = 1 then \<lparr>eax = 0x22, ebx = 0x01C0003F, ecx = 0x3F, edx = 0\<rparr>
      else if leaf = 4 \<and> subleaf = 2 then \<lparr>eax = 0x21, ebx = 0x01C0003F, ecx = 0x3F, edx = 0\<rparr>
      else \<lparr>eax = 0, ebx = 0, ecx = 0, edx = 0\<rparr>)"

theorem detected_caches_witness:
  "detect_caches three_caches =
     [\<lparr>cl_level = 1, cl_size = 0x8000, cl_line = 64, cache_type = ''Data''\<rparr>,
      \<lparr>cl_level = 2, cl_size = 0x100000, cl_line = 64, cache_type = ''Unified''\<rparr>]
   \<and> unat (cpu_cache_line_size three_caches) = 64"
proof -
  have "detect_caches three_caches =
     [\<lparr>cl_level = 1, cl_size = 0x8000, cl_line = 64, cache_type = ''Data''\<rparr>,
      \<lparr>cl_level = 2, cl_size = 0x100000, cl_line = 64, cache_type = ''Unified''\<rparr>]"
    by code_simp
  then show ?thesis using detected_caches [of three_caches] by simp
qed

text \<open>the topology is well formed: at least one logical CPU, core and package, no more packages than cores,
  and SMT is reported active exactly when there are more logical CPUs than cores.\<close>

theorem topology_well_formed:
  assumes "topology fs cpu online = Some t"
  shows "1 \<le> logical_cpus t \<and> 1 \<le> packages t \<and> packages t \<le> physical_cores t
     \<and> (smt_active t \<longleftrightarrow> physical_cores t < logical_cpus t)"
proof -
  define logical where "logical = (if 0 < online then online else 1)"
  define capable where "capable = (case get_cpuid cpu 1 of None \<Rightarrow> False | Some r \<Rightarrow> bit (edx r) 28)"
  obtain cpus where "t = count_cores logical capable (set (map (cpu_topology_pair fs) cpus))"
    using assms unfolding topology_def Let_def logical_def [symmetric] capable_def [symmetric] bind_eq_Some_conv by blast
  then show ?thesis by (rule count_cores_well_formed [rotated 2]) (simp_all add: logical_def)
qed

theorem topology_well_formed_witness:
  "\<exists>t. topology \<lparr>contents = Map.empty, node_dir = None\<rparr> three_caches 4 = Some t \<and> packages t \<le> physical_cores t"
proof -
  have "topology \<lparr>contents = Map.empty, node_dir = None\<rparr> three_caches 4
      = Some \<lparr>logical_cpus = 4, physical_cores = 4, packages = 1,
          smt_capable = (case get_cpuid three_caches 1 of None \<Rightarrow> False | Some r \<Rightarrow> bit (edx r) 28), smt_active = False\<rparr>"
    by (simp add: topology_def count_cores_def)
  from topology_well_formed [OF this] this show ?thesis by blast
qed

text \<open>the second CPU of the shared-memory test: with at least two allowed CPUs and the first as primary, it is
  an allowed CPU other than the primary, in the range the affinity calls accept, and on another core whenever
  an allowed CPU is.\<close>

theorem secondary_cpu_distinct:
  assumes "allowed_cpus affinity = primary # others" "others \<noteq> []"
  shows "(let secondary = choose_distinct_cpu fs primary (primary # others) in
     secondary \<in> set others \<and> secondary \<noteq> primary \<and> 0 \<le> secondary \<and> secondary < 1024
     \<and> ((\<exists>cpu \<in> set others. cpu_topology_pair fs cpu \<noteq> cpu_topology_pair fs primary)
          \<longrightarrow> cpu_topology_pair fs secondary \<noteq> cpu_topology_pair fs primary))"
proof -
  let ?P = "\<lambda>cpu. cpu \<noteq> primary \<and> cpu_topology_pair fs cpu \<noteq> cpu_topology_pair fs primary"
  have facts: "primary \<notin> set others" "\<forall>cpu \<in> set others. 0 \<le> cpu \<and> cpu < 1024"
    using allowed_cpus_facts [of affinity] by (auto simp: assms(1) cpu_setsize_def)
  obtain o1 os where o: "others = o1 # os" using assms(2) by (cases others) auto
  show ?thesis
  proof (cases "find ?P others")
    case None
    then have "choose_distinct_cpu fs primary (primary # others) = o1" by (simp add: choose_distinct_cpu_def o)
    moreover have "\<forall>cpu \<in> set others. cpu_topology_pair fs cpu = cpu_topology_pair fs primary"
      using None facts(1) by (auto simp: find_None_iff)
    moreover have "o1 \<in> set others" by (simp add: o)
    ultimately show ?thesis unfolding Let_def using facts by (simp only:) blast
  next
    case (Some cpu)
    then have "choose_distinct_cpu fs primary (primary # others) = cpu" by (simp add: choose_distinct_cpu_def o)
    moreover have "cpu \<in> set others" "?P cpu" using Some by (auto simp: find_Some_iff)
    ultimately show ?thesis unfolding Let_def using facts by (simp only:) blast
  qed
qed

theorem secondary_cpu_distinct_witness: "choose_distinct_cpu two_nodes 0 [0, 1, 2, 3] \<in> {1, 2, 3}"
proof -
  have "allowed_cpus (Some (\<lambda>k. k < 4)) = [0, 1, 2, 3]"
  proof -
    have "[0..<1024] = [0..<4] @ [4..<1024 :: nat]" using upt_add_eq_append [of 0 4 1020] by simp
    moreover have "filter (\<lambda>k. k < 4) [4..<1024] = ([] :: nat list)" by (auto simp only: filter_empty_conv set_upt atLeastLessThan_iff)
    ultimately have "filter (\<lambda>k. k < 4) [0..<1024 :: nat] = filter (\<lambda>k. k < 4) [0..<4]" by (simp only: filter_append append_Nil2)
    also have "\<dots> = [0, 1, 2, 3]" by (simp add: upt_rec)
    finally show ?thesis by (simp only: allowed_cpus_def cpu_setsize_def option.case) simp
  qed
  from secondary_cpu_distinct [OF this, of two_nodes] show ?thesis by (simp add: Let_def)
qed

end
