(* ===== verification/Reporter.thy ===== *)
theory Reporter
  imports Stream_Format Topology Latency Bandwidth Shared_Memory
begin

text \<open>
  Model of \<open>src/reporter.cpp\<close>: the text of the console reports and of the CSV file and the history file.
  The clock behind the history's time stamp and the opening of files are parameters.  \<open>std::fixed\<close> and
  the precision stay set on \<open>std::cout\<close>, so every \<open>double\<close> of a console report is printed with the
  precision its function has set; the file streams are fresh and print six significant digits.
\<close>

abbreviation newline :: string where "newline \<equiv> [CHR 0x0A]"

definition yes_no :: "bool \<Rightarrow> string" where
  "yes_no b = (if b then ''yes'' else ''no'')"

definition cycles_to_ns :: "double \<Rightarrow> double \<Rightarrow> double" where
  "cycles_to_ns cycles tsc_hz =
     (if tsc_hz \<le> 0 then 0 else dbl (dbl (cycles * 10 ^ 9) / tsc_hz))"

section \<open>Console reports\<close>

definition system_info_text ::
  "string \<Rightarrow> cpu_topology \<Rightarrow> cache_level list \<Rightarrow> double \<Rightarrow> u64 \<Rightarrow> int list \<Rightarrow> string" where
  "system_info_text cpu_model topo caches tsc_hz overhead allowed =
     ''CPU: '' @ cpu_model @ newline
     @ ''Logical CPUs allowed: '' @ to_dec (length allowed) @ newline
     @ ''Physical cores: '' @ to_string (physical_cores topo)
     @ '' | Packages: '' @ to_string (packages topo)
     @ '' | SMT active: '' @ yes_no (smt_active topo) @ newline
     @ ''TSC rate: '' @ show_fixed 3 (dbl (tsc_hz / 10 ^ 9)) @ '' GHz'' @ newline
     @ ''Timing overhead: '' @ to_dec (unat overhead) @ '' cycles'' @ newline
     @ ''Cache hierarchy:'' @ newline
     @ concat (map (\<lambda>c. ''  L'' @ to_string (cl_level c) @ '' '' @ cache_type c @ '': ''
                 @ show_fixed 3 (dbl (double_of_u64 (cl_size c) / 1024)) @ '' KiB, line ''
                 @ to_dec (unat (cl_line c)) @ '' B'' @ newline) caches)
     @ newline"

definition latency_text :: "measurement_result list \<Rightarrow> double \<Rightarrow> bool \<Rightarrow> string" where
  "latency_text results tsc_hz verbose =
     ''===== Latency / access cost ====='' @ newline
     @ concat (map (\<lambda>r. let s = stats r in
           label r @ newline
         @ ''  mean   : '' @ show_fixed 2 (s_mean s) @ '' cycles ('' @ show_fixed 2 (cycles_to_ns (s_mean s) tsc_hz) @ '' ns)'' @ newline
         @ ''  median : '' @ show_fixed 2 (s_median s) @ '' cycles ('' @ show_fixed 2 (cycles_to_ns (s_median s) tsc_hz) @ '' ns)'' @ newline
         @ (if verbose then
              ''  p95    : '' @ show_fixed 2 (s_p95 s) @ '' cycles'' @ newline
            @ ''  p99    : '' @ show_fixed 2 (s_p99 s) @ '' cycles'' @ newline
            @ ''  stddev : '' @ show_fixed 2 (s_stddev s) @ '' cycles'' @ newline
            @ ''  min/max: '' @ show_fixed 2 (s_min s) @ '' / '' @ show_fixed 2 (s_max s) @ '' cycles'' @ newline
            else [])
         @ ''  samples: '' @ to_dec (s_count s) @ newline @ newline) results)"

definition bandwidth_text :: "bandwidth_result list \<Rightarrow> string" where
  "bandwidth_text results =
     (if results = [] then []
      else ''===== Bandwidth ====='' @ newline
        @ concat (map (\<lambda>r.
              allocator r @ '' ('' @ show_fixed 2 (dbl (double_of_u64 (size_bytes r) / (1024 * 1024))) @ '' MiB)'' @ newline
            @ ''  read : '' @ show_fixed 2 (read_gb_s r) @ '' GiB/s'' @ newline
            @ ''  write: '' @ show_fixed 2 (write_gb_s r) @ '' GiB/s'' @ newline
            @ ''  copy : '' @ show_fixed 2 (copy_gb_s r) @ '' GiB/s'' @ newline @ newline) results))"

definition shared_memory_text :: "shm_result \<Rightarrow> double \<Rightarrow> bool \<Rightarrow> string" where
  "shared_memory_text r tsc_hz verbose =
     (if \<not> shm_success r then ''Shared memory test: '' @ error_message r @ newline
      else let s = shm_stats r in
          ''===== Cross-process shared memory ====='' @ newline
        @ ''producer CPU: '' @ to_string (producer_cpu r) @ '' | consumer CPU: '' @ to_string (consumer_cpu r) @ newline
        @ ''round trip: '' @ show_fixed 2 (s_mean s) @ '' cycles ('' @ show_fixed 2 (cycles_to_ns (s_mean s) tsc_hz)
        @ '' ns), median '' @ show_fixed 2 (s_median s) @ '' cycles'' @ newline
        @ (if verbose then
             ''p95: '' @ show_fixed 2 (s_p95 s) @ '' | p99: '' @ show_fixed 2 (s_p99 s)
           @ '' | min/max: '' @ show_fixed 2 (s_min s) @ ''/'' @ show_fixed 2 (s_max s) @ '' cycles'' @ newline
           else [])
        @ ''samples: '' @ to_dec (s_count s) @ newline @ newline)"

section \<open>Files\<close>

definition csv_header :: string where
  "csv_header =
     ''Type,Label,Samples,MeanCycles,MedianCycles,P95Cycles,''
     @ ''P99Cycles,StdDevCycles,MinCycles,MaxCycles,MeanNanoseconds,''
     @ ''ReadGiBps,WriteGiBps,CopyGiBps,Allocator,Bytes'' @ newline"

definition csv_summary :: "summary \<Rightarrow> double \<Rightarrow> string" where
  "csv_summary s tsc_hz =
     to_dec (s_count s) @ '','' @ show_general (s_mean s) @ '','' @ show_general (s_median s) @ '',''
     @ show_general (s_p95 s) @ '','' @ show_general (s_p99 s) @ '','' @ show_general (s_stddev s) @ '',''
     @ show_general (s_min s) @ '','' @ show_general (s_max s) @ '',''
     @ show_general (cycles_to_ns (s_mean s) tsc_hz) @ '',,,,,'' @ newline"

definition csv_latency_row :: "double \<Rightarrow> measurement_result \<Rightarrow> string" where
  "csv_latency_row tsc_hz r =
     ''latency,'' @ quote # label r @ [quote] @ '','' @ csv_summary (stats r) tsc_hz"

definition csv_bandwidth_row :: "bandwidth_result \<Rightarrow> string" where
  "csv_bandwidth_row r =
     ''bandwidth,'' @ quote # allocator r @ [quote] @ '',,,,,,,,,,''
     @ show_general (read_gb_s r) @ '','' @ show_general (write_gb_s r) @ '','' @ show_general (copy_gb_s r)
     @ '','' @ quote # allocator r @ [quote] @ '','' @ to_dec (unat (size_bytes r)) @ newline"

definition csv_shared_row :: "double \<Rightarrow> shm_result \<Rightarrow> string" where
  "csv_shared_row tsc_hz r =
     ''shared_memory,'' @ quote # ''Cross-process round trip'' @ [quote] @ '','' @ csv_summary (shm_stats r) tsc_hz"

definition csv_text ::
  "measurement_result list \<Rightarrow> bandwidth_result list \<Rightarrow> shm_result option \<Rightarrow> double \<Rightarrow> string" where
  "csv_text latency bandwidth shared_memory tsc_hz =
     csv_header @ concat (map (csv_latency_row tsc_hz) latency) @ concat (map csv_bandwidth_row bandwidth)
     @ (case shared_memory of
          None \<Rightarrow> []
        | Some r \<Rightarrow> if shm_success r then csv_shared_row tsc_hz r else [])"

text \<open>The files of the working directory by name; \<open>writable\<close> says which ones can be opened.\<close>

type_synonym files = "string \<Rightarrow> string option"

definition write_csv ::
  "(string \<Rightarrow> bool) \<Rightarrow> string \<Rightarrow> measurement_result list \<Rightarrow> bandwidth_result list \<Rightarrow> shm_result option \<Rightarrow> double
     \<Rightarrow> files \<Rightarrow> bool \<times> files" where
  "write_csv writable filename latency bandwidth shared_memory tsc_hz fs =
     (if \<not> writable filename then (False, fs)
      else (True, fs(filename \<mapsto> csv_text latency bandwidth shared_memory tsc_hz)))"

text \<open>The fields of \<open>std::tm\<close> that \<open>std::put_time\<close> prints for \<open>%Y-%m-%d %H:%M:%S\<close>.\<close>

record local_time =
  tm_year :: int
  tm_mon :: int
  tm_mday :: int
  tm_hour :: int
  tm_min :: int
  tm_sec :: int

definition two_digits :: "int \<Rightarrow> string" where
  "two_digits v = (if 0 \<le> v \<and> v < 10 then CHR ''0'' # to_string v else to_string v)"

definition timestamp :: "local_time \<Rightarrow> string" where
  "timestamp t =
     to_string (1900 + tm_year t) @ ''-'' @ two_digits (tm_mon t + 1) @ ''-'' @ two_digits (tm_mday t) @ '' ''
     @ two_digits (tm_hour t) @ '':'' @ two_digits (tm_min t) @ '':'' @ two_digits (tm_sec t)"

definition history_text :: "local_time \<Rightarrow> measurement_result list \<Rightarrow> bandwidth_result list \<Rightarrow> string" where
  "history_text now latency bandwidth =
     timestamp now @ newline
     @ concat (map (\<lambda>r. ''latency,'' @ quote # label r @ [quote] @ '','' @ show_general (s_median (stats r)) @ newline) latency)
     @ concat (map (\<lambda>r. ''bandwidth,'' @ allocator r @ '','' @ show_general (read_gb_s r) @ '',''
                 @ show_general (write_gb_s r) @ '','' @ show_general (copy_gb_s r) @ newline) bandwidth)
     @ ''----'' @ newline"

definition append_history ::
  "(string \<Rightarrow> bool) \<Rightarrow> local_time \<Rightarrow> string \<Rightarrow> measurement_result list \<Rightarrow> bandwidth_result list \<Rightarrow> files \<Rightarrow> bool \<times> files" where
  "append_history writable now filename latency bandwidth fs =
     (if \<not> writable filename then (False, fs)
      else (True, fs(filename \<mapsto>
             (case fs filename of None \<Rightarrow> [] | Some old \<Rightarrow> old) @ history_text now latency bandwidth)))"

section \<open>Reading the CSV file back\<close>

text \<open>The fields of a row (RFC 4180, without doubled quotes): a quoted field runs to the closing quote, any
  other one to the next comma.\<close>

definition csv_field :: "string \<Rightarrow> string \<times> string" where
  "csv_field cs =
     (if cs \<noteq> [] \<and> hd cs = quote
      then (takeWhile (\<lambda>c. c \<noteq> quote) (tl cs), drop 1 (dropWhile (\<lambda>c. c \<noteq> quote) (tl cs)))
      else (takeWhile (\<lambda>c. c \<noteq> CHR '','') cs, dropWhile (\<lambda>c. c \<noteq> CHR '','') cs))"

lemma csv_field_length: "length (snd (csv_field cs)) \<le> length cs"
proof -
  have "length (dropWhile P xs) \<le> length xs" for P and xs :: string by (rule length_dropWhile_le)
  from this [of "\<lambda>c. c \<noteq> quote" "tl cs"] this [of "\<lambda>c. c \<noteq> CHR '',''" cs] show ?thesis
    by (auto simp: csv_field_def)
qed

function csv_fields :: "string \<Rightarrow> string list" where
  "csv_fields cs =
     (case csv_field cs of
        (f, []) \<Rightarrow> [f]
      | (f, _ # rest) \<Rightarrow> f # csv_fields rest)"
  by pat_completeness auto
termination
proof (relation "Wellfounded.measure length", simp)
  fix cs f r and c :: char and rest :: string
  assume "(f, r) = csv_field cs" "r = c # rest"
  then show "(rest, cs) \<in> Wellfounded.measure length" using csv_field_length [of cs] by (metis in_measure length_Cons less_eq_Suc_le snd_conv)
qed

declare csv_fields.simps [simp del]

text \<open>A cell of a row: quoted or not, with its text.\<close>

type_synonym cell = "bool \<times> string"

definition cell_text :: "cell \<Rightarrow> string" where
  "cell_text c = (if fst c then quote # snd c @ [quote] else snd c)"

definition cell_ok :: "cell \<Rightarrow> bool" where
  "cell_ok c \<longleftrightarrow> quote \<notin> set (snd c) \<and> CHR 0x0A \<notin> set (snd c) \<and> (fst c \<or> CHR '','' \<notin> set (snd c))"

definition csv_line :: "cell list \<Rightarrow> string" where
  "csv_line cells = separated '','' (map cell_text cells)"

lemma csv_field_cell:
  "cell_ok c \<Longrightarrow> csv_field (cell_text c) = (snd c, [])"
  "cell_ok c \<Longrightarrow> csv_field (cell_text c @ CHR '','' # rest) = (snd c, CHR '','' # rest)"
proof -
  assume c: "cell_ok c"
  obtain q s where qs: "c = (q, s)" by (cases c)
  have "csv_field (cell_text c) = (snd c, []) \<and> csv_field (cell_text c @ CHR '','' # rest) = (snd c, CHR '','' # rest)"
  proof (cases q)
    case True
    then show ?thesis using c by (simp add: qs csv_field_def cell_text_def cell_ok_def separator_free)
  next
    case False
    then show ?thesis
      using c by (cases s) (auto simp: qs csv_field_def cell_text_def cell_ok_def separator_free)
  qed
  then show "csv_field (cell_text c) = (snd c, [])"
    "csv_field (cell_text c @ CHR '','' # rest) = (snd c, CHR '','' # rest)" by simp_all
qed

lemma csv_fields_line:
  "list_all cell_ok cells \<Longrightarrow> cells \<noteq> [] \<Longrightarrow> csv_fields (csv_line cells) = map snd cells"
proof (induction cells)
  case (Cons c cells)
  show ?case
  proof (cases cells)
    case Nil
    then show ?thesis using Cons.prems by (subst csv_fields.simps) (simp add: csv_line_def csv_field_cell)
  next
    case (Cons d ds)
    then have "csv_line (c # cells) = cell_text c @ CHR '','' # csv_line cells" by (simp add: csv_line_def)
    then show ?thesis using Cons.IH Cons.prems Cons
      by (subst csv_fields.simps) (simp add: csv_field_cell)
  qed
qed simp

lemma no_newline_line: "list_all cell_ok cells \<Longrightarrow> CHR 0x0A \<notin> set (csv_line cells)"
proof (induction cells)
  case (Cons c cells)
  have "CHR 0x0A \<notin> set (cell_text c)" using Cons.prems by (simp add: cell_text_def cell_ok_def)
  then show ?case using Cons by (cases cells) (simp_all add: csv_line_def)
qed (simp add: csv_line_def)

lemma lines_of_rows:
  "list_all (list_all cell_ok) rows \<Longrightarrow>
     lines_of CHR 0x0A (concat (map (\<lambda>cells. csv_line cells @ newline) rows)) = map csv_line rows"
  by (induction rows) (simp_all add: lines_of_append no_newline_line)

text \<open>The rows of the file as cells.\<close>

definition header_cells :: "cell list" where
  "header_cells = map (Pair False)
     [''Type'', ''Label'', ''Samples'', ''MeanCycles'', ''MedianCycles'', ''P95Cycles'', ''P99Cycles'',
      ''StdDevCycles'', ''MinCycles'', ''MaxCycles'', ''MeanNanoseconds'', ''ReadGiBps'', ''WriteGiBps'',
      ''CopyGiBps'', ''Allocator'', ''Bytes'']"

definition summary_cells :: "string \<Rightarrow> string \<Rightarrow> summary \<Rightarrow> double \<Rightarrow> cell list" where
  "summary_cells kind name s tsc_hz =
     (False, kind) # (True, name) # map (Pair False)
       [to_dec (s_count s), show_general (s_mean s), show_general (s_median s), show_general (s_p95 s),
        show_general (s_p99 s), show_general (s_stddev s), show_general (s_min s), show_general (s_max s),
        show_general (cycles_to_ns (s_mean s) tsc_hz), [], [], [], [], []]"

definition bandwidth_cells :: "bandwidth_result \<Rightarrow> cell list" where
  "bandwidth_cells r =
     (False, ''bandwidth'') # (True, allocator r) # map (Pair False)
       ([[], [], [], [], [], [], [], [], []] @
        [show_general (read_gb_s r), show_general (write_gb_s r), show_general (copy_gb_s r)])
     @ [(True, allocator r), (False, to_dec (unat (size_bytes r)))]"

definition csv_cells ::
  "measurement_result list \<Rightarrow> bandwidth_result list \<Rightarrow> shm_result option \<Rightarrow> double \<Rightarrow> cell list list" where
  "csv_cells latency bandwidth shared_memory tsc_hz =
     header_cells # map (\<lambda>r. summary_cells ''latency'' (label r) (stats r) tsc_hz) latency
     @ map bandwidth_cells bandwidth
     @ (case shared_memory of
          None \<Rightarrow> []
        | Some r \<Rightarrow> if shm_success r
                   then [summary_cells ''shared_memory'' ''Cross-process round trip'' (shm_stats r) tsc_hz] else [])"

lemma row_cells:
  "csv_latency_row tsc_hz = (\<lambda>r. csv_line (summary_cells ''latency'' (label r) (stats r) tsc_hz) @ newline)"
  "csv_bandwidth_row = (\<lambda>b. csv_line (bandwidth_cells b) @ newline)"
  "csv_shared_row tsc_hz q
     = csv_line (summary_cells ''shared_memory'' ''Cross-process round trip'' (shm_stats q) tsc_hz) @ newline"
  "csv_header = csv_line header_cells @ newline"
  by (simp_all add: csv_latency_row_def csv_bandwidth_row_def csv_shared_row_def csv_header_def csv_summary_def
      csv_line_def summary_cells_def bandwidth_cells_def header_cells_def cell_text_def fun_eq_iff)

lemma csv_text_cells:
  "csv_text latency bandwidth shared_memory tsc_hz
     = concat (map (\<lambda>cells. csv_line cells @ newline) (csv_cells latency bandwidth shared_memory tsc_hz))"
  by (simp add: csv_text_def csv_cells_def row_cells comp_def split: option.split)

lemma number_cell [simp]: "list_all number_char s \<Longrightarrow> cell_ok (False, s)"
  using number_char_not by (auto simp: cell_ok_def list_all_iff)

text \<open>Labels and allocator names without quotes and newlines.\<close>

definition plain :: "string \<Rightarrow> bool" where
  "plain s \<longleftrightarrow> quote \<notin> set s \<and> CHR 0x0A \<notin> set s"

lemma cells_ok:
  "plain name \<Longrightarrow> cell_ok (False, kind) \<Longrightarrow> list_all cell_ok (summary_cells kind name s tsc_hz)"
  "plain (allocator b) \<Longrightarrow> list_all cell_ok (bandwidth_cells b)"
  "list_all cell_ok header_cells"
  by (simp_all add: summary_cells_def bandwidth_cells_def header_cells_def number_general plain_def)
    (simp_all add: cell_ok_def)

lemma length_cells:
  "length (summary_cells kind name s tsc_hz) = 16" "length (bandwidth_cells b) = 16" "length header_cells = 16"
  by (simp_all add: summary_cells_def bandwidth_cells_def header_cells_def)

lemma csv_cells_ok:
  assumes "\<forall>r \<in> set latency. plain (label r)" "\<forall>r \<in> set bandwidth. plain (allocator r)"
  shows "list_all (\<lambda>cells. list_all cell_ok cells \<and> length cells = 16) (csv_cells latency bandwidth shared_memory tsc_hz)"
proof -
  have "cell_ok (False, ''latency'')" "cell_ok (False, ''shared_memory'')" "plain ''Cross-process round trip''"
    by (simp_all add: cell_ok_def plain_def)
  then show ?thesis using assms
    by (auto simp: csv_cells_def list_all_iff [of _ "map _ _"] cells_ok length_cells split: option.splits)
qed

lemma csv_text_fields:
  assumes "\<forall>r \<in> set latency. plain (label r)" "\<forall>r \<in> set bandwidth. plain (allocator r)"
  shows "map csv_fields (lines_of CHR 0x0A (csv_text latency bandwidth shared_memory tsc_hz))
     = map (map snd) (csv_cells latency bandwidth shared_memory tsc_hz)"
proof -
  let ?rows = "csv_cells latency bandwidth shared_memory tsc_hz"
  have ok: "list_all (\<lambda>cells. list_all cell_ok cells \<and> length cells = 16) ?rows" using csv_cells_ok [OF assms] .
  then have "lines_of CHR 0x0A (csv_text latency bandwidth shared_memory tsc_hz) = map csv_line ?rows"
    unfolding csv_text_cells by (intro lines_of_rows) (simp add: list_all_iff)
  moreover have "map csv_fields (map csv_line ?rows) = map (map snd) ?rows"
    using ok by (auto simp: list_all_iff intro!: csv_fields_line)
  ultimately show ?thesis by simp
qed

section \<open>Properties\<close>

text \<open>C13: the CSV file reads back: one line per result after the header, each with the sixteen columns of the
  header, and the fields are the label, the count, the numbers of the summary and the bandwidths as they were
  printed, in the columns of their names; a failed shared-memory test has no row.\<close>

theorem csv_file_roundtrip:
  assumes "\<forall>r \<in> set latency. plain (label r)" "\<forall>r \<in> set bandwidth. plain (allocator r)" "writable filename"
  shows "\<exists>csv. write_csv writable filename latency bandwidth shared_memory tsc_hz fs = (True, fs(filename \<mapsto> csv))
     \<and> map csv_fields (lines_of CHR 0x0A csv)
         = map (map snd) (csv_cells latency bandwidth shared_memory tsc_hz)
     \<and> list_all (\<lambda>row. length row = 16) (map csv_fields (lines_of CHR 0x0A csv))"
  using csv_text_fields [OF assms(1,2)] csv_cells_ok [OF assms(1,2)] assms(3)
  by (intro exI [of _ "csv_text latency bandwidth shared_memory tsc_hz"]) (simp add: write_csv_def list_all_iff)

theorem csv_file_roundtrip_witness:
  "\<exists>csv. write_csv (\<lambda>_. True) ''out.csv''
       [\<lparr>label = ''Store'', stats = empty_summary, result_overhead = 0\<rparr>] [] None 1 Map.empty = (True, [''out.csv'' \<mapsto> csv])
     \<and> map csv_fields (lines_of CHR 0x0A csv) ! 1
         = [''latency'', ''Store'', ''0'', ''0'', ''0'', ''0'', ''0'', ''0'', ''0'', ''0'', ''0'', [], [], [], [], []]"
proof -
  have "to_dec 0 = ''0''" by code_simp
  then show ?thesis
    using csv_file_roundtrip [of "[\<lparr>label = ''Store'', stats = empty_summary, result_overhead = 0\<rparr>]" "[]" "\<lambda>_. True"
        "''out.csv''" None 1 Map.empty]
    by (auto simp: plain_def csv_cells_def summary_cells_def empty_summary_def show_general_def cycles_to_ns_def)
qed

end
