(* ===== verification/Cli.thy ===== *)
theory Cli
  imports Prelude Decimal
begin

text \<open>
  Model of the command line of \<open>src/main.cpp\<close>: \<open>parse_int\<close>, \<open>consume_int\<close>, \<open>consume_size_mib\<close>, the
  option loop and the validation after it.  The loop index into \<open>argv\<close> is the list of arguments that
  remain.  The result is the end of the program with its status and output, or the options with
  which \<open>main\<close> goes on.
\<close>

section \<open>Numbers\<close>

definition parse_int :: "string \<Rightarrow> int option" where
  "parse_int cs =
     (if cs = [] then None
      else case from_chars cs of
             None \<Rightarrow> None
           | Some (v, rest) \<Rightarrow> if rest = [] then Some v else None)"

definition consume_int :: "string list \<Rightarrow> (int \<times> string list) option" where
  "consume_int args =
     (case args of
        [] \<Rightarrow> None
      | a # rest \<Rightarrow> (case parse_int a of None \<Rightarrow> None | Some v \<Rightarrow> Some (v, rest)))"

definition consume_size_mib :: "string list \<Rightarrow> (u64 \<times> string list) option" where
  "consume_size_mib args =
     (case consume_int args of
        None \<Rightarrow> None
      | Some (v, rest) \<Rightarrow> if v \<le> 0 then None else Some (word_of_int v * 1024 * 1024, rest))"

section \<open>Options\<close>

record options =
  opt_rounds :: int
  opt_iterations :: int
  opt_warmup :: int
  opt_shm_iterations :: int
  opt_spectre_tries :: int
  opt_spectre_lab_runs :: int
  opt_phase5_runs :: int
  opt_compute_seconds :: int
  opt_evaluation_runs :: int
  opt_trace_samples :: int
  opt_trace_average :: int
  opt_operational_runs :: int
  opt_numa_node :: int
  opt_buffer_size :: u64
  opt_bandwidth_size :: u64
  opt_bandwidth :: bool
  opt_shared_memory :: bool
  opt_spectre :: bool
  opt_spectre_lab :: bool
  opt_phase5_lab :: bool
  opt_cpu_capability :: bool
  opt_evaluation_lab :: bool
  opt_operational_lab :: bool
  opt_quiet :: bool
  opt_verbose :: bool
  opt_numa_matrix :: bool
  opt_csv :: string
  opt_evaluation_report :: string
  opt_operational_report :: string

definition default_options :: options where
  "default_options =
     \<lparr>opt_rounds = 5, opt_iterations = 1000, opt_warmup = 150, opt_shm_iterations = 2000,
      opt_spectre_tries = 999, opt_spectre_lab_runs = 5, opt_phase5_runs = 5, opt_compute_seconds = 1,
      opt_evaluation_runs = 3, opt_trace_samples = 2048, opt_trace_average = 4, opt_operational_runs = 3,
      opt_numa_node = - 1, opt_buffer_size = 0, opt_bandwidth_size = 64 * 1024 * 1024,
      opt_bandwidth = True, opt_shared_memory = True, opt_spectre = False, opt_spectre_lab = False,
      opt_phase5_lab = False, opt_cpu_capability = False, opt_evaluation_lab = False,
      opt_operational_lab = False, opt_quiet = False, opt_verbose = False, opt_numa_matrix = False,
      opt_csv = [], opt_evaluation_report = ''evaluation_lab_report.json'',
      opt_operational_report = ''operational_lab_report.json''\<rparr>"

text \<open>The end of the program.\<close>

record exit =
  exit_code :: int
  std_out :: string
  std_err :: string

definition usage_error :: "string \<Rightarrow> exit" where
  "usage_error message = \<lparr>exit_code = 2, std_out = [], std_err = message @ [CHR 0x0A]\<rparr>"

definition help_lines :: "string list" where
  "help_lines =
     [''Usage: latency_analyzer [options]'', [],
      ''Latency:'',
      ''  --rounds N             Independent measurement rounds (default 5)'',
      ''  --iterations N         Samples per round (default 1000)'',
      ''  --warmup N             Warmup samples per round (default 150)'',
      ''  --buffer-mib N         Latency buffer size in MiB (default: auto)'', [],
      ''Bandwidth:'',
      ''  --bandwidth-mib N      Streaming buffer size in MiB (default 64)'',
      ''  --no-bandwidth         Skip bandwidth measurements'', [],
      ''Shared memory:'',
      ''  --shm-iterations N     Cross-process round trips (default 2000)'',
      ''  --no-shared-memory     Skip the shared-memory test'', [],
      ''Output:'',
      ''  --csv FILE             Write latency, bandwidth and shared-memory results'',
      ''  --quiet                Minimal output'',
      ''  --verbose              Include p95/p99/stddev/min/max'', [],
      ''Other:'',
      ''  --spectre              Run the self-contained Spectre V1 demo and exit'',
      ''  --spectre-tries N      Attempts per leaked byte (default 999)'',
      ''  --spectre-lab          Repeat the self-contained Spectre demo for reliability analysis'',
      ''  --lab-runs N           Independent Spectre lab runs (default 5)'',
      ''  --phase5-lab           Run the Phase 5 defensive lab and exit'',
      ''  --phase5-runs N        Independent Phase 5 lab runs (default 5)'',
      ''  --cpu-capability       Detect CPU and run compute-capacity benchmark'',
      ''  --compute-seconds N    CPU benchmark duration in seconds (default 1)'',
      ''  --evaluation-lab       Run stability, SNR, TVLA and control validation lab'',
      ''  --evaluation-runs N    Evaluation runs (default 3)'',
      ''  --trace-samples N      Timing samples per class (default 2048)'',
      ''  --trace-average N      Samples averaged per block (default 4)'',
      ''  --evaluation-report F  Write evaluation JSON report (default evaluation_lab_report.json)'',
      ''  --operational-lab      Run the end-to-end defensive simulation lab'',
      ''  --operational-runs N   Operational lab runs (default 3)'',
      ''  --operational-report F Write operational JSON report (default operational_lab_report.json)'',
      ''  --help                 Show this help'']"

definition print_help :: exit where
  "print_help = \<lparr>exit_code = 0, std_out = concat (map (\<lambda>l. l @ [CHR 0x0A]) help_lines), std_err = []\<rparr>"

text \<open>An option with a number: \<open>accept\<close> is the test beside \<open>consume_int\<close>.\<close>

definition int_option ::
  "string \<Rightarrow> (int \<Rightarrow> bool) \<Rightarrow> (int \<Rightarrow> options \<Rightarrow> options) \<Rightarrow> string list \<Rightarrow> options \<Rightarrow> exit + options \<times> string list" where
  "int_option name accept store args opts =
     (case consume_int args of
        None \<Rightarrow> Inl (usage_error (''Invalid '' @ name @ '' value''))
      | Some (v, rest) \<Rightarrow>
          if accept v then Inr (store v opts, rest)
          else Inl (usage_error (''Invalid '' @ name @ '' value'')))"

definition size_option ::
  "string \<Rightarrow> (u64 \<Rightarrow> options \<Rightarrow> options) \<Rightarrow> string list \<Rightarrow> options \<Rightarrow> exit + options \<times> string list" where
  "size_option name store args opts =
     (case consume_size_mib args of
        None \<Rightarrow> Inl (usage_error (''Invalid '' @ name @ '' value''))
      | Some (v, rest) \<Rightarrow> Inr (store v opts, rest))"

definition file_option ::
  "string \<Rightarrow> (string \<Rightarrow> options \<Rightarrow> options) \<Rightarrow> string list \<Rightarrow> options \<Rightarrow> exit + options \<times> string list" where
  "file_option name store args opts =
     (case args of
        [] \<Rightarrow> Inl (usage_error (''Missing '' @ name @ '' filename''))
      | a # rest \<Rightarrow> Inr (store a opts, rest))"

text \<open>One iteration of the option loop.\<close>

definition option_step :: "string \<Rightarrow> string list \<Rightarrow> options \<Rightarrow> exit + options \<times> string list" where
  "option_step arg rest opts =
     (if arg = ''--help'' then Inl print_help
      else if arg = ''--spectre'' then Inr (opts\<lparr>opt_spectre := True\<rparr>, rest)
      else if arg = ''--quiet'' then Inr (opts\<lparr>opt_quiet := True\<rparr>, rest)
      else if arg = ''--verbose'' then Inr (opts\<lparr>opt_verbose := True\<rparr>, rest)
      else if arg = ''--no-bandwidth'' then Inr (opts\<lparr>opt_bandwidth := False\<rparr>, rest)
      else if arg = ''--no-shared-memory'' then Inr (opts\<lparr>opt_shared_memory := False\<rparr>, rest)
      else if arg = ''--rounds'' then int_option ''--rounds'' (\<lambda>_. True) (\<lambda>v. opt_rounds_update (\<lambda>_. v)) rest opts
      else if arg = ''--iterations'' then
        int_option ''--iterations'' (\<lambda>_. True) (\<lambda>v. opt_iterations_update (\<lambda>_. v)) rest opts
      else if arg = ''--warmup'' then int_option ''--warmup'' (\<lambda>_. True) (\<lambda>v. opt_warmup_update (\<lambda>_. v)) rest opts
      else if arg = ''--shm-iterations'' then
        int_option ''--shm-iterations'' (\<lambda>_. True) (\<lambda>v. opt_shm_iterations_update (\<lambda>_. v)) rest opts
      else if arg = ''--numa-node'' then
        int_option ''--numa-node'' (\<lambda>v. 0 \<le> v) (\<lambda>v. opt_numa_node_update (\<lambda>_. v)) rest opts
      else if arg = ''--numa-matrix'' then Inr (opts\<lparr>opt_numa_matrix := True\<rparr>, rest)
      else if arg = ''--buffer-mib'' then
        size_option ''--buffer-mib'' (\<lambda>v. opt_buffer_size_update (\<lambda>_. v)) rest opts
      else if arg = ''--bandwidth-mib'' then
        size_option ''--bandwidth-mib'' (\<lambda>v. opt_bandwidth_size_update (\<lambda>_. v)) rest opts
      else if arg = ''--spectre-lab'' then Inr (opts\<lparr>opt_spectre_lab := True\<rparr>, rest)
      else if arg = ''--lab-runs'' then
        int_option ''--lab-runs'' (\<lambda>v. 0 < v) (\<lambda>v. opt_spectre_lab_runs_update (\<lambda>_. v)) rest opts
      else if arg = ''--phase5-lab'' then Inr (opts\<lparr>opt_phase5_lab := True\<rparr>, rest)
      else if arg = ''--phase5-runs'' then
        int_option ''--phase5-runs'' (\<lambda>v. 0 < v) (\<lambda>v. opt_phase5_runs_update (\<lambda>_. v)) rest opts
      else if arg = ''--cpu-capability'' then Inr (opts\<lparr>opt_cpu_capability := True\<rparr>, rest)
      else if arg = ''--compute-seconds'' then
        int_option ''--compute-seconds'' (\<lambda>v. 0 < v) (\<lambda>v. opt_compute_seconds_update (\<lambda>_. v)) rest opts
      else if arg = ''--evaluation-lab'' then Inr (opts\<lparr>opt_evaluation_lab := True\<rparr>, rest)
      else if arg = ''--evaluation-runs'' then
        int_option ''--evaluation-runs'' (\<lambda>v. 0 < v) (\<lambda>v. opt_evaluation_runs_update (\<lambda>_. v)) rest opts
      else if arg = ''--trace-samples'' then
        int_option ''--trace-samples'' (\<lambda>v. 0 < v) (\<lambda>v. opt_trace_samples_update (\<lambda>_. v)) rest opts
      else if arg = ''--trace-average'' then
        int_option ''--trace-average'' (\<lambda>v. 0 < v) (\<lambda>v. opt_trace_average_update (\<lambda>_. v)) rest opts
      else if arg = ''--evaluation-report'' then
        file_option ''--evaluation-report'' (\<lambda>v. opt_evaluation_report_update (\<lambda>_. v)) rest opts
      else if arg = ''--operational-lab'' then Inr (opts\<lparr>opt_operational_lab := True\<rparr>, rest)
      else if arg = ''--operational-runs'' then
        int_option ''--operational-runs'' (\<lambda>v. 0 < v) (\<lambda>v. opt_operational_runs_update (\<lambda>_. v)) rest opts
      else if arg = ''--operational-report'' then
        file_option ''--operational-report'' (\<lambda>v. opt_operational_report_update (\<lambda>_. v)) rest opts
      else if arg = ''--spectre-tries'' then
        int_option ''--spectre-tries'' (\<lambda>v. 0 < v) (\<lambda>v. opt_spectre_tries_update (\<lambda>_. v)) rest opts
      else if arg = ''--csv'' then file_option ''--csv'' (\<lambda>v. opt_csv_update (\<lambda>_. v)) rest opts
      else Inl (usage_error (''Unknown option: '' @ arg)))"

lemma int_option_rest: "int_option name accept store args opts = Inr (opts', rest) \<Longrightarrow> length rest \<le> length args"
  by (auto simp: int_option_def consume_int_def split: option.splits list.splits if_splits)

lemma size_option_rest: "size_option name store' args opts = Inr (opts', rest) \<Longrightarrow> length rest \<le> length args"
  by (auto simp: size_option_def consume_size_mib_def consume_int_def split: option.splits list.splits if_splits)

lemma file_option_rest: "file_option name store'' args opts = Inr (opts', rest) \<Longrightarrow> length rest \<le> length args"
  by (auto simp: file_option_def split: list.splits)

lemmas option_rest = int_option_rest size_option_rest file_option_rest

lemma option_step_rest: "option_step arg args opts = Inr (opts', rest) \<Longrightarrow> length rest \<le> length args"
  unfolding option_step_def by (auto split: if_splits dest: option_rest)

text \<open>The loop over the arguments.\<close>

function parse_args :: "string list \<Rightarrow> options \<Rightarrow> exit + options" where
  "parse_args [] opts = Inr opts"
| "parse_args (arg # rest) opts =
     (case option_step arg rest opts of
        Inl e \<Rightarrow> Inl e
      | Inr (opts', rest') \<Rightarrow> parse_args rest' opts')"
  by pat_completeness auto
termination
  by (relation "measure (\<lambda>(args, opts). length args)") (auto simp: less_Suc_eq_le dest: option_step_rest)

declare parse_args.simps(2) [simp del]

definition numeric_configuration_ok :: "options \<Rightarrow> bool" where
  "numeric_configuration_ok opts \<longleftrightarrow>
     \<not> (opt_rounds opts \<le> 0 \<or> opt_iterations opts \<le> 0 \<or> opt_warmup opts < 0
        \<or> (opt_shared_memory opts \<and> opt_shm_iterations opts \<le> 0) \<or> opt_spectre_tries opts \<le> 0
        \<or> (opt_spectre_lab opts \<and> opt_spectre_lab_runs opts \<le> 0)
        \<or> (opt_phase5_lab opts \<and> opt_phase5_runs opts \<le> 0)
        \<or> (opt_cpu_capability opts \<and> opt_compute_seconds opts \<le> 0)
        \<or> (opt_evaluation_lab opts \<and> (opt_evaluation_runs opts \<le> 0 \<or> opt_trace_samples opts \<le> 0 \<or> opt_trace_average opts \<le> 0))
        \<or> (opt_operational_lab opts \<and> opt_operational_runs opts \<le> 0))"

definition parse_command_line :: "string list \<Rightarrow> exit + options" where
  "parse_command_line args =
     (case parse_args args default_options of
        Inl e \<Rightarrow> Inl e
      | Inr opts \<Rightarrow>
          if 0 \<le> opt_numa_node opts \<and> opt_numa_matrix opts
          then Inl (usage_error ''--numa-node and --numa-matrix are mutually exclusive'')
          else if \<not> numeric_configuration_ok opts then Inl (usage_error ''Invalid numeric configuration'')
          else Inr opts)"

section \<open>Lemmas\<close>

lemma parse_int_to_string [simp]: "in_i32 v \<Longrightarrow> parse_int (to_string v) = Some v"
proof -
  assume "in_i32 v"
  then have "from_chars (to_string v) = Some (v, [])" by (rule from_chars_to_string)
  moreover have "to_string v \<noteq> []" by (simp add: to_string_def)
  ultimately show ?thesis by (simp add: parse_int_def)
qed

lemma parse_int_range: "parse_int cs = Some v \<Longrightarrow> in_i32 v"
  by (auto simp: parse_int_def from_chars_def signed_value_def Let_def split: if_splits option.splits)

lemma consume_int_range: "consume_int args = Some (v, rest) \<Longrightarrow> in_i32 v"
  by (auto simp: consume_int_def dest: parse_int_range split: list.splits option.splits)

text \<open>A size in MiB does not wrap: it is at least one MiB and below 2 ^ 51 bytes.\<close>

definition mib_size :: "u64 \<Rightarrow> bool" where
  "mib_size w \<longleftrightarrow> 2 ^ 20 dvd unat w \<and> 2 ^ 20 \<le> unat w \<and> unat w < 2 ^ 51"

lemma unat_mib: "0 < v \<Longrightarrow> v \<le> i32_max \<Longrightarrow> unat (word_of_int v * 1024 * 1024 :: u64) = nat v * 2 ^ 20"
proof -
  assume v: "0 < v" "v \<le> i32_max"
  then have n: "nat v < 2 ^ 31" by (simp add: i32_max_def)
  have "word_of_int v = (word_of_nat (nat v) :: u64)" using v by (simp add: word_of_nat_eq_iff)
  then have "word_of_int v * 1024 * 1024 = (word_of_nat (nat v * 2 ^ 20) :: u64)" by (simp add: mult.assoc)
  moreover have "nat v * 2 ^ 20 < 2 ^ 64" using n by simp
  ultimately show ?thesis by (metis unat_word_of_nat64)
qed

lemma consume_size_mib_range: "consume_size_mib args = Some (w, rest) \<Longrightarrow> mib_size w"
proof -
  assume c: "consume_size_mib args = Some (w, rest)"
  then obtain v where v: "consume_int args = Some (v, rest)" "0 < v" "w = word_of_int v * 1024 * 1024"
    by (auto simp: consume_size_mib_def split: option.splits if_splits)
  then have i: "v \<le> i32_max" using consume_int_range by (auto simp: in_i32_def)
  then have "nat v < 2 ^ 31" by (simp add: i32_max_def nat_less_iff)
  moreover have "unat w = nat v * 2 ^ 20" "0 < nat v" using v i unat_mib [of v] by simp_all
  ultimately show ?thesis by (simp add: mib_size_def)
qed

text \<open>What holds of the options at every point of the loop.\<close>

definition options_inv :: "options \<Rightarrow> bool" where
  "options_inv opts \<longleftrightarrow>
     list_all in_i32 [opt_rounds opts, opt_iterations opts, opt_warmup opts, opt_shm_iterations opts,
       opt_spectre_tries opts, opt_spectre_lab_runs opts, opt_phase5_runs opts, opt_compute_seconds opts,
       opt_evaluation_runs opts, opt_trace_samples opts, opt_trace_average opts, opt_operational_runs opts,
       opt_numa_node opts]
     \<and> list_all (\<lambda>v. 0 < v) [opt_spectre_tries opts, opt_spectre_lab_runs opts, opt_phase5_runs opts,
       opt_compute_seconds opts, opt_evaluation_runs opts, opt_trace_samples opts, opt_trace_average opts,
       opt_operational_runs opts]
     \<and> - 1 \<le> opt_numa_node opts \<and> (opt_buffer_size opts = 0 \<or> mib_size (opt_buffer_size opts))
     \<and> mib_size (opt_bandwidth_size opts)"

lemma options_inv_default: "options_inv default_options"
  by (simp add: options_inv_def default_options_def in_i32_def i32_min_def i32_max_def mib_size_def)

text \<open>A step keeps a predicate on the options.\<close>

definition keeps :: "(options \<Rightarrow> bool) \<Rightarrow> exit + options \<times> string list \<Rightarrow> bool" where
  "keeps P r = (case r of Inl e \<Rightarrow> True | Inr (opts, rest) \<Rightarrow> P opts)"

lemma keeps_if: "keeps P a \<Longrightarrow> keeps P b \<Longrightarrow> keeps P (if c then a else b)"
  by simp

lemma keeps_simps [simp]: "keeps P (Inl e)" "keeps P (Inr (opts, rest)) = P opts"
  by (simp_all add: keeps_def)

lemma keeps_int: "(\<And>v. in_i32 v \<Longrightarrow> accept v \<Longrightarrow> P (store v opts)) \<Longrightarrow> keeps P (int_option name accept store args opts)"
  by (simp add: int_option_def consume_int_range split: option.split)

lemma keeps_size: "(\<And>v. mib_size v \<Longrightarrow> P (store' v opts)) \<Longrightarrow> keeps P (size_option name store' args opts)"
  by (simp add: size_option_def consume_size_mib_range split: option.split)

lemma keeps_file: "(\<And>v. P (store'' v opts)) \<Longrightarrow> keeps P (file_option name store'' args opts)"
  by (simp add: file_option_def split: list.split)

lemma option_step_inv: "options_inv opts \<Longrightarrow> keeps options_inv (option_step arg args opts)"
  unfolding option_step_def
  by (intro keeps_if keeps_int keeps_size keeps_file) (simp_all add: options_inv_def)

lemma parse_args_inv: "parse_args args opts = Inr opts' \<Longrightarrow> options_inv opts \<Longrightarrow> options_inv opts'"
proof (induction args opts rule: parse_args.induct)
  case (2 arg rest opts)
  obtain o1 r1 where s: "option_step arg rest opts = Inr (o1, r1)" "parse_args r1 o1 = Inr opts'"
    using "2.prems"(1) by (auto simp: parse_args.simps(2) split: sum.splits)
  have "options_inv o1" using option_step_inv [OF "2.prems"(2), of arg rest] s(1) by simp
  then show ?case using "2.IH" [OF s(1) refl s(2)] by blast
qed simp

section \<open>Writing a command line\<close>

definition flag :: "string \<Rightarrow> bool \<Rightarrow> string list" where
  "flag name b = (if b then [name] else [])"

definition size_args :: "string \<Rightarrow> u64 \<Rightarrow> string list" where
  "size_args name w = (if w = 0 then [] else [name, to_dec (unat w div 2 ^ 20)])"

definition numa_args :: "int \<Rightarrow> string list" where
  "numa_args v = (if v = - 1 then [] else [''--numa-node'', to_string v])"

text \<open>A command line that sets every option.\<close>

definition command_line :: "options \<Rightarrow> string list" where
  "command_line opts =
     [''--rounds'', to_string (opt_rounds opts),
      ''--iterations'', to_string (opt_iterations opts),
      ''--warmup'', to_string (opt_warmup opts),
      ''--shm-iterations'', to_string (opt_shm_iterations opts),
      ''--spectre-tries'', to_string (opt_spectre_tries opts),
      ''--lab-runs'', to_string (opt_spectre_lab_runs opts),
      ''--phase5-runs'', to_string (opt_phase5_runs opts),
      ''--compute-seconds'', to_string (opt_compute_seconds opts),
      ''--evaluation-runs'', to_string (opt_evaluation_runs opts),
      ''--trace-samples'', to_string (opt_trace_samples opts),
      ''--trace-average'', to_string (opt_trace_average opts),
      ''--operational-runs'', to_string (opt_operational_runs opts)]
     @ numa_args (opt_numa_node opts)
     @ size_args ''--buffer-mib'' (opt_buffer_size opts) @ size_args ''--bandwidth-mib'' (opt_bandwidth_size opts)
     @ flag ''--spectre'' (opt_spectre opts)
     @ flag ''--spectre-lab'' (opt_spectre_lab opts)
     @ flag ''--phase5-lab'' (opt_phase5_lab opts)
     @ flag ''--cpu-capability'' (opt_cpu_capability opts)
     @ flag ''--evaluation-lab'' (opt_evaluation_lab opts)
     @ flag ''--operational-lab'' (opt_operational_lab opts)
     @ flag ''--quiet'' (opt_quiet opts)
     @ flag ''--verbose'' (opt_verbose opts)
     @ flag ''--numa-matrix'' (opt_numa_matrix opts)
     @ flag ''--no-bandwidth'' (\<not> opt_bandwidth opts)
     @ flag ''--no-shared-memory'' (\<not> opt_shared_memory opts)
     @ [''--csv'', opt_csv opts, ''--evaluation-report'', opt_evaluation_report opts, ''--operational-report'', opt_operational_report opts]"

text \<open>How the loop goes over each piece of it.\<close>

lemma parse_int_options:
  "in_i32 v \<Longrightarrow> parse_args (''--rounds'' # to_string v # rest) opts = parse_args rest (opts\<lparr>opt_rounds := v\<rparr>)"
  "in_i32 v \<Longrightarrow> parse_args (''--iterations'' # to_string v # rest) opts = parse_args rest (opts\<lparr>opt_iterations := v\<rparr>)"
  "in_i32 v \<Longrightarrow> parse_args (''--warmup'' # to_string v # rest) opts = parse_args rest (opts\<lparr>opt_warmup := v\<rparr>)"
  "in_i32 v \<Longrightarrow> parse_args (''--shm-iterations'' # to_string v # rest) opts = parse_args rest (opts\<lparr>opt_shm_iterations := v\<rparr>)"
  "in_i32 v \<Longrightarrow> 0 < v \<Longrightarrow> parse_args (''--spectre-tries'' # to_string v # rest) opts = parse_args rest (opts\<lparr>opt_spectre_tries := v\<rparr>)"
  "in_i32 v \<Longrightarrow> 0 < v \<Longrightarrow> parse_args (''--lab-runs'' # to_string v # rest) opts = parse_args rest (opts\<lparr>opt_spectre_lab_runs := v\<rparr>)"
  "in_i32 v \<Longrightarrow> 0 < v \<Longrightarrow> parse_args (''--phase5-runs'' # to_string v # rest) opts = parse_args rest (opts\<lparr>opt_phase5_runs := v\<rparr>)"
  "in_i32 v \<Longrightarrow> 0 < v \<Longrightarrow> parse_args (''--compute-seconds'' # to_string v # rest) opts = parse_args rest (opts\<lparr>opt_compute_seconds := v\<rparr>)"
  "in_i32 v \<Longrightarrow> 0 < v \<Longrightarrow> parse_args (''--evaluation-runs'' # to_string v # rest) opts = parse_args rest (opts\<lparr>opt_evaluation_runs := v\<rparr>)"
  "in_i32 v \<Longrightarrow> 0 < v \<Longrightarrow> parse_args (''--trace-samples'' # to_string v # rest) opts = parse_args rest (opts\<lparr>opt_trace_samples := v\<rparr>)"
  "in_i32 v \<Longrightarrow> 0 < v \<Longrightarrow> parse_args (''--trace-average'' # to_string v # rest) opts = parse_args rest (opts\<lparr>opt_trace_average := v\<rparr>)"
  "in_i32 v \<Longrightarrow> 0 < v \<Longrightarrow> parse_args (''--operational-runs'' # to_string v # rest) opts = parse_args rest (opts\<lparr>opt_operational_runs := v\<rparr>)"
  by (simp_all add: parse_args.simps(2) option_step_def int_option_def consume_int_def)

lemma parse_flags:
  "parse_args (flag ''--spectre'' b @ rest) opts = parse_args rest (opts\<lparr>opt_spectre := opt_spectre opts \<or> b\<rparr>)"
  "parse_args (flag ''--spectre-lab'' b @ rest) opts = parse_args rest (opts\<lparr>opt_spectre_lab := opt_spectre_lab opts \<or> b\<rparr>)"
  "parse_args (flag ''--phase5-lab'' b @ rest) opts = parse_args rest (opts\<lparr>opt_phase5_lab := opt_phase5_lab opts \<or> b\<rparr>)"
  "parse_args (flag ''--cpu-capability'' b @ rest) opts = parse_args rest (opts\<lparr>opt_cpu_capability := opt_cpu_capability opts \<or> b\<rparr>)"
  "parse_args (flag ''--evaluation-lab'' b @ rest) opts = parse_args rest (opts\<lparr>opt_evaluation_lab := opt_evaluation_lab opts \<or> b\<rparr>)"
  "parse_args (flag ''--operational-lab'' b @ rest) opts = parse_args rest (opts\<lparr>opt_operational_lab := opt_operational_lab opts \<or> b\<rparr>)"
  "parse_args (flag ''--quiet'' b @ rest) opts = parse_args rest (opts\<lparr>opt_quiet := opt_quiet opts \<or> b\<rparr>)"
  "parse_args (flag ''--verbose'' b @ rest) opts = parse_args rest (opts\<lparr>opt_verbose := opt_verbose opts \<or> b\<rparr>)"
  "parse_args (flag ''--numa-matrix'' b @ rest) opts = parse_args rest (opts\<lparr>opt_numa_matrix := opt_numa_matrix opts \<or> b\<rparr>)"
  "parse_args (flag ''--no-bandwidth'' (\<not> b) @ rest) opts = parse_args rest (opts\<lparr>opt_bandwidth := opt_bandwidth opts \<and> b\<rparr>)"
  "parse_args (flag ''--no-shared-memory'' (\<not> b) @ rest) opts = parse_args rest (opts\<lparr>opt_shared_memory := opt_shared_memory opts \<and> b\<rparr>)"
  by (simp_all add: flag_def parse_args.simps(2) option_step_def)

lemma parse_file_options:
  "parse_args (''--csv'' # name # rest) opts = parse_args rest (opts\<lparr>opt_csv := name\<rparr>)"
  "parse_args (''--evaluation-report'' # name # rest) opts = parse_args rest (opts\<lparr>opt_evaluation_report := name\<rparr>)"
  "parse_args (''--operational-report'' # name # rest) opts = parse_args rest (opts\<lparr>opt_operational_report := name\<rparr>)"
  by (simp_all add: parse_args.simps(2) option_step_def file_option_def)

lemma parse_numa_option:
  "in_i32 v \<Longrightarrow> - 1 \<le> v \<Longrightarrow>
     parse_args (numa_args v @ rest) opts
       = parse_args rest (opts\<lparr>opt_numa_node := if v = - 1 then opt_numa_node opts else v\<rparr>)"
  by (simp add: numa_args_def parse_args.simps(2) option_step_def int_option_def consume_int_def)

lemma consume_size:
  assumes "mib_size w"
  shows "consume_size_mib (to_dec (unat w div 2 ^ 20) # rest) = Some (w, rest)"
proof -
  define d where "d = unat w div 2 ^ 20"
  obtain k where k: "unat w = 2 ^ 20 * k" "0 < k" "k < 2 ^ 31"
    using assms by (auto simp: mib_size_def elim!: dvdE)
  then have v: "0 < int d" "int d \<le> i32_max" "d * 2 ^ 20 = unat w" by (simp_all add: i32_max_def d_def)
  then have "in_i32 (int d)" by (simp add: in_i32_def i32_min_def)
  then have "parse_int (to_string (int d)) = Some (int d)" by simp
  then have p: "parse_int (to_dec d) = Some (int d)" by (simp add: to_string_def)
  have "unat (word_of_int (int d) * 1024 * 1024 :: u64) = unat w" using unat_mib [OF v(1,2)] v(3) by simp
  then have "(word_of_int (int d) * 1024 * 1024 :: u64) = w" by (simp only: unsigned_word_eqI)
  then show ?thesis unfolding d_def [symmetric] using v(1) by (simp add: consume_size_mib_def consume_int_def p)
qed

lemma mib_size_nonzero: "mib_size w \<Longrightarrow> w \<noteq> 0"
  by (auto simp: mib_size_def)

lemma parse_size_options:
  "w = 0 \<or> mib_size w \<Longrightarrow> parse_args (size_args ''--buffer-mib'' w @ rest) opts
     = parse_args rest (opts\<lparr>opt_buffer_size := if w = 0 then opt_buffer_size opts else w\<rparr>)"
  "mib_size w \<Longrightarrow> parse_args (size_args ''--bandwidth-mib'' w @ rest) opts
     = parse_args rest (opts\<lparr>opt_bandwidth_size := w\<rparr>)"
  by (auto simp: size_args_def parse_args.simps(2) option_step_def size_option_def consume_size
      simp del: power_numeral dest: mib_size_nonzero)

lemmas parse_pieces = parse_int_options parse_flags parse_file_options parse_numa_option parse_size_options

lemma parse_args_command_line: "options_inv opts \<Longrightarrow> parse_args (command_line opts) default_options = Inr opts"
  by (cases opts) (simp add: command_line_def options_inv_def parse_pieces default_options_def)

section \<open>Order and errors\<close>

text \<open>A step reads a prefix of the remaining arguments.\<close>

definition extends :: "exit + options \<times> string list \<Rightarrow> exit + options \<times> string list \<Rightarrow> string list \<Rightarrow> bool" where
  "extends r r' tail = (case r of Inl e \<Rightarrow> True | Inr (opts, rest) \<Rightarrow> r' = Inr (opts, rest @ tail))"

lemma extends_simps [simp]: "extends (Inl e) r' tail" "extends (Inr (opts, rest)) (Inr (opts, rest @ tail)) tail"
  by (simp_all add: extends_def)

lemma extends_if: "extends a a' tail \<Longrightarrow> extends b b' tail \<Longrightarrow> extends (if c then a else b) (if c then a' else b') tail"
  by simp

lemma consume_append:
  "consume_int args = Some (v, rest) \<Longrightarrow> consume_int (args @ tail) = Some (v, rest @ tail)"
  "consume_size_mib args = Some (w, rest) \<Longrightarrow> consume_size_mib (args @ tail) = Some (w, rest @ tail)"
proof -
  show int: "consume_int args = Some (v, rest) \<Longrightarrow> consume_int (args @ tail) = Some (v, rest @ tail)" for v
    by (cases args) (auto simp: consume_int_def split: option.splits)
  show "consume_size_mib args = Some (w, rest) \<Longrightarrow> consume_size_mib (args @ tail) = Some (w, rest @ tail)"
    by (auto simp: consume_size_mib_def int split: option.splits if_splits)
qed

lemma extends_options:
  "extends (int_option name accept store args opts) (int_option name accept store (args @ tail) opts) tail"
  "extends (size_option name store' args opts) (size_option name store' (args @ tail) opts) tail"
  "extends (file_option name store'' args opts) (file_option name store'' (args @ tail) opts) tail"
  by (simp_all add: int_option_def size_option_def file_option_def consume_append split: option.split list.split)

lemma option_step_extends: "extends (option_step arg args opts) (option_step arg (args @ tail) opts) tail"
  unfolding option_step_def by (intro extends_if extends_options) simp_all

text \<open>The two kinds of early end.\<close>

definition early_end :: "string list \<Rightarrow> exit \<Rightarrow> bool" where
  "early_end args e \<longleftrightarrow> (e = print_help \<and> ''--help'' \<in> set args)
     \<or> (exit_code e = 2 \<and> std_out e = [] \<and> std_err e \<noteq> [])"

definition fails_early :: "string list \<Rightarrow> exit + options \<times> string list \<Rightarrow> bool" where
  "fails_early args r = (case r of Inl e \<Rightarrow> early_end args e | Inr (opts, rest) \<Rightarrow> set rest \<subseteq> set args)"

lemma early_usage [simp]: "early_end args (usage_error message)"
  by (simp add: early_end_def usage_error_def)

lemma fails_if: "(c \<Longrightarrow> fails_early args a) \<Longrightarrow> fails_early args b \<Longrightarrow> fails_early args (if c then a else b)"
  by simp

lemma consume_subset:
  "consume_int args = Some (v, rest) \<Longrightarrow> set rest \<subseteq> set args"
  "consume_size_mib args = Some (w, rest) \<Longrightarrow> set rest \<subseteq> set args"
proof -
  show int: "consume_int args = Some (v, rest) \<Longrightarrow> set rest \<subseteq> set args" for v
    by (cases args) (auto simp: consume_int_def split: option.splits)
  show "consume_size_mib args = Some (w, rest) \<Longrightarrow> set rest \<subseteq> set args"
    using int by (auto simp: consume_size_mib_def split: option.splits if_splits)
qed

lemma fails_options:
  "fails_early (arg # args) (int_option name accept store args opts)"
  "fails_early (arg # args) (size_option name store' args opts)"
  "fails_early (arg # args) (file_option name store'' args opts)"
  by (auto simp: fails_early_def int_option_def size_option_def file_option_def
      dest: consume_subset split: option.split list.split)

lemma option_step_fails: "fails_early (arg # args) (option_step arg args opts)"
  unfolding option_step_def
  by (intro fails_if fails_options) (auto simp: fails_early_def early_end_def usage_error_def)

lemma early_end_mono: "early_end args e \<Longrightarrow> set args \<subseteq> set args' \<Longrightarrow> early_end args' e"
  by (auto simp: early_end_def)

lemma parse_args_early: "parse_args args opts = Inl e \<Longrightarrow> early_end args e"
proof (induction args opts rule: parse_args.induct)
  case (2 arg rest opts)
  show ?case
  proof (cases "option_step arg rest opts")
    case (Inl e')
    then show ?thesis using "2.prems" option_step_fails [of arg rest opts]
      by (simp add: parse_args.simps(2) fails_early_def)
  next
    case (Inr r)
    obtain o1 r1 where r: "r = (o1, r1)" by (cases r)
    have "parse_args r1 o1 = Inl e" using "2.prems" Inr r by (simp add: parse_args.simps(2))
    then have "early_end r1 e" using "2.IH" [OF Inr [unfolded r] refl] by simp
    moreover have "set r1 \<subseteq> set (arg # rest)" using option_step_fails [of arg rest opts] Inr r
      by (simp add: fails_early_def)
    ultimately show ?thesis by (rule early_end_mono)
  qed
qed simp

section \<open>Properties\<close>

text \<open>C15: the options with which the program goes on are well formed: every number is an \<open>int\<close> in the range its
  consumers need, the sizes are whole MiB below 2 ^ 51 bytes (they do not wrap), and at most one NUMA mode is on.\<close>

theorem accepted_options_valid:
  assumes "parse_command_line args = Inr opts"
  shows "0 < opt_rounds opts \<and> opt_rounds opts \<le> i32_max \<and> 0 < opt_iterations opts \<and> opt_iterations opts \<le> i32_max
     \<and> 0 \<le> opt_warmup opts \<and> opt_warmup opts \<le> i32_max \<and> 0 < opt_spectre_tries opts
     \<and> 0 < opt_spectre_lab_runs opts \<and> 0 < opt_phase5_runs opts \<and> 0 < opt_compute_seconds opts
     \<and> 0 < opt_evaluation_runs opts \<and> 0 < opt_trace_samples opts \<and> 0 < opt_trace_average opts
     \<and> 0 < opt_operational_runs opts \<and> opt_operational_runs opts \<le> i32_max
     \<and> (opt_shared_memory opts \<longrightarrow> 0 < opt_shm_iterations opts)
     \<and> - 1 \<le> opt_numa_node opts \<and> (opt_numa_matrix opts \<longrightarrow> opt_numa_node opts = - 1)
     \<and> (opt_buffer_size opts = 0 \<or> mib_size (opt_buffer_size opts)) \<and> mib_size (opt_bandwidth_size opts)"
proof -
  have p: "parse_args args default_options = Inr opts" "numeric_configuration_ok opts"
    "\<not> (0 \<le> opt_numa_node opts \<and> opt_numa_matrix opts)"
    using assms by (auto simp: parse_command_line_def split: sum.splits if_splits)
  have "options_inv opts" using parse_args_inv [OF p(1) options_inv_default] .
  then show ?thesis using p(2,3) by (auto simp: options_inv_def numeric_configuration_ok_def in_i32_def)
qed

theorem accepted_options_valid_witness:
  "\<exists>opts. parse_command_line [''--buffer-mib'', ''64'', ''--quiet''] = Inr opts \<and> mib_size (opt_buffer_size opts)"
proof -
  have "parse_int ''64'' = Some 64" by code_simp
  then have p: "\<exists>opts. parse_command_line [''--buffer-mib'', ''64'', ''--quiet''] = Inr opts \<and> opt_buffer_size opts = 64 * 1024 * 1024"
    by (simp add: parse_command_line_def parse_args.simps(2) option_step_def size_option_def consume_size_mib_def
        consume_int_def default_options_def numeric_configuration_ok_def)
  then obtain opts where o: "parse_command_line [''--buffer-mib'', ''64'', ''--quiet''] = Inr opts"
    "opt_buffer_size opts = 64 * 1024 * 1024" by blast
  from accepted_options_valid [OF o(1)] o show ?thesis by auto
qed

text \<open>C14: every well-formed configuration has a command line, and reading it back gives that configuration.\<close>

theorem command_line_roundtrip:
  assumes "options_inv opts" "numeric_configuration_ok opts" "\<not> (0 \<le> opt_numa_node opts \<and> opt_numa_matrix opts)"
  shows "parse_command_line (command_line opts) = Inr opts"
  unfolding parse_command_line_def parse_args_command_line [OF assms(1)] using assms(2,3) by simp

theorem command_line_roundtrip_witness:
  "parse_command_line (command_line (default_options\<lparr>opt_verbose := True, opt_numa_node := 1\<rparr>))
     = Inr (default_options\<lparr>opt_verbose := True, opt_numa_node := 1\<rparr>)"
  using options_inv_default
  by (intro command_line_roundtrip)
    (simp_all add: options_inv_def numeric_configuration_ok_def default_options_def in_i32_def i32_min_def i32_max_def)

text \<open>arguments are processed from left to right: once a prefix is accepted, the rest is read from the options
  it left, so that a repeated option takes its last value.\<close>

theorem arguments_compose:
  assumes "parse_args xs opts = Inr opts1"
  shows "parse_args (xs @ ys) opts = parse_args ys opts1"
  using assms
proof (induction xs opts rule: parse_args.induct)
  case (2 arg rest opts)
  obtain o1 r1 where s: "option_step arg rest opts = Inr (o1, r1)" "parse_args r1 o1 = Inr opts1"
    using "2.prems"(1) by (auto simp: parse_args.simps(2) split: sum.splits)
  have "option_step arg (rest @ ys) opts = Inr (o1, r1 @ ys)"
    using option_step_extends [of arg rest opts ys] by (simp add: s(1) extends_def)
  then show ?case using "2.IH" [OF s(1) refl s(2)] by (simp add: parse_args.simps(2))
qed simp

theorem arguments_compose_witness:
  "parse_args [''--csv'', ''a'', ''--csv'', ''b''] default_options = Inr (default_options\<lparr>opt_csv := ''b''\<rparr>)"
  using arguments_compose [of "[''--csv'', ''a'']" default_options "default_options\<lparr>opt_csv := ''a''\<rparr>" "[''--csv'', ''b'']"]
  by (simp add: parse_file_options)

text \<open>the program ends while reading its arguments only with the help text and status 0, when --help is among
  them, or with status 2, nothing on the standard output and a message on the standard error.\<close>

theorem early_exit_status:
  assumes "parse_command_line args = Inl e"
  shows "(e = print_help \<and> exit_code e = 0 \<and> std_err e = [] \<and> ''--help'' \<in> set args)
     \<or> (exit_code e = 2 \<and> std_out e = [] \<and> std_err e \<noteq> [])"
proof -
  have "early_end args e"
    using assms by (auto simp: parse_command_line_def dest: parse_args_early split: sum.splits if_splits)
  then show ?thesis by (auto simp: early_end_def print_help_def)
qed

theorem early_exit_status_witness:
  "\<exists>e. parse_command_line [''--rounds'', ''x''] = Inl e \<and> exit_code e \<in> {0, 2}"
proof -
  have "parse_int ''x'' = None" by code_simp
  then have "\<exists>e. parse_command_line [''--rounds'', ''x''] = Inl e"
    by (simp add: parse_command_line_def parse_args.simps(2) option_step_def int_option_def consume_int_def)
  then show ?thesis using early_exit_status by blast
qed

end
