(* ===== verification/Capability.thy ===== *)
theory Capability
  imports Topology
begin

text \<open>
  Model of \<open>src/cpu_capability.cpp\<close>: the vendor, brand and signature read by CPUID, the maximal frequency
  read from files, and the throughput benchmark.  CPUID, the files, the two answers of
  \<open>__builtin_cpu_supports\<close> and the steady clock are parameters; multiplication and addition of the
  benchmark are rounded separately (no fused operation).
\<close>

section \<open>Identification\<close>

text \<open>The bytes of a register in memory order, and a NUL-terminated array read as a string.\<close>

definition word_bytes :: "u32 \<Rightarrow> string" where
  "word_bytes w = map (\<lambda>i. char_of (unat (drop_bit (8 * i) w AND 0xFF))) [0..<4]"

definition c_string :: "string \<Rightarrow> string" where
  "c_string cs = takeWhile (\<lambda>c. c \<noteq> CHR 0x00) cs"

definition trim_spaces :: "string \<Rightarrow> string" where
  "trim_spaces cs =
     rev (dropWhile (\<lambda>c. c = CHR '' '') (rev (dropWhile (\<lambda>c. c = CHR '' '') cs)))"

definition max_extended_leaf :: "cpuid \<Rightarrow> u32" where
  "max_extended_leaf cpu = (case get_cpuid cpu 0x80000000 of None \<Rightarrow> 0 | Some r \<Rightarrow> eax r)"

definition regs_bytes :: "regs \<Rightarrow> string" where
  "regs_bytes r = word_bytes (eax r) @ word_bytes (ebx r) @ word_bytes (ecx r) @ word_bytes (edx r)"

definition read_brand :: "cpuid \<Rightarrow> string" where
  "read_brand cpu =
     (if max_extended_leaf cpu < 0x80000004 then ''Unknown''
      else
        let brand = concat (map (\<lambda>i. regs_bytes (cpu (0x80000002 + of_nat i) 0)) [0..<3]);
            v = trim_spaces (c_string brand)
        in if v = [] then ''Unknown'' else v)"

text \<open>\<open>std::stod\<close> on decimal notation (no hexadecimal, infinite or undefined values): \<open>None\<close> when there is
  nothing to convert.\<close>

definition stod :: "string \<Rightarrow> double option" where
  "stod cs =
     (let t = dropWhile is_space cs;
          neg = (t \<noteq> [] \<and> hd t = CHR ''-'');
          u = (if t \<noteq> [] \<and> (hd t = CHR ''-'' \<or> hd t = CHR ''+'') then tl t else t);
          whole = takeWhile is_digit u; v = dropWhile is_digit u;
          fraction = (if v \<noteq> [] \<and> hd v = CHR ''.'' then takeWhile is_digit (tl v) else []);
          w = (if v \<noteq> [] \<and> hd v = CHR ''.'' then dropWhile is_digit (tl v) else v);
          x = (if w \<noteq> [] \<and> (hd w = CHR ''e'' \<or> hd w = CHR ''E'') then tl w else []);
          eneg = (x \<noteq> [] \<and> hd x = CHR ''-'');
          eds = takeWhile is_digit (if x \<noteq> [] \<and> (hd x = CHR ''-'' \<or> hd x = CHR ''+'') then tl x else x);
          e = (if eneg then - int (of_dec eds) else int (of_dec eds));
          magnitude = dbl (of_nat (of_dec (whole @ fraction)) * 10 powi (e - int (length fraction)))
      in if whole @ fraction = [] then None else Some (if neg then - magnitude else magnitude))"

definition i64_min :: int where "i64_min = - (2 ^ 63)"
definition i64_max :: int where "i64_max = 2 ^ 63 - 1"

fun mhz_line :: "string list \<Rightarrow> double" where
  "mhz_line [] = 0"
| "mhz_line (l # ls) =
     (if take 7 l \<noteq> ''cpu MHz'' then mhz_line ls
      else if CHR '':'' \<notin> set l then mhz_line ls
      else case stod (drop 1 (dropWhile (\<lambda>c. c \<noteq> CHR '':'') l)) of None \<Rightarrow> 0 | Some x \<Rightarrow> x)"

definition max_frequency_mhz :: "file_system \<Rightarrow> double" where
  "max_frequency_mhz fs =
     (let (khz, ok) = (case contents fs ''/sys/devices/system/cpu/cpu0/cpufreq/cpuinfo_max_freq'' of
                         None \<Rightarrow> (0, False)
                       | Some t \<Rightarrow> (case extract_number i64_min i64_max 0 t of (v, ok, _) \<Rightarrow> (v, ok)))
      in if ok \<and> 0 < khz then dbl (dbl (of_int khz) / 1000)
         else mhz_line (case contents fs ''/proc/cpuinfo'' of None \<Rightarrow> [] | Some t \<Rightarrow> lines_of CHR 0x0A t))"

record cpu_capability =
  vendor :: string
  brand :: string
  family :: u32
  model :: u32
  stepping :: u32
  sse :: bool
  sse2 :: bool
  sse4_2 :: bool
  avx :: bool
  avx2 :: bool
  avx512f :: bool
  frequency_mhz :: double

text \<open>Leaf 1: family, model and stepping.\<close>

definition decode_signature :: "u32 \<Rightarrow> u32 \<times> u32 \<times> u32" where
  "decode_signature a =
     (let base_family = drop_bit 8 a AND 0xF; base_model = drop_bit 4 a AND 0xF;
          ext_family = drop_bit 20 a AND 0xFF; ext_model = drop_bit 16 a AND 0xF
      in (if base_family = 0xF then base_family + ext_family else base_family,
          if base_family = 0x6 \<or> base_family = 0xF then push_bit 4 ext_model OR base_model else base_model,
          a AND 0xF))"

definition detect :: "cpuid \<Rightarrow> file_system \<Rightarrow> (string \<Rightarrow> bool) \<Rightarrow> cpu_capability" where
  "detect cpu fs cpu_supports =
     (let r0 = cpu 0 0;
          info0 = \<lparr>vendor = c_string (word_bytes (ebx r0) @ word_bytes (edx r0) @ word_bytes (ecx r0)),
            brand = read_brand cpu, family = 0, model = 0, stepping = 0, sse = False, sse2 = False,
            sse4_2 = False, avx = False, avx2 = False, avx512f = False, frequency_mhz = max_frequency_mhz fs\<rparr>;
          r1 = cpu 1 0;
          (fam, mdl, stp) = decode_signature (eax r1);
          info1 = (if 1 \<le> max_basic_leaf cpu
                   then info0\<lparr>family := fam, model := mdl, stepping := stp,
                          sse := bit (edx r1) 25, sse2 := bit (edx r1) 26,
                          sse4_2 := bit (ecx r1) 20, avx := bit (ecx r1) 28\<rparr>
                   else info0)
      in info1\<lparr>avx2 := cpu_supports ''avx2'', avx512f := cpu_supports ''avx512f''\<rparr>)"

section \<open>Benchmark\<close>

definition float_seeds :: "double list" where
  "float_seeds = map (\<lambda>k. dbl (1 + of_nat k / 10 ^ 6)) [1, 3, 5, 7, 9, 11, 13, 15]"

definition float_constants :: "(double \<times> double) list" where
  "float_constants =
     map (\<lambda>(a, b). (dbl (1 + of_nat a / 10 ^ 7), dbl (of_nat b / 10 ^ 7)))
       [(1, 3), (2, 5), (3, 7), (4, 9), (5, 11), (6, 13), (7, 15), (8, 17)]"

definition int_seeds :: "u64 list" where
  "int_seeds =
     [0x9E3779B97F4A7C15, 0xD1B54A32D192ED03, 0x94D049BB133111EB, 0xBF58476D1CE4E5B9,
      0x369DEA0F31A53F85, 0x2545F4914F6CDD1D, 0xD2B74407B1CE6E93, 0xA4093822299F31D0]"

definition int_factors :: "u64 list" where
  "int_factors =
     [2862933555777941757, 3202034522624059733, 3935559000370003845, 2691343689449507681,
      11400714819323198485, 7046029254386353131, 6364136223846793005, 1442695040888963407]"

record compute_state =
  floats :: "double list"
  ints :: "u64 list"
  round_total :: u64

definition float_round :: "double list \<Rightarrow> double list" where
  "float_round xs = map2 (\<lambda>f (a, b). dbl (dbl (f * a) + b)) xs float_constants"

text \<open>Each integer is updated in place with its successor; the last one uses the new first one.\<close>

definition int_round :: "u64 list \<Rightarrow> u64 list" where
  "int_round xs = foldl (\<lambda>ys k. ys[k := ys ! k * int_factors ! k + ys ! (Suc k mod 8)]) xs [0..<8]"

definition k_rounds :: nat where "k_rounds = 4"

definition compute_batch :: "compute_state \<Rightarrow> compute_state" where
  "compute_batch s =
     \<lparr>floats = (float_round ^^ k_rounds) (floats s), ints = (int_round ^^ k_rounds) (ints s),
      round_total = round_total s + of_nat k_rounds\<rparr>"

text \<open>\<open>clock k\<close> is the \<open>k\<close>-th value of \<open>steady_clock::now\<close> in nanoseconds; the result is the state and
  the number of clock reads.\<close>

partial_function (option) compute_loop ::
  "(nat \<Rightarrow> int) \<Rightarrow> double \<Rightarrow> nat \<Rightarrow> compute_state \<Rightarrow> (compute_state \<times> nat) option" where
  "compute_loop clock deadline c s =
     (if dbl (of_int (clock c)) < deadline then compute_loop clock deadline (Suc c) (compute_batch s)
      else Some (s, Suc c))"

record compute_result =
  seconds :: double
  gflops :: double
  gintops :: double

definition no_result :: compute_result where
  "no_result = \<lparr>seconds = 0, gflops = 0, gintops = 0\<rparr>"

definition run_compute :: "(nat \<Rightarrow> int) \<Rightarrow> double \<Rightarrow> compute_result option" where
  "run_compute clock secs =
     (let start = clock 0; deadline = dbl (dbl (of_int start) + dbl (secs * 10 ^ 9)) in
      case compute_loop clock deadline 1 \<lparr>floats = float_seeds, ints = int_seeds, round_total = 0\<rparr> of
        None \<Rightarrow> None
      | Some (s, c) \<Rightarrow>
          (let elapsed = dbl (dbl (of_int (clock c - start)) / 10 ^ 9);
               round_count = double_of_u64 (round_total s)
           in if elapsed \<le> 0 then Some no_result
              else Some \<lparr>seconds = elapsed,
                         gflops = dbl (dbl (dbl (round_count * 16) / elapsed) / 10 ^ 9),
                         gintops = dbl (dbl (dbl (round_count * 16) / elapsed) / 10 ^ 9)\<rparr>))"

definition benchmark :: "(nat \<Rightarrow> int) \<Rightarrow> double \<Rightarrow> compute_result option" where
  "benchmark clock secs = (if \<not> 0 < secs then Some no_result else run_compute clock secs)"

section \<open>Lemmas\<close>

lemma compute_loop_batches:
  assumes "\<forall>k<n. dbl (of_int (clock (c + k))) < deadline" "deadline \<le> dbl (of_int (clock (c + n)))"
  shows "compute_loop clock deadline c s = Some ((compute_batch ^^ n) s, Suc (c + n))"
  using assms
proof (induction n arbitrary: c s)
  case 0
  then show ?case by (subst compute_loop.simps) simp
next
  case (Suc n)
  have "compute_loop clock deadline (Suc c) (compute_batch s)
      = Some ((compute_batch ^^ n) (compute_batch s), Suc (Suc c + n))"
    using Suc.prems by (intro Suc.IH) auto
  moreover have "dbl (of_int (clock c)) < deadline" using Suc.prems(1) by (metis add_0_right zero_less_Suc)
  ultimately show ?case by (subst compute_loop.simps) (simp add: funpow_swap1)
qed

lemma round_total_batches: "round_total ((compute_batch ^^ n) s) = round_total s + of_nat (4 * n)"
  by (induction n) (simp_all add: compute_batch_def k_rounds_def algebra_simps)

text \<open>Fields of a sum of shifted parts.\<close>

lemma unat_field32:
  assumes "unat (a :: u32) = x + 2 ^ k * (b + 2 ^ w * c)" "x < 2 ^ k" "b < 2 ^ w"
  shows "unat (drop_bit k a AND mask w) = b"
proof -
  have "unat a < 2 ^ 32" using unsigned_less [of a] by simp
  then have "unat a mod 2 ^ 32 = unat a" by simp
  then have "unat (drop_bit k a AND mask w) = unat a div 2 ^ k mod 2 ^ w"
    by (simp only: take_bit_eq_mask [symmetric] unsigned_take_bit_eq unsigned_drop_bit_eq)
      (simp add: take_bit_eq_mod drop_bit_eq_div)
  then show ?thesis using assms by simp
qed

lemma masks4: "(0xF :: u32) = mask 4" "(0xFF :: u32) = mask 8"
  by (simp_all add: mask_eq_exp_minus_1)

lemma word_of_unat: "unat (w :: u32) = n \<Longrightarrow> w = word_of_nat n"
  by auto

lemma shifted_or: "m < 16 \<Longrightarrow> push_bit 4 (word_of_nat em :: u32) OR word_of_nat m = word_of_nat (16 * em + m)"
proof -
  assume "m < 16"
  then have m: "word_of_nat m = take_bit 4 (word_of_nat m :: u32)" by (simp add: take_bit_of_nat take_bit_nat_eq_self)
  have "push_bit 4 (word_of_nat em :: u32) AND word_of_nat m = 0"
    by (subst m) (rule bit_eqI, simp add: bit_simps)
  then show ?thesis using disjunctive_add_eq_or [of "push_bit 4 (word_of_nat em :: u32)" "word_of_nat m"]
    by (simp add: push_bit_eq_mult mult.commute)
qed

section \<open>Properties\<close>

text \<open>the signature of leaf 1 is decoded as the fields it is composed of: stepping, model, family, (reserved
  bits), extended model and extended family; the extended family counts for family 15 only, the extended model
  for families 6 and 15, and the sums and shifts lose nothing.\<close>

theorem signature_roundtrip:
  assumes "s < 16" "m < 16" "f < 16" "r < 16" "em < 16" "ef < 256" "q < 16"
    and "a = word_of_nat (s + 16 * (m + 16 * (f + 16 * (r + 16 * (em + 16 * (ef + 256 * q))))))"
  shows "decode_signature a =
     (word_of_nat (if f = 15 then f + ef else f), word_of_nat (if f = 6 \<or> f = 15 then 16 * em + m else m), word_of_nat s)"
proof -
  have a: "unat a = s + 16 * (m + 16 * (f + 16 * (r + 16 * (em + 16 * (ef + 256 * q)))))"
    unfolding assms(8) using assms(1-7) by (intro unat_word_of_nat32) simp
  have "unat (a AND mask 4) = s"
    using unat_field32 [of a 0 0 s 4 "m + 16 * (f + 16 * (r + 16 * (em + 16 * (ef + 256 * q))))"] assms(1) by (simp add: a)
  moreover have "unat (drop_bit 4 a AND mask 4) = m"
    "unat (drop_bit 8 a AND mask 4) = f" "unat (drop_bit 16 a AND mask 4) = em" "unat (drop_bit 20 a AND mask 8) = ef"
    using assms(1-7)
    by (auto intro!: unat_field32 [of a s 4 m 4 "f + 16 * (r + 16 * (em + 16 * (ef + 256 * q)))"]
        unat_field32 [of a "s + 16 * m" 8 f 4 "r + 16 * (em + 16 * (ef + 256 * q))"]
        unat_field32 [of a "s + 16 * (m + 16 * (f + 16 * r))" 16 em 4 "ef + 256 * q"]
        unat_field32 [of a "s + 16 * (m + 16 * (f + 16 * (r + 16 * em)))" 20 ef 8 q] simp: a)
  ultimately have words: "a AND mask 4 = word_of_nat s" "drop_bit 4 a AND mask 4 = word_of_nat m"
    "drop_bit 8 a AND mask 4 = word_of_nat f" "drop_bit 16 a AND mask 4 = word_of_nat em"
    "drop_bit 20 a AND mask 8 = word_of_nat ef" by (auto intro: word_of_unat)
  have f: "(word_of_nat f :: u32) = 0xF \<longleftrightarrow> f = 15" "(word_of_nat f :: u32) = 0x6 \<longleftrightarrow> f = 6"
  proof -
    have "unat (word_of_nat f :: u32) = f" using assms(3) by (intro unat_word_of_nat32) simp
    then have "(word_of_nat f :: u32) = k \<longleftrightarrow> f = unat k" for k by auto
    from this [of "0xF"] this [of "0x6"] show "(word_of_nat f :: u32) = 0xF \<longleftrightarrow> f = 15"
      "(word_of_nat f :: u32) = 0x6 \<longleftrightarrow> f = 6" by simp_all
  qed
  show ?thesis
    using words f shifted_or [OF assms(2), of em]
    by (simp add: decode_signature_def Let_def masks4)
qed

theorem signature_roundtrip_witness: "decode_signature 0x000906EA = (6, 158, 10)"
  using signature_roundtrip [of 10 14 6 0 9 0 0 "0x000906EA"] by simp

text \<open>C40: the throughput benchmark returns when the clock reaches its deadline: with \<open>n\<close> batches before it, the
  elapsed time is that of the last clock read, and both rates are 16 operations for each of the 4 rounds of the
  batches; the floating-point and the integer rate are always the same number.\<close>

theorem benchmark_result:
  assumes "0 < secs" "n < 2 ^ 62" "\<forall>k<n. dbl (of_int (clock (Suc k))) < deadline"
    and "deadline \<le> dbl (of_int (clock (Suc n)))"
    and "deadline = dbl (dbl (of_int (clock 0)) + dbl (secs * 10 ^ 9))"
    and "elapsed = dbl (dbl (of_int (clock (n + 2) - clock 0)) / 10 ^ 9)" "0 < elapsed"
    and "rate = dbl (dbl (dbl (double_of_nat (4 * n) * 16) / elapsed) / 10 ^ 9)"
  shows "benchmark clock secs = Some \<lparr>seconds = elapsed, gflops = rate, gintops = rate\<rparr>"
proof -
  have "compute_loop clock deadline 1 s = Some ((compute_batch ^^ n) s, n + 2)" for s
    using compute_loop_batches [of n clock 1 deadline s] assms(3,4) by simp
  then have "run_compute clock secs = (let e = dbl (dbl (of_int (clock (n + 2) - clock 0)) / 10 ^ 9);
      c = double_of_u64 (round_total ((compute_batch ^^ n) \<lparr>floats = float_seeds, ints = int_seeds, round_total = 0\<rparr>))
    in if e \<le> 0 then Some no_result
       else Some \<lparr>seconds = e, gflops = dbl (dbl (dbl (c * 16) / e) / 10 ^ 9), gintops = dbl (dbl (dbl (c * 16) / e) / 10 ^ 9)\<rparr>)"
    by (simp only: run_compute_def Let_def assms(5) [symmetric] option.case prod.case)
  moreover have "double_of_u64 (round_total ((compute_batch ^^ n) \<lparr>floats = float_seeds, ints = int_seeds, round_total = 0\<rparr>))
      = double_of_nat (4 * n)"
    using unat_word_of_nat64 [of "4 * n"] assms(2) by (simp add: round_total_batches double_of_u64_def)
  ultimately show ?thesis
    using assms(1,7) by (simp only: Let_def assms(6) [symmetric] assms(8) [symmetric] benchmark_def) simp
qed

theorem benchmark_result_witness:
  "\<exists>r. benchmark (\<lambda>k. int k * 10 ^ 9) 1 = Some r \<and> gflops r = gintops r \<and> seconds r = 2"
proof -
  have d: "dbl (of_int (10 ^ 9)) = 10 ^ 9" "dbl (of_int (2 * 10 ^ 9)) = 2 * 10 ^ 9" "dbl 2 = 2"
    using fl_of_int [of "10 ^ 9" 53] fl_of_int [of "2 * 10 ^ 9" 53] fl_of_int [of 2 53] by simp_all
  show ?thesis
    using benchmark_result [of 1 0 "\<lambda>k. int k * 10 ^ 9" "10 ^ 9" 2 _] d by simp
qed

end
