(* ===== verification/World.thy ===== *)
theory World
  imports Cli Capability Reporter Labs Evaluation
begin

text \<open>
  What \<open>src/main.cpp\<close> runs on: the environment of the process (processor, counters, files, scheduler,
  allocators, system calls), its state (counter reads, heap, written files, console), and the phases of the
  benchmark that compose the measurers.  A phase returns an exception or a value; \<open>None\<close> stands for
  undefined behaviour or a wait that never returns.
\<close>

section \<open>Environment and state\<close>

record system =
  sys_hardware :: hardware
  sys_memory :: memory_env
  sys_files :: file_system
  sys_cpuid :: cpuid
  sys_cpu_supports :: "string \<Rightarrow> bool"
  sys_online :: int
  sys_affinity :: "(nat \<Rightarrow> bool) option"
  sys_set_affinity :: "nat \<Rightarrow> bool"
  sys_set_priority :: "int \<Rightarrow> int"
  sys_shared :: os_env
  sys_shuffle :: "nat list \<Rightarrow> nat list"
  sys_byte_dist :: "nat \<Rightarrow> u8"
  sys_log10 :: "double \<Rightarrow> double"
  sys_steady_clock :: "nat \<Rightarrow> int"
  sys_uname :: "(string \<times> string) option"
  sys_writable :: "string \<Rightarrow> bool"
  sys_local_time :: local_time

record world =
  w_tsc_reads :: nat
  w_clock_reads :: nat
  w_heap :: heap
  w_files :: files
  w_out :: string
  w_err :: string

definition machine_of :: "world \<Rightarrow> 'a machine" where
  "machine_of w = \<lparr>tsc_reads = w_tsc_reads w, clock_reads = w_clock_reads w, trace = []\<rparr>"

definition after_machine :: "'a machine \<Rightarrow> world \<Rightarrow> world" where
  "after_machine m w = w\<lparr>w_tsc_reads := tsc_reads m, w_clock_reads := clock_reads m\<rparr>"

definition print_out :: "string \<Rightarrow> world \<Rightarrow> world" where
  "print_out s w = w\<lparr>w_out := w_out w @ s\<rparr>"

definition print_err :: "string \<Rightarrow> world \<Rightarrow> world" where
  "print_err s w = w\<lparr>w_err := w_err w @ s\<rparr>"

definition print_unless :: "bool \<Rightarrow> string \<Rightarrow> world \<Rightarrow> world" where
  "print_unless silent s w = (if silent then w else print_out s w)"

definition warn_unless :: "bool \<Rightarrow> string \<Rightarrow> world \<Rightarrow> world" where
  "warn_unless silent s w = (if silent then w else print_err s w)"

fun what :: "exn \<Rightarrow> string" where
  "what (InvalidArgument s) = s"
| "what (RuntimeError s) = s"

text \<open>\<open>Config\<close>.\<close>

definition tsc_calibration_rounds :: int where "tsc_calibration_rounds = 3"
definition tsc_calibration_ms :: int where "tsc_calibration_ms = 50"
definition bandwidth_repeats :: int where "bandwidth_repeats = 5"
definition default_shm_warmup :: int where "default_shm_warmup = 200"
definition config_cache_line_size :: nat where "config_cache_line_size = 64"

section \<open>Phases of the benchmark\<close>

subsection \<open>Latency\<close>

definition main_strides :: "nat list" where "main_strides = [64, 256, 1024, 4096, 16384]"

definition latency_phase ::
  "system \<Rightarrow> options \<Rightarrow> latency_measurer \<times> nat machine
     \<Rightarrow> (exn + measurement_result list) \<times> latency_measurer \<times> nat machine" where
  "latency_phase sys opts s0 =
     (let hw = sys_hardware sys; n = opt_iterations opts; w = opt_warmup opts; r = opt_rounds opts in
      case measure_hit hw n w r s0 of (Inl e, s1) \<Rightarrow> (Inl e, s1) | (Inr hit, s1) \<Rightarrow>
      (case measure_forced_miss (sys_shuffle sys) hw n w r s1 of (Inl e, s2) \<Rightarrow> (Inl e, s2) | (Inr miss, s2) \<Rightarrow>
      (case measure_store hw n w r s2 of (Inl e, s3) \<Rightarrow> (Inl e, s3) | (Inr store, s3) \<Rightarrow>
      (case measure_strides hw main_strides (max 1 (n div 2)) (w div 2) r s3 of
         (Inl e, s4) \<Rightarrow> (Inl e, s4)
       | (Inr strides, s4) \<Rightarrow> (Inr ([hit, miss, store] @ strides), s4)))))"

subsection \<open>Bandwidth\<close>

definition bandwidth_on ::
  "system \<Rightarrow> options \<Rightarrow> string \<Rightarrow> int \<Rightarrow> world \<Rightarrow> (exn + bandwidth_result) \<times> world" where
  "bandwidth_on sys opts meth node w =
     (case measure (sys_hardware sys) (sys_memory sys) (opt_bandwidth_size opts) meth bandwidth_repeats node
             (w_heap w) (machine_of w) of
        (r, h, m) \<Rightarrow> (r, after_machine m (w\<lparr>w_heap := h\<rparr>)))"

definition bandwidth_method ::
  "system \<Rightarrow> options \<Rightarrow> bandwidth_result list \<times> world \<Rightarrow> string \<Rightarrow> bandwidth_result list \<times> world" where
  "bandwidth_method sys opts acc meth =
     (case bandwidth_on sys opts meth (- 1) (snd acc) of
        (Inr r, w) \<Rightarrow> (fst acc @ [r], w)
      | (Inl e, w) \<Rightarrow> (fst acc, warn_unless (opt_quiet opts) (''  '' @ meth @ '': '' @ what e @ newline) w))"

definition bandwidth_phase :: "system \<Rightarrow> options \<Rightarrow> world \<Rightarrow> bandwidth_result list \<times> world" where
  "bandwidth_phase sys opts w0 =
     (if \<not> opt_bandwidth opts then ([], w0)
      else
        let w1 = print_unless (opt_quiet opts) (''[2/4] Measuring bandwidth...'' @ newline) w0 in
        if 0 \<le> opt_numa_node opts then
          (case bandwidth_on sys opts ''numa'' (opt_numa_node opts) w1 of
             (Inr r, w) \<Rightarrow> ([r], w)
           | (Inl e, w) \<Rightarrow> ([], warn_unless (opt_quiet opts) (''  NUMA bandwidth: '' @ what e @ newline) w))
        else
          let (rs, w2) = foldl (bandwidth_method sys opts) ([], w1) [''mmap'', ''malloc'']
          in case bandwidth_on sys opts ''LargePage'' (- 1) w2 of
               (Inr r, w) \<Rightarrow> (rs @ [r], w)
             | (Inl e, w) \<Rightarrow> (rs, print_unless (opt_quiet opts)
                 (''  LargePage: unavailable; requires pre-reserved 2 MiB Huge Pages.'' @ newline) w))"

subsection \<open>Shared memory\<close>

definition empty_shm_result :: shm_result where
  "empty_shm_result = \<lparr>shm_stats = empty_summary, shm_iterations = 0, producer_cpu = - 1, consumer_cpu = - 1,
     shm_success = False, error_message = []\<rparr>"

definition shared_phase ::
  "system \<Rightarrow> options \<Rightarrow> int list \<Rightarrow> world \<Rightarrow> ((exn + shm_result) \<times> world) option" where
  "shared_phase sys opts allowed w0 =
     (if \<not> opt_shared_memory opts then Some (Inr empty_shm_result, w0)
      else
        let w1 = print_unless (opt_quiet opts) (''[3/4] Measuring cross-process shared memory...'' @ newline) w0 in
        if length allowed < 2
        then Some (Inr (empty_shm_result\<lparr>error_message := ''Only one CPU is available to this process''\<rparr>), w1)
        else
          let secondary = choose_distinct_cpu (sys_files sys) (hd allowed) allowed in
          map_option (\<lambda>(r, held, m). (r, after_machine m w1))
            (measure_cross_process (sys_hardware sys) (sys_shared sys) (opt_shm_iterations opts) default_shm_warmup
               (hd allowed) secondary (machine_of w1)))"

subsection \<open>Reports\<close>

definition report_phase ::
  "options \<Rightarrow> measurement_result list \<Rightarrow> bandwidth_result list \<Rightarrow> shm_result \<Rightarrow> double \<Rightarrow> world \<Rightarrow> world" where
  "report_phase opts lat bw shm tsc_hz w =
     print_unless (opt_quiet opts)
       (''[4/4] Reporting...'' @ newline @ newline @ latency_text lat tsc_hz (opt_verbose opts) @ bandwidth_text bw
        @ (if opt_shared_memory opts then shared_memory_text shm tsc_hz (opt_verbose opts) else [])) w"

definition csv_phase ::
  "system \<Rightarrow> options \<Rightarrow> measurement_result list \<Rightarrow> bandwidth_result list \<Rightarrow> shm_result \<Rightarrow> double \<Rightarrow> world \<Rightarrow> int \<times> world" where
  "csv_phase sys opts lat bw shm tsc_hz w =
     (if opt_csv opts = [] then (0, w)
      else case write_csv (sys_writable sys) (opt_csv opts) lat bw
             (if opt_shared_memory opts then Some shm else None) tsc_hz (w_files w) of
        (False, f) \<Rightarrow> (1, print_err (''Failed to write CSV: '' @ opt_csv opts @ newline) (w\<lparr>w_files := f\<rparr>))
      | (True, f) \<Rightarrow>
          let (_, f') = append_history (sys_writable sys) (sys_local_time sys) ''history.csv'' lat bw f
          in (0, print_unless (opt_quiet opts)
                (''Results written to '' @ opt_csv opts @ '' (history: history.csv)'' @ newline) (w\<lparr>w_files := f'\<rparr>)))"

section \<open>The benchmark\<close>

text \<open>From the construction of the measurer on: \<open>latency\<close> lives until the end of the \<open>try\<close> block, so its buffer
  is released after the reports, or while an exception leaves the block.\<close>

definition measured_phases ::
  "system \<Rightarrow> options \<Rightarrow> int list \<Rightarrow> double \<Rightarrow> latency_measurer \<Rightarrow> world
     \<Rightarrow> ((exn + int) \<times> latency_measurer \<times> world) option" where
  "measured_phases sys opts allowed tsc_hz L w0 =
     (let w1 = print_unless (opt_quiet opts) (''[1/4] Measuring cache and access latency...'' @ newline) w0 in
      case latency_phase sys opts (L, machine_of w1) of
        (Inl e, L', m) \<Rightarrow> Some (Inl e, L', after_machine m w1)
      | (Inr lat, L', m) \<Rightarrow>
          (let (bw, w3) = bandwidth_phase sys opts (after_machine m w1) in
           case shared_phase sys opts allowed w3 of
             None \<Rightarrow> None
           | Some (Inl e, w4) \<Rightarrow> Some (Inl e, L', w4)
           | Some (Inr shm, w4) \<Rightarrow>
               (let (code, w5) = csv_phase sys opts lat bw shm tsc_hz (report_phase opts lat bw shm tsc_hz w4)
                in Some (Inr code, L', w5))))"

definition with_measurer ::
  "system \<Rightarrow> u64 \<Rightarrow> nat \<Rightarrow> int \<Rightarrow> (latency_measurer \<Rightarrow> world \<Rightarrow> ((exn + 'a) \<times> latency_measurer \<times> world) option)
     \<Rightarrow> world \<Rightarrow> ((exn + 'a) \<times> world) option" where
  "with_measurer sys requested line node body w =
     (case new_latency_measurer (sys_hardware sys) (sys_memory sys) requested line node (w_heap w) (machine_of w) of
        (Inl e, h, m) \<Rightarrow> Some (Inl e, after_machine m (w\<lparr>w_heap := h\<rparr>))
      | (Inr L, h, m) \<Rightarrow>
          map_option (\<lambda>(r, L', w'). (r, w'\<lparr>w_heap := delete_latency_measurer (sys_memory sys) L' (w_heap w')\<rparr>))
            (body L (after_machine m (w\<lparr>w_heap := h\<rparr>))))"

text \<open>The block before the measurer: affinity, processor, calibration.\<close>

definition placement_text :: "options \<Rightarrow> int \<Rightarrow> int \<Rightarrow> string" where
  "placement_text opts primary node =
     (if 0 \<le> opt_numa_node opts
      then ''NUMA placement: CPU '' @ to_string primary @ '' -> node '' @ to_string node
           @ '', memory -> node '' @ to_string (opt_numa_node opts) @ newline
      else [])"

definition run_benchmark :: "system \<Rightarrow> options \<Rightarrow> world \<Rightarrow> ((exn + int) \<times> world) option" where
  "run_benchmark sys opts w0 =
     (let allowed = allowed_cpus (sys_affinity sys) in
      if allowed = [] then Some (Inl (RuntimeError ''Unable to determine CPUs allowed to this process''), w0)
      else
        let primary = hd allowed;
            w1 = (if \<not> pin_current_thread (sys_set_affinity sys) primary
                  then warn_unless (opt_quiet opts) (''[warning] CPU affinity could not be set'' @ newline) w0
                  else w0);
            ignored = raise_priority_best_effort (sys_set_priority sys) default_nice_value;
            caches = detect_caches (sys_cpuid sys)
        in do {
          topo \<leftarrow> topology (sys_files sys) (sys_cpuid sys) (sys_online sys);
          (case calibrate_tsc_hz (sys_hardware sys) tsc_calibration_rounds tsc_calibration_ms (machine_of w1 :: nat machine) of
             (Inl e, m) \<Rightarrow> Some (Inl e, after_machine m w1)
           | (Inr tsc_hz, m) \<Rightarrow>
               (let (overhead, m') = measure_overhead_cycles (sys_hardware sys) 2000 m;
                    w2 = after_machine m' w1
                in do {
                  node \<leftarrow> (if \<not> opt_quiet opts \<and> 0 \<le> opt_numa_node opts
                          then node_for_cpu (sys_files sys) primary else Some (- 1));
                  with_measurer sys (opt_buffer_size opts) (unat (cpu_cache_line_size (sys_cpuid sys))) (opt_numa_node opts)
                    (measured_phases sys opts allowed tsc_hz)
                    (print_unless (opt_quiet opts)
                      (placement_text opts primary node @ ''Memory Microarchitecture & Performance Analyzer'' @ newline @ newline
                       @ system_info_text (model_name (sys_files sys)) topo caches tsc_hz overhead allowed) w2)
                }))
        })"

text \<open>The \<open>try\<close> block: an exception is status 1.\<close>

definition main_benchmark :: "system \<Rightarrow> options \<Rightarrow> world \<Rightarrow> (int \<times> world) option" where
  "main_benchmark sys opts w =
     map_option (\<lambda>(r, w'). case r of
         Inl e \<Rightarrow> (1, print_err (''Error: '' @ what e @ newline) w')
       | Inr code \<Rightarrow> (code, w'))
       (run_benchmark sys opts w)"

end
