(* ===== verification/Benchmark.thy ===== *)
theory Benchmark
  imports World
begin

text \<open>
  What the benchmark of \<open>src/main.cpp\<close> guarantees across its phases: the memory it holds, the streams and
  files it writes, its exit status, and the contents of its reports.
\<close>

section \<open>Accepted options\<close>

lemma accepted_options:
  assumes "parse_command_line args = Inr opts"
  shows "options_inv opts" "numeric_configuration_ok opts"
  using assms by (auto simp: parse_command_line_def dest: parse_args_inv [OF _ options_inv_default]
      split: sum.splits if_splits)

lemma options_bounds:
  assumes "options_inv opts" "numeric_configuration_ok opts"
  shows "0 < opt_rounds opts" "0 < opt_iterations opts" "0 \<le> opt_warmup opts"
    "opt_shared_memory opts \<Longrightarrow> 0 < opt_shm_iterations opts" "opt_numa_node opts \<le> i32_max"
    "0 < unat (opt_bandwidth_size opts)"
  using assms by (auto simp: options_inv_def numeric_configuration_ok_def in_i32_def mib_size_def)

section \<open>The buffer of the measurer\<close>

lemma latency_block: "block_of (fst (snd (latency_phase sys opts s))) = block_of (fst s)"
proof -
  let ?hw = "sys_hardware sys" and ?n = "opt_iterations opts" and ?w = "opt_warmup opts" and ?r = "opt_rounds opts"
  obtain a s1 where 1: "measure_hit ?hw ?n ?w ?r s = (a, s1)" by (rule prod.exhaust)
  obtain b s2 where 2: "measure_forced_miss (sys_shuffle sys) ?hw ?n ?w ?r s1 = (b, s2)" by (rule prod.exhaust)
  obtain c s3 where 3: "measure_store ?hw ?n ?w ?r s2 = (c, s3)" by (rule prod.exhaust)
  obtain d s4 where 4: "measure_strides ?hw main_strides (max 1 (?n div 2)) (?w div 2) ?r s3 = (d, s4)" by (rule prod.exhaust)
  have "block_of (fst s1) = block_of (fst s)" "block_of (fst s2) = block_of (fst s1)"
    "block_of (fst s3) = block_of (fst s2)" "block_of (fst s4) = block_of (fst s3)"
    using block_of_measure(1) [of ?hw ?n ?w ?r s] block_of_measure(2) [of "sys_shuffle sys" ?hw ?n ?w ?r s1]
      block_of_measure(3) [of ?hw ?n ?w ?r s2]
      block_of_measure(5) [of ?hw main_strides "max 1 (?n div 2)" "?w div 2" ?r s3]
    by (simp_all add: 1 2 3 4)
  moreover have "snd (latency_phase sys opts s) \<in> {s1, s2, s3, s4}"
    by (cases a; cases b; cases c; cases d) (simp_all add: latency_phase_def 1 2 3 4)
  ultimately show ?thesis by auto
qed

lemma phases_block:
  "measured_phases sys opts allowed tsc_hz L w = Some (r, L', w') \<Longrightarrow> block_of L' = block_of L"
  using latency_block [of sys opts "(L, machine_of (print_unless (opt_quiet opts)
    (''[1/4] Measuring cache and access latency...'' @ newline) w))"]
  by (auto simp: measured_phases_def Let_def split_beta split: sum.splits option.splits prod.splits)

section \<open>Relations every phase keeps\<close>

text \<open>What the phases do to the world is a composition of counter reads, messages that \<open>--quiet\<close> silences,
  bandwidth measurements, the life of the latency measurer, and the files at the end.\<close>

locale phase_relation =
  fixes sys :: system and opts :: options and R :: "world \<Rightarrow> world \<Rightarrow> bool"
  assumes same: "R w w"
    and trans: "R u v \<Longrightarrow> R v w \<Longrightarrow> R u w"
    and machine: "R w (after_machine (m :: nat machine) w)"
    and out: "R w (print_unless (opt_quiet opts) s w)"
    and warn: "R w (warn_unless (opt_quiet opts) s w)"
    and bandwidth: "node \<in> {- 1, opt_numa_node opts} \<Longrightarrow> R w (snd (bandwidth_on sys opts meth node w))"
    and files: "R w (snd (csv_phase sys opts lat bw shm tsc_hz w))"
    and measurer: "(\<And>L u r L' v. body L u = Some (r, L', v) \<Longrightarrow> R u v \<and> block_of L' = block_of L) \<Longrightarrow>
      with_measurer sys requested line node body w = Some (r :: exn + int, w') \<Longrightarrow> R w w'"
begin

lemma then_step:
  "R w u \<Longrightarrow> R w (after_machine (m :: nat machine) u)"
  "R w u \<Longrightarrow> R w (print_unless (opt_quiet opts) s u)"
  "R w u \<Longrightarrow> R w (warn_unless (opt_quiet opts) s u)"
  "R w u \<Longrightarrow> R w (snd (csv_phase sys opts lat bw shm tsc_hz u))"
  "R w u \<Longrightarrow> R w (report_phase opts lat bw shm tsc_hz u)"
  unfolding report_phase_def by (erule trans, rule machine out warn files)+

lemma then_bandwidth:
  "R w u \<Longrightarrow> bandwidth_on sys opts meth node u = (r, v) \<Longrightarrow> node \<in> {- 1, opt_numa_node opts} \<Longrightarrow> R w v"
  using trans bandwidth [of node u meth] by (metis snd_conv)

lemma then_method: "R w u \<Longrightarrow> bandwidth_method sys opts (rs, u) meth = (rs', v) \<Longrightarrow> R w v"
  using then_bandwidth [of w u meth "- 1"]
  by (auto simp: bandwidth_method_def intro: then_step(3) split: sum.splits prod.splits)

lemma then_methods: "R w u \<Longrightarrow> foldl (bandwidth_method sys opts) (rs, u) ms = (rs', v) \<Longrightarrow> R w v"
proof (induction ms arbitrary: rs u)
  case (Cons m ms)
  obtain rs1 u1 where s: "bandwidth_method sys opts (rs, u) m = (rs1, u1)" by fastforce
  have "R w u1" using then_method [OF Cons.prems(1) s] .
  then show ?case using Cons.IH [of u1 rs1] Cons.prems(2) by (simp add: s)
qed simp

lemma then_phase: "R w u \<Longrightarrow> bandwidth_phase sys opts u = (bw, v) \<Longrightarrow> R w v"
proof -
  assume w: "R w u" and b: "bandwidth_phase sys opts u = (bw, v)"
  define w1 where "w1 = print_unless (opt_quiet opts) (''[2/4] Measuring bandwidth...'' @ newline) u"
  obtain r1 v1 where n: "bandwidth_on sys opts ''numa'' (opt_numa_node opts) w1 = (r1, v1)" by fastforce
  obtain rs w2 where f: "foldl (bandwidth_method sys opts) ([], w1) [''mmap'', ''malloc''] = (rs, w2)" by fastforce
  obtain r3 v3 where l: "bandwidth_on sys opts ''LargePage'' (- 1) w2 = (r3, v3)" by fastforce
  have w1: "R w w1" unfolding w1_def by (rule then_step(2) [OF w])
  have v1: "R w v1" by (rule then_bandwidth [OF w1 n]) simp
  have v3: "R w v3" by (rule then_bandwidth [OF then_methods [OF w1 f] l]) simp
  show "R w v"
    using b w v1 v3 then_step(2,3)
    unfolding bandwidth_phase_def Let_def w1_def [symmetric] f n l prod.case
    by (auto split: if_splits sum.splits)
qed

lemma then_shared: "R w u \<Longrightarrow> shared_phase sys opts allowed u = Some (r, v) \<Longrightarrow> R w v"
  unfolding shared_phase_def Let_def by (auto split: if_splits intro: then_step)

lemma phases_keep:
  assumes "measured_phases sys opts allowed tsc_hz L w = Some (r, L', w')"
  shows "R w w'"
proof -
  define w1 where "w1 = print_unless (opt_quiet opts) (''[1/4] Measuring cache and access latency...'' @ newline) w"
  obtain lr L1 m where lp: "latency_phase sys opts (L, machine_of w1) = (lr, L1, m)" by (metis prod.collapse)
  obtain bw w3 where b: "bandwidth_phase sys opts (after_machine m w1) = (bw, w3)" by fastforce
  have w2: "R w (after_machine m w1)" unfolding w1_def by (intro then_step same)
  note run = assms [unfolded measured_phases_def Let_def, folded w1_def, unfolded lp prod.case b]
  have w3: "R w w3" by (rule then_phase [OF w2 b])
  show ?thesis
  proof (cases lr)
    case (Inl e)
    then show ?thesis using run w2 by simp
  next
    case (Inr lat)
    obtain sr w4 where s: "shared_phase sys opts allowed w3 = Some (sr, w4)"
      using run Inr by (cases "shared_phase sys opts allowed w3") auto
    have w4: "R w w4" by (rule then_shared [OF w3 s])
    show ?thesis
    proof (cases sr)
      case (Inl e)
      then show ?thesis using run w4 by (simp add: \<open>lr = Inr lat\<close> s)
    next
      case (Inr shm)
      have "R w (snd (csv_phase sys opts lat bw shm tsc_hz (report_phase opts lat bw shm tsc_hz w4)))"
        by (intro then_step w4)
      then show ?thesis using run by (simp add: \<open>lr = Inr lat\<close> s Inr split_beta)
    qed
  qed
qed

lemma run_keeps:
  assumes "run_benchmark sys opts w = Some (r, w')"
  shows "R w w'"
proof -
  let ?allowed = "allowed_cpus (sys_affinity sys)"
  define w1 where "w1 = (if \<not> pin_current_thread (sys_set_affinity sys) (hd ?allowed)
      then warn_unless (opt_quiet opts) (''[warning] CPU affinity could not be set'' @ newline) w else w)"
  obtain cr m where c: "calibrate_tsc_hz (sys_hardware sys) tsc_calibration_rounds tsc_calibration_ms
      (machine_of w1 :: nat machine) = (cr, m)" by fastforce
  obtain ov m' where o: "measure_overhead_cycles (sys_hardware sys) 2000 m = (ov, m')" by fastforce
  have w1: "R w w1" by (auto simp: w1_def intro: then_step same)
  have inner: "with_measurer sys a b c (measured_phases sys opts ?allowed hz)
      (print_unless (opt_quiet opts) s (after_machine m' w1)) = Some (r, w') \<Longrightarrow> R w w'" for a b c hz s
    by (rule trans [OF then_step(2) [OF then_step(1) [OF w1]] measurer]) (auto intro: phases_keep phases_block)
  show ?thesis
  proof (cases "?allowed = []")
    case True
    then show ?thesis using assms same by (simp add: run_benchmark_def)
  next
    case False
    then show ?thesis
      using assms inner then_step(1) [OF w1]
      unfolding run_benchmark_def Let_def w1_def [symmetric] c o prod.case
      by (auto split: option.splits sum.splits if_splits bind_splits)
  qed
qed

end

section \<open>Memory\<close>

lemma delete_live: "live h = live g \<Longrightarrow> live (delete_latency_measurer env L h) = live (delete_latency_measurer env L g)"
  by (simp add: delete_latency_measurer_def free_on_node_def raw_free_def)

lemma world_simps [simp]:
  "w_heap (after_machine m w) = w_heap w" "w_heap (print_unless q s w) = w_heap w" "w_heap (warn_unless q s w) = w_heap w"
  "w_out (after_machine m w) = w_out w" "w_out (warn_unless q s w) = w_out w" "w_err (after_machine m w) = w_err w"
  "w_files (after_machine m w) = w_files w" "w_files (print_unless q s w) = w_files w" "w_files (warn_unless q s w) = w_files w"
  "w_heap (print_err s w) = w_heap w" "w_out (print_err s w) = w_out w" "w_files (print_err s w) = w_files w"
  "w_heap (print_out s w) = w_heap w" "w_err (print_out s w) = w_err w" "w_files (print_out s w) = w_files w"
  by (simp_all add: after_machine_def print_unless_def warn_unless_def print_out_def print_err_def)

lemma bandwidth_on_simps [simp]:
  "w_out (snd (bandwidth_on sys opts meth node w)) = w_out w"
  "w_files (snd (bandwidth_on sys opts meth node w)) = w_files w"
  by (simp_all add: bandwidth_on_def split: prod.split)

lemma bandwidth_on_live:
  assumes "node \<le> i32_max" "\<forall>k. clock_raw (sys_hardware sys) k \<noteq> None"
  shows "live (w_heap (snd (bandwidth_on sys opts meth node w))) = live (w_heap w)"
  using assms measure_live_clock by (auto simp: bandwidth_on_def split: prod.split)

lemma csv_phase_simps [simp]: "w_heap (snd (csv_phase sys opts lat bw shm tsc_hz w)) = w_heap w"
  by (simp add: csv_phase_def split: prod.split bool.split)

lemma csv_phase_out: "opt_quiet opts \<Longrightarrow> w_out (snd (csv_phase sys opts lat bw shm tsc_hz w)) = w_out w"
  by (simp add: csv_phase_def print_unless_def split: prod.split bool.split)

lemma csv_phase_files:
  "p \<noteq> opt_csv opts \<Longrightarrow> p \<noteq> ''history.csv'' \<Longrightarrow>
     w_files (snd (csv_phase sys opts lat bw shm tsc_hz w)) p = w_files w p"
  by (simp add: csv_phase_def write_csv_def append_history_def split: prod.split bool.split)

lemma with_measurer_cases:
  assumes "with_measurer sys requested line node body w = Some (r, w')"
  obtains (failed) e h m where "new_latency_measurer (sys_hardware sys) (sys_memory sys) requested line node
        (w_heap w) (machine_of w) = (Inl e, h, m)" "r = Inl e" "w' = after_machine m (w\<lparr>w_heap := h\<rparr>)"
    | (built) L h m L' v where "new_latency_measurer (sys_hardware sys) (sys_memory sys) requested line node
        (w_heap w) (machine_of w) = (Inr L, h, m)" "body L (after_machine m (w\<lparr>w_heap := h\<rparr>)) = Some (r, L', v)"
      "w' = v\<lparr>w_heap := delete_latency_measurer (sys_memory sys) L' (w_heap v)\<rparr>"
  using assms by (auto simp: with_measurer_def split: prod.splits sum.splits)

lemma with_measurer_live:
  assumes body: "\<And>L u r L' v. body L u = Some (r, L', v) \<Longrightarrow> live (w_heap v) = live (w_heap u) \<and> block_of L' = block_of L"
    and w: "with_measurer sys requested line node body w = Some (r, w')"
  shows "live (w_heap w') = live (w_heap w)"
  using w
proof (cases rule: with_measurer_cases)
  case failed
  then show ?thesis
    using measurer_live [where hw = "sys_hardware sys" and env = "sys_memory sys" and requested = requested and line = line
        and node = node and h = "w_heap w" and m = "machine_of w"] by simp
next
  case (built L h m L' v)
  have "live (w_heap v) = live h" "block_of L' = block_of L" using body [OF built(2)] by simp_all
  then have "live (w_heap w') = live (delete_latency_measurer (sys_memory sys) L h)"
    using delete_live delete_block by (metis built(3) world.select_convs(3) world.surjective world.update_convs(3))
  then show ?thesis
    using measurer_live [where hw = "sys_hardware sys" and env = "sys_memory sys" and requested = requested and line = line
        and node = node and h = "w_heap w" and m = "machine_of w"] built(1)
    by simp
qed

definition keeps_blocks :: "system \<Rightarrow> options \<Rightarrow> world \<Rightarrow> world \<Rightarrow> bool" where
  "keeps_blocks sys opts w w' \<longleftrightarrow>
     ((\<forall>k. clock_raw (sys_hardware sys) k \<noteq> None) \<and> opt_numa_node opts \<le> i32_max \<longrightarrow> live (w_heap w') = live (w_heap w))"

interpretation memory: phase_relation sys opts "keeps_blocks sys opts"
proof
  fix w w' :: world and body :: "latency_measurer \<Rightarrow> world \<Rightarrow> ((exn + int) \<times> latency_measurer \<times> world) option"
    and requested line node and r :: "exn + int"
  assume body: "\<And>L u r L' v. body L u = Some (r, L', v) \<Longrightarrow> keeps_blocks sys opts u v \<and> block_of L' = block_of L"
    and w: "with_measurer sys requested line node body w = Some (r, w')"
  show "keeps_blocks sys opts w w'"
    unfolding keeps_blocks_def using with_measurer_live [OF _ w] body by (auto simp: keeps_blocks_def)
qed (auto simp: keeps_blocks_def bandwidth_on_live i32_max_def)

section \<open>Standard output and files\<close>

definition keeps_output :: "options \<Rightarrow> world \<Rightarrow> world \<Rightarrow> bool" where
  "keeps_output opts w w' \<longleftrightarrow> (opt_quiet opts \<longrightarrow> w_out w' = w_out w)"

lemma with_measurer_other:
  assumes "\<And>L u r L' v. body L u = Some (r, L', v) \<Longrightarrow> P u v"
    and "with_measurer sys requested line node body w = Some (r, w')"
    and "\<And>h m u v. P (after_machine (m :: nat machine) (w\<lparr>w_heap := h\<rparr>)) v \<Longrightarrow> P w (v\<lparr>w_heap := u\<rparr>)"
    and "\<And>h m. P w (after_machine (m :: nat machine) (w\<lparr>w_heap := h\<rparr>))"
  shows "P w w'"
  using assms(2)
proof (cases rule: with_measurer_cases)
  case failed
  then show ?thesis using assms(4) by simp
next
  case (built L h m L' v)
  show ?thesis unfolding built(3) by (rule assms(3) [OF assms(1) [OF built(2)]])
qed

interpretation streams: phase_relation sys opts "keeps_output opts"
proof
  fix w w' :: world and body :: "latency_measurer \<Rightarrow> world \<Rightarrow> ((exn + int) \<times> latency_measurer \<times> world) option"
    and requested line node and r :: "exn + int"
  assume "\<And>L u r L' v. body L u = Some (r, L', v) \<Longrightarrow> keeps_output opts u v \<and> block_of L' = block_of L"
    and w: "with_measurer sys requested line node body w = Some (r, w')"
  then show "keeps_output opts w w'"
    by (intro with_measurer_other [where P = "keeps_output opts", OF _ w]) (auto simp: keeps_output_def)
qed (simp_all add: keeps_output_def print_unless_def csv_phase_out)

definition keeps_files :: "string set \<Rightarrow> world \<Rightarrow> world \<Rightarrow> bool" where
  "keeps_files S w w' \<longleftrightarrow> (\<forall>p. p \<notin> S \<longrightarrow> w_files w' p = w_files w p)"

interpretation named_files: phase_relation sys opts "keeps_files {opt_csv opts, ''history.csv''}"
proof
  fix w w' :: world and body :: "latency_measurer \<Rightarrow> world \<Rightarrow> ((exn + int) \<times> latency_measurer \<times> world) option"
    and requested line node and r :: "exn + int"
  assume "\<And>L u r L' v. body L u = Some (r, L', v) \<Longrightarrow>
      keeps_files {opt_csv opts, ''history.csv''} u v \<and> block_of L' = block_of L"
    and w: "with_measurer sys requested line node body w = Some (r, w')"
  then show "keeps_files {opt_csv opts, ''history.csv''} w w'"
    by (intro with_measurer_other [where P = "keeps_files {opt_csv opts, ''history.csv''}", OF _ w])
      (auto simp: keeps_files_def)
qed (simp_all add: keeps_files_def csv_phase_files)

section \<open>Contents of the results\<close>

text \<open>The rows of the latency benchmarks: the name and the number of samples.\<close>

definition expected_rows :: "options \<Rightarrow> (string \<times> nat) list" where
  "expected_rows opts =
     (let n = nat (opt_rounds opts) * nat (opt_iterations opts);
          k = nat (opt_rounds opts) * nat (max 1 (opt_iterations opts div 2))
      in [(''Cache Hit (L1 pointer-chasing latency)'', n),
          (''Forced Cache Miss (random pointer chase + CLFLUSH)'', n),
          (''Store (hot lines; issue throughput per store)'', n),
          (''Stride 64 B (dependent pointer chase)'', k),
          (''Stride 256 B (dependent pointer chase)'', k),
          (''Stride 1024 B (dependent pointer chase)'', k),
          (''Stride 4096 B (dependent pointer chase)'', k),
          (''Stride 16384 B (dependent pointer chase)'', k)])"

lemma digit_chars:
  "char_of (48 :: nat) = CHR ''0''" "char_of (49 :: nat) = CHR ''1''" "char_of (50 :: nat) = CHR ''2''"
  "char_of (51 :: nat) = CHR ''3''" "char_of (52 :: nat) = CHR ''4''" "char_of (53 :: nat) = CHR ''5''"
  "char_of (54 :: nat) = CHR ''6''" "char_of (55 :: nat) = CHR ''7''" "char_of (56 :: nat) = CHR ''8''"
  "char_of (57 :: nat) = CHR ''9''"
  by (simp_all add: char_of_def bit_0)

lemma stride_labels:
  "map (\<lambda>k. ''Stride '' @ to_string (int (max 64 (main_strides ! k div 64 * 64))) @ '' B (dependent pointer chase)'')
     [0..<length main_strides]
   = [''Stride 64 B (dependent pointer chase)'', ''Stride 256 B (dependent pointer chase)'',
      ''Stride 1024 B (dependent pointer chase)'', ''Stride 4096 B (dependent pointer chase)'',
      ''Stride 16384 B (dependent pointer chase)'']"
  by (simp add: main_strides_def to_string_def upt_rec to_dec.simps digit_char_def digit_chars)

lemma latency_phase_rows:
  assumes "wf_measurer L" "options_inv opts" "numeric_configuration_ok opts"
    and shuffle: "\<And>xs. mset (sys_shuffle sys xs) = mset xs"
  shows "\<exists>lat. fst (latency_phase sys opts (L, m)) = Inr lat
     \<and> map (\<lambda>r. (label r, s_count (stats r))) lat = expected_rows opts"
proof -
  let ?hw = "sys_hardware sys" and ?n = "opt_iterations opts" and ?w = "opt_warmup opts" and ?r = "opt_rounds opts"
  note o = options_bounds [OF assms(2,3)]
  obtain a L1 m1 where 1: "measure_hit ?hw ?n ?w ?r (L, m) = (a, L1, m1)" by (metis prod.exhaust)
  obtain b L2 m2 where 2: "measure_forced_miss (sys_shuffle sys) ?hw ?n ?w ?r (L1, m1) = (b, L2, m2)" by (metis prod.exhaust)
  obtain c L3 m3 where 3: "measure_store ?hw ?n ?w ?r (L2, m2) = (c, L3, m3)" by (metis prod.exhaust)
  obtain d s4 where 4: "measure_strides ?hw main_strides (max 1 (?n div 2)) (?w div 2) ?r (L3, m3) = (d, s4)"
    by (metis prod.exhaust)
  note hit = hit_measured [OF assms(1) o(2,3,1), of ?hw m, unfolded 1]
  have w1: "wf_measurer L1" using hit by simp
  note miss = forced_miss_measured [where shuffle = "sys_shuffle sys" and L = L1 and m = m1 and hw = ?hw,
      OF w1 o(2,3,1) shuffle, unfolded 2]
  have w2: "wf_measurer L2" using miss by simp
  note store = store_measured [OF w2 o(2,3,1), of ?hw m2, unfolded 3]
  have w3: "wf_measurer L3" using store by simp
  have "0 < max 1 (?n div 2)" "0 \<le> ?w div 2" using o(3) by simp_all
  note strides = strides_measured [OF w3 this o(1), of ?hw main_strides m3, unfolded 4]
  obtain ra rb rc rd where r: "a = Inr ra" "b = Inr rb" "c = Inr rc" "d = Inr rd"
    using hit miss store strides by simp
  have rows: "map (\<lambda>r. (label r, s_count (stats r))) rd
      = map (\<lambda>l. (l, nat ?r * nat (max 1 (?n div 2))))
          (map (\<lambda>k. ''Stride '' @ to_string (int (max 64 (main_strides ! k div 64 * 64))) @ '' B (dependent pointer chase)'')
            [0..<length main_strides])"
    using strides r by (simp add: stride_result_def comp_def)
  show ?thesis
    using hit miss store r rows [unfolded stride_labels]
    by (simp add: latency_phase_def Let_def 1 2 3 4 expected_rows_def)
qed

lemma bandwidth_name:
  "bandwidth_on sys opts meth node w = (Inr b, w') \<Longrightarrow> allocator b = (if 0 \<le> node then numa_prefix @ to_string node else meth)"
  by (auto simp: bandwidth_on_def measure_def Let_def split_beta split: prod.splits sum.splits if_splits)

lemma plain_names: "plain ''mmap''" "plain ''malloc''" "plain ''LargePage''" "plain (numa_prefix @ to_string (int n))"
  by (auto simp: plain_def numa_prefix_def to_string_def dest!: to_dec_digits) (simp_all add: is_digit_def)

lemma bandwidth_method_plain:
  "bandwidth_method sys opts (rs, w) meth = (rs', w') \<Longrightarrow> plain meth \<Longrightarrow> \<forall>b \<in> set rs. plain (allocator b) \<Longrightarrow>
     \<forall>b \<in> set rs'. plain (allocator b)"
  by (auto simp: bandwidth_method_def bandwidth_name split: prod.splits sum.splits)

lemma bandwidth_plain:
  assumes "b \<in> set (fst (bandwidth_phase sys opts w))"
  shows "plain (allocator b)"
proof -
  define w1 where "w1 = print_unless (opt_quiet opts) (''[2/4] Measuring bandwidth...'' @ newline) w"
  obtain r1 v1 where n: "bandwidth_on sys opts ''numa'' (opt_numa_node opts) w1 = (r1, v1)" by fastforce
  obtain rs u where f1: "bandwidth_method sys opts ([], w1) ''mmap'' = (rs, u)" by fastforce
  obtain rs2 w2 where f2: "bandwidth_method sys opts (rs, u) ''malloc'' = (rs2, w2)" by fastforce
  obtain r3 v3 where l: "bandwidth_on sys opts ''LargePage'' (- 1) w2 = (r3, v3)" by fastforce
  have "\<forall>b \<in> set rs2. plain (allocator b)"
    by (rule bandwidth_method_plain [OF f2 plain_names(2) bandwidth_method_plain [OF f1 plain_names(1)]]) simp
  moreover have "r3 = Inr b \<Longrightarrow> plain (allocator b)" for b
    using bandwidth_name [of sys opts "''LargePage''" "- 1" w2 b v3] plain_names(3) by (simp add: l)
  moreover have "r1 = Inr b \<Longrightarrow> 0 \<le> opt_numa_node opts \<Longrightarrow> plain (allocator b)" for b
    using bandwidth_name [of sys opts "''numa''" "opt_numa_node opts" w1 b v1] plain_names(4) [of "nat (opt_numa_node opts)"]
    by (simp add: n)
  ultimately show ?thesis
    using assms unfolding bandwidth_phase_def Let_def w1_def [symmetric]
    by (auto simp: n f1 f2 l split: if_splits sum.splits)
qed

text \<open>The rows of the bandwidth and the shared-memory tests.\<close>

lemma csv_phase_success:
  assumes "csv_phase sys opts lat bw shm tsc_hz w = (0, w')" "opt_csv opts \<noteq> []" "opt_csv opts \<noteq> ''history.csv''"
  shows "w_files w' (opt_csv opts)
     = Some (csv_text lat bw (if opt_shared_memory opts then Some shm else None) tsc_hz)"
  using assms by (auto simp: csv_phase_def write_csv_def append_history_def print_unless_def print_out_def
      split: if_splits prod.splits bool.splits)

lemma phases_success:
  assumes "measured_phases sys opts allowed tsc_hz L w = Some (Inr 0, L', w')" "wf_measurer L"
    and "options_inv opts" "numeric_configuration_ok opts" "\<And>xs. mset (sys_shuffle sys xs) = mset xs"
    and "opt_csv opts \<noteq> []" "opt_csv opts \<noteq> ''history.csv''"
  shows "\<exists>lat bw shm. w_files w' (opt_csv opts) = Some (csv_text lat bw shm tsc_hz)
     \<and> map (\<lambda>r. (label r, s_count (stats r))) lat = expected_rows opts \<and> (\<forall>b \<in> set bw. plain (allocator b))
     \<and> (opt_bandwidth opts \<or> bw = []) \<and> (opt_shared_memory opts \<or> shm = None)"
proof -
  define w1 where "w1 = print_unless (opt_quiet opts) (''[1/4] Measuring cache and access latency...'' @ newline) w"
  obtain lr L1 m where lp: "latency_phase sys opts (L, machine_of w1) = (lr, L1, m)" by (metis prod.collapse)
  obtain bw w3 where b: "bandwidth_phase sys opts (after_machine m w1) = (bw, w3)" by fastforce
  note run = assms(1) [unfolded measured_phases_def Let_def, folded w1_def, unfolded lp prod.case b]
  obtain lat where lat: "lr = Inr lat" "map (\<lambda>r. (label r, s_count (stats r))) lat = expected_rows opts"
    using latency_phase_rows [OF assms(2-5), of "machine_of w1"] by (auto simp: lp)
  obtain sr w4 where s: "shared_phase sys opts allowed w3 = Some (sr, w4)"
    using run lat by (cases "shared_phase sys opts allowed w3") auto
  obtain shm where shm: "sr = Inr shm"
    "csv_phase sys opts lat bw shm tsc_hz (report_phase opts lat bw shm tsc_hz w4) = (0, w')"
    using run by (cases sr) (auto simp: lat s split: prod.splits)
  have "\<forall>b \<in> set bw. plain (allocator b)" using bandwidth_plain [of _ sys opts "after_machine m w1"] by (simp add: b)
  moreover have "opt_bandwidth opts \<or> bw = []" using b by (cases "opt_bandwidth opts") (simp_all add: bandwidth_phase_def)
  ultimately show ?thesis
    using csv_phase_success [OF shm(2) assms(6,7)] lat(2) by auto
qed

lemma run_success:
  assumes "run_benchmark sys opts w = Some (Inr code, w')"
  shows "\<exists>tsc_hz L L' u v. wf_measurer L \<and> w_files w' = w_files v \<and> w_err w' = w_err v
     \<and> measured_phases sys opts (allowed_cpus (sys_affinity sys)) tsc_hz L u = Some (Inr code, L', v)"
proof -
  have inner: ?thesis if "with_measurer sys a b c (measured_phases sys opts (allowed_cpus (sys_affinity sys)) hz) u
      = Some (Inr code, w')" for a b c hz u
    using that
  proof (cases rule: with_measurer_cases)
    case (built L h m L' v)
    have "wf_measurer L"
      using measurer_live [where hw = "sys_hardware sys" and env = "sys_memory sys" and requested = a and line = b
          and node = c and h = "w_heap u" and m = "machine_of u"] built(1) by simp
    moreover have "w_files w' = w_files v" "w_err w' = w_err v" by (simp_all add: built(3))
    ultimately show ?thesis using built(2) by blast
  qed simp
  show ?thesis
    using assms inner
    unfolding run_benchmark_def Let_def
    by (auto split: option.splits sum.splits if_splits bind_splits prod.splits)
qed

section \<open>Errors\<close>

text \<open>What can end the benchmark early.\<close>

definition run_errors :: "options \<Rightarrow> exn list" where
  "run_errors opts = map RuntimeError
     ([''Unable to determine CPUs allowed to this process'', ''clock_gettime(CLOCK_MONOTONIC_RAW) failed'',
       ''Unable to calibrate TSC rate'']
      @ (if opt_numa_node opts < 0 then [''mmap failed while allocating latency buffer'']
         else [''NUMA allocation requested but libnuma/NUMA is unavailable'',
               ''NUMA allocation failed for memory node '' @ to_string (opt_numa_node opts)]))"

lemma deadline_wait_error:
  "deadline_wait clock deadline cell v st c k = Some r \<Longrightarrow> \<forall>e. r = Inl e \<longrightarrow> e = clock_failure"
  by (erule deadline_wait.raw_induct [rotated]) (auto split: option.splits if_splits)

lemma wait_for_value_error: "wait_for_value clock cell v st = Some (Inl e) \<Longrightarrow> e = clock_failure"
  by (auto simp: wait_for_value_def dest: deadline_wait_error split: prod.splits option.splits)

lemma warmup_error: "warmup_rounds os n k = Some (Inl e) \<Longrightarrow> e = clock_failure"
proof (induction n arbitrary: k)
  case (Suc n)
  then show ?case
    using wait_for_value_error [of _ _ 1 _ e]
    by (auto simp: wait_response_def split: option.splits sum.splits bool.splits)
qed simp

lemma timed_error: "timed_rounds hw os n k samples m = Some (Inl e, m') \<Longrightarrow> e = clock_failure"
proof (induction n arbitrary: k samples m)
  case (Suc n)
  then show ?case
    using wait_for_value_error [of _ _ 1 _ e]
    by (auto simp: wait_response_def Let_def split_beta split: option.splits sum.splits if_splits)
qed simp

lemma cross_process_error:
  "measure_cross_process hw os n w pcpu ccpu m = Some (Inl e, held, m') \<Longrightarrow> e = clock_failure"
  using wait_for_value_error [of _ _ 1 None e]
  by (auto simp: measure_cross_process_def parent_rounds_def monotonic_raw_ns_def clock_failure_def [symmetric] wait_ready_def
      Let_def dest: warmup_error timed_error split: if_splits option.splits sum.splits bool.splits prod.splits)

lemma calibration_error:
  "calibration_loop hw ms n es m = (Inl e, m') \<Longrightarrow> e = clock_failure"
proof (induction n arbitrary: es m)
  case (Suc n)
  have "calibration_round hw ms m = (Inl e, m') \<Longrightarrow> e = clock_failure"
    by (auto simp: calibration_round_def monotonic_raw_ns_def clock_failure_def Let_def split_beta
        split: option.splits sum.splits)
  then show ?case using Suc by (auto split: prod.splits sum.splits option.splits)
qed simp

lemma calibrate_error:
  "calibrate_tsc_hz hw tsc_calibration_rounds tsc_calibration_ms m = (Inl e, m') \<Longrightarrow>
     e \<in> {clock_failure, RuntimeError ''Unable to calibrate TSC rate''}"
  by (auto simp: calibrate_tsc_hz_def tsc_calibration_rounds_def tsc_calibration_ms_def
      dest: calibration_error split: prod.splits sum.splits if_splits)

lemma construction_error:
  "new_latency_measurer hw env requested line (opt_numa_node opts) h m = (Inl e, h', m') \<Longrightarrow> e \<in> set (run_errors opts)"
  by (auto simp: new_latency_measurer_def run_errors_def Let_def split_beta split: if_splits sum.splits prod.splits)

lemma phases_error:
  assumes "measured_phases sys opts allowed tsc_hz L w = Some (Inl e, L', w')" "wf_measurer L"
    and "options_inv opts" "numeric_configuration_ok opts" "\<And>xs. mset (sys_shuffle sys xs) = mset xs"
  shows "e = clock_failure"
proof -
  define w1 where "w1 = print_unless (opt_quiet opts) (''[1/4] Measuring cache and access latency...'' @ newline) w"
  obtain lr L1 m where lp: "latency_phase sys opts (L, machine_of w1) = (lr, L1, m)" by (metis prod.collapse)
  obtain bw w3 where b: "bandwidth_phase sys opts (after_machine m w1) = (bw, w3)" by fastforce
  note run = assms(1) [unfolded measured_phases_def Let_def, folded w1_def, unfolded lp prod.case b]
  obtain lat where lat: "lr = Inr lat"
    using latency_phase_rows [OF assms(2-5), of "machine_of w1"] by (auto simp: lp)
  obtain w4 where "shared_phase sys opts allowed w3 = Some (Inl e, w4)"
    using run lat by (cases "shared_phase sys opts allowed w3") (auto split: sum.splits prod.splits)
  then show ?thesis
    by (auto simp: shared_phase_def Let_def dest: cross_process_error split: if_splits)
qed

lemma run_error:
  assumes "run_benchmark sys opts w = Some (Inl e, w')"
    and "options_inv opts" "numeric_configuration_ok opts" "\<And>xs. mset (sys_shuffle sys xs) = mset xs"
  shows "e \<in> set (run_errors opts)"
proof -
  have clock: "clock_failure \<in> set (run_errors opts)" by (simp add: clock_failure_def run_errors_def)
  have inner: ?thesis if "with_measurer sys a b (opt_numa_node opts)
      (measured_phases sys opts (allowed_cpus (sys_affinity sys)) hz) u = Some (Inl e, w')" for a b hz u
    using that
  proof (cases rule: with_measurer_cases)
    case failed
    then show ?thesis using construction_error by simp
  next
    case (built L h m L' v)
    have "wf_measurer L"
      using measurer_live [where hw = "sys_hardware sys" and env = "sys_memory sys" and requested = a and line = b
          and node = "opt_numa_node opts" and h = "w_heap u" and m = "machine_of u"] built(1) by simp
    then show ?thesis using phases_error [OF built(2) _ assms(2-4)] clock by simp
  qed
  have "RuntimeError ''Unable to calibrate TSC rate'' \<in> set (run_errors opts)"
    "RuntimeError ''Unable to determine CPUs allowed to this process'' \<in> set (run_errors opts)"
    by (simp_all add: run_errors_def)
  then show ?thesis
    using assms(1) inner clock calibrate_error
    unfolding run_benchmark_def Let_def
    by (fastforce split: option.splits sum.splits if_splits bind_splits prod.splits)
qed

lemma first_columns:
  "take 3 (map snd (summary_cells kind name s tsc_hz)) = [kind, name, to_dec (s_count s)]"
  "take 3 (map snd header_cells) = [''Type'', ''Label'', ''Samples'']"
  "take 3 (map snd (bandwidth_cells b)) = [''bandwidth'', allocator b, []]"
  by (simp_all add: summary_cells_def header_cells_def bandwidth_cells_def)

section \<open>Exit status\<close>

lemma csv_phase_status:
  assumes "csv_phase sys opts lat bw shm tsc_hz w = (code, w')"
  shows "code = 0 \<or> (code = 1 \<and> opt_csv opts \<noteq> [] \<and> \<not> sys_writable sys (opt_csv opts)
     \<and> w_err w' = w_err w @ ''Failed to write CSV: '' @ opt_csv opts @ newline)"
  using assms by (auto simp: csv_phase_def write_csv_def print_err_def split: if_splits prod.splits bool.splits)

lemma phases_status:
  assumes "measured_phases sys opts allowed tsc_hz L w = Some (Inr code, L', w')"
  shows "code = 0 \<or> (code = 1 \<and> opt_csv opts \<noteq> [] \<and> \<not> sys_writable sys (opt_csv opts)
     \<and> (\<exists>before. w_err w' = before @ ''Failed to write CSV: '' @ opt_csv opts @ newline))"
proof -
  obtain lat bw shm w5 where "csv_phase sys opts lat bw shm tsc_hz w5 = (code, w')"
    using assms by (auto simp: measured_phases_def Let_def split_beta
        split: sum.splits option.splits prod.splits)
  from csv_phase_status [OF this] show ?thesis by blast
qed

lemma main_benchmark_result:
  assumes "main_benchmark sys opts w = Some (code, w')"
  obtains r v where "run_benchmark sys opts w = Some (r, v)"
    "case r of Inl e \<Rightarrow> code = 1 \<and> w' = print_err (''Error: '' @ what e @ newline) v | Inr c \<Rightarrow> code = c \<and> w' = v"
proof (cases "run_benchmark sys opts w")
  case (Some x)
  obtain r v where x: "x = (r, v)" by fastforce
  then show ?thesis using assms that [of r v] Some by (cases r) (simp_all add: main_benchmark_def)
qed (use assms in \<open>simp add: main_benchmark_def\<close>)

section \<open>A small run\<close>

text \<open>One CPU, a working clock and allocator, no file under \<open>/sys\<close> and \<open>/proc\<close>.\<close>

definition example_system :: system where
  "example_system = \<lparr>sys_hardware = example_hardware,
     sys_memory = \<lparr>has_numa = False, libnuma_available = 0, alloc_result = (\<lambda>_. 4096)\<rparr>,
     sys_files = \<lparr>contents = (\<lambda>_. None), node_dir = None\<rparr>,
     sys_cpuid = (\<lambda>_ _. \<lparr>eax = 0, ebx = 0, ecx = 0, edx = 0\<rparr>), sys_cpu_supports = (\<lambda>_. False), sys_online = 1,
     sys_affinity = Some (\<lambda>cpu. cpu = 0), sys_set_affinity = (\<lambda>_. True), sys_set_priority = (\<lambda>_. - 1), sys_shared = stopping_consumer,
     sys_shuffle = rev, sys_byte_dist = (\<lambda>_. 0), sys_log10 = (\<lambda>_. 0), sys_steady_clock = int, sys_uname = None,
     sys_writable = (\<lambda>_. True), sys_local_time = \<lparr>tm_year = 124, tm_mon = 0,
       tm_mday = 1, tm_hour = 0, tm_min = 0, tm_sec = 0\<rparr>\<rparr>"

definition example_options :: options where
  "example_options = default_options\<lparr>opt_bandwidth := False, opt_shared_memory := False, opt_quiet := True,
     opt_csv := ''out.csv''\<rparr>"

definition example_world :: world where
  "example_world = \<lparr>w_tsc_reads = 0, w_clock_reads = 0, w_heap = \<lparr>alloc_calls = 0, live = {#}\<rparr>,
     w_files = Map.empty, w_out = [], w_err = []\<rparr>"

lemma example_options_ok: "options_inv example_options" "numeric_configuration_ok example_options"
  using options_inv_default
  by (simp_all add: options_inv_def example_options_def numeric_configuration_ok_def default_options_def)

lemma example_parse: "parse_command_line (command_line example_options) = Inr example_options"
  using parse_args_command_line [OF example_options_ok(1)] example_options_ok(2)
  by (simp add: parse_command_line_def) (simp add: example_options_def default_options_def)

lemma example_cpus: "allowed_cpus (sys_affinity example_system) = [0]"
proof -
  have "filter (\<lambda>cpu. cpu = 0) [0..<1024] = [0 :: nat]" by (subst upt_conv_Cons) (auto simp: filter_empty_conv)
  then show ?thesis by (simp add: example_system_def allowed_cpus_def cpu_setsize_def)
qed

lemma example_calibration:
  "\<exists>hz m'. calibrate_tsc_hz example_hardware tsc_calibration_rounds tsc_calibration_ms
     (machine_of example_world :: nat machine) = (Inr hz, m')"
  by (simp add: calibrate_tsc_hz_def tsc_calibration_rounds_def tsc_calibration_ms_def eval_nat_numeral
      calibration_round_def timing_defs example_hardware_def machine_of_def example_world_def Let_def)

lemma phases_minimal:
  assumes "wf_measurer L" "options_inv opts" "numeric_configuration_ok opts" "\<And>xs. mset (sys_shuffle sys xs) = mset xs"
    and "\<not> opt_bandwidth opts" "\<not> opt_shared_memory opts" "sys_writable sys (opt_csv opts)"
  shows "\<exists>L' v. measured_phases sys opts allowed tsc_hz L w = Some (Inr 0, L', v)"
proof -
  obtain lr L1 m where lp: "latency_phase sys opts (L, machine_of (print_unless (opt_quiet opts)
      (''[1/4] Measuring cache and access latency...'' @ newline) w)) = (lr, L1, m)" by (metis prod.collapse)
  then obtain lat where "lr = Inr lat"
    using latency_phase_rows [OF assms(1-4), of "machine_of (print_unless (opt_quiet opts)
      (''[1/4] Measuring cache and access latency...'' @ newline) w)"] by auto
  then show ?thesis
    using assms(5-7) lp
    by (simp add: measured_phases_def Let_def bandwidth_phase_def shared_phase_def csv_phase_def write_csv_def
        split_beta split: prod.split)
qed

lemma example_shuffle: "mset (sys_shuffle example_system xs) = mset xs"
  by (simp add: example_system_def)

lemma example_run: "\<exists>w'. main_benchmark example_system example_options example_world = Some (0, w')"
proof -
  let ?sys = example_system and ?opts = example_options and ?w = example_world
  obtain hz m where c: "calibrate_tsc_hz (sys_hardware ?sys) tsc_calibration_rounds tsc_calibration_ms
      (machine_of ?w :: nat machine) = (Inr hz, m)"
    using example_calibration by (auto simp: example_system_def)
  obtain ov m' where o: "measure_overhead_cycles (sys_hardware ?sys) 2000 m = (ov, m')" by fastforce
  have pin: "pin_current_thread (sys_set_affinity ?sys) 0"
    by (simp add: pin_current_thread_def cpu_setsize_def example_system_def)
  obtain topo where topo: "topology (sys_files ?sys) (sys_cpuid ?sys) (sys_online ?sys) = Some topo"
    by (simp add: topology_def example_system_def Let_def)
  have flags: "opt_quiet ?opts" "\<not> opt_bandwidth ?opts" "\<not> opt_shared_memory ?opts" "opt_numa_node ?opts = - 1"
    by (simp_all add: example_options_def default_options_def)
  have run: "\<exists>w'. with_measurer ?sys a b (- 1) (measured_phases ?sys ?opts [0] hz) u = Some (Inr 0, w')" for a b u
  proof -
    obtain L h mm where n: "new_latency_measurer (sys_hardware ?sys) (sys_memory ?sys) a b (- 1) (w_heap u)
        (machine_of u) = (Inr L, h, mm)"
      by (simp add: new_latency_measurer_def example_system_def raw_alloc_def Let_def split_beta)
    then have "wf_measurer L"
      using measurer_live [where hw = "sys_hardware ?sys" and env = "sys_memory ?sys" and requested = a and line = b
          and node = "- 1" and h = "w_heap u" and m = "machine_of u"] by simp
    then obtain L' v where "measured_phases ?sys ?opts [0] hz L (after_machine mm (u\<lparr>w_heap := h\<rparr>)) = Some (Inr 0, L', v)"
      using phases_minimal [OF _ example_options_ok example_shuffle flags(2,3)] by (fastforce simp: example_system_def)
    then show ?thesis by (simp add: with_measurer_def n)
  qed
  moreover have "\<exists>a b u. run_benchmark ?sys ?opts ?w = with_measurer ?sys a b (- 1) (measured_phases ?sys ?opts [0] hz) u"
    unfolding run_benchmark_def example_cpus Let_def
    by (rule exI [of _ "opt_buffer_size ?opts"], rule exI [of _ "unat (cpu_cache_line_size (sys_cpuid ?sys))"])
      (simp add: pin c o topo flags, rule exI, rule refl)
  ultimately have "\<exists>w'. run_benchmark ?sys ?opts ?w = Some (Inr 0, w')" by metis
  then show ?thesis by (auto simp: main_benchmark_def)
qed

section \<open>Properties\<close>

text \<open>C4: the benchmark releases all the memory it takes: with options the command line accepts and a clock
  that does not fail, the blocks of the heap are the same after it as before, whatever fails on the way.\<close>

theorem benchmark_releases_memory:
  assumes "parse_command_line args = Inr opts" "\<forall>k. clock_raw (sys_hardware sys) k \<noteq> None"
    and "main_benchmark sys opts w = Some (code, w')"
  shows "live (w_heap w') = live (w_heap w)"
proof -
  obtain r v where r: "run_benchmark sys opts w = Some (r, v)" "w_heap w' = w_heap v"
    by (rule main_benchmark_result [OF assms(3)]) (auto split: sum.splits)
  show ?thesis
    using memory.run_keeps [OF r(1)] options_bounds(5) [OF accepted_options [OF assms(1)]] assms(2) r(2)
    by (simp add: keeps_blocks_def)
qed

theorem benchmark_releases_memory_witness:
  "\<exists>w'. main_benchmark example_system example_options example_world = Some (0, w') \<and> live (w_heap w') = {#}"
proof -
  obtain w' where w: "main_benchmark example_system example_options example_world = Some (0, w')"
    using example_run by blast
  have "live (w_heap w') = live (w_heap example_world)"
    by (rule benchmark_releases_memory [OF example_parse _ w]) (simp add: example_system_def example_hardware_def)
  then show ?thesis using w by (simp add: example_world_def)
qed

text \<open>C5: a benchmark with accepted options ends with status 0 or 1, and in the second case the last line on
  the standard error is the cause: the CSV file that could not be opened, or one of the errors of the
  environment; no measurer rejects an argument.  With --quiet nothing is printed on the standard output.\<close>

theorem benchmark_status:
  assumes "parse_command_line args = Inr opts" "\<And>xs. mset (sys_shuffle sys xs) = mset xs"
    and "main_benchmark sys opts w = Some (code, w')"
  shows "(opt_quiet opts \<longrightarrow> w_out w' = w_out w)
     \<and> (code = 0 \<or> code = 1 \<and> (\<exists>before cause. w_err w' = before @ cause @ newline
        \<and> (cause \<in> set (map (\<lambda>e. ''Error: '' @ what e) (run_errors opts))
           \<or> cause = ''Failed to write CSV: '' @ opt_csv opts \<and> opt_csv opts \<noteq> [] \<and> \<not> sys_writable sys (opt_csv opts))))"
proof -
  obtain r v where r: "run_benchmark sys opts w = Some (r, v)"
    "case r of Inl e \<Rightarrow> code = 1 \<and> w' = print_err (''Error: '' @ what e @ newline) v | Inr c \<Rightarrow> code = c \<and> w' = v"
    by (rule main_benchmark_result [OF assms(3)])
  have out: "opt_quiet opts \<longrightarrow> w_out w' = w_out w"
    using streams.run_keeps [OF r(1)] r(2) by (auto simp: keeps_output_def split: sum.splits)
  show ?thesis
  proof (cases r)
    case (Inl e)
    have "e \<in> set (run_errors opts)"
      by (rule run_error [OF r(1) [unfolded Inl] accepted_options [OF assms(1)] assms(2)])
    then show ?thesis using r(2) Inl out by (auto simp: print_err_def)
  next
    case (Inr c)
    obtain hz L L' u x where "measured_phases sys opts (allowed_cpus (sys_affinity sys)) hz L u = Some (Inr c, L', x)"
      "w_err v = w_err x"
      using run_success [OF r(1) [unfolded Inr]] by blast
    then show ?thesis using phases_status r(2) Inr out by fastforce
  qed
qed

theorem benchmark_status_witness:
  "\<exists>w'. main_benchmark (example_system\<lparr>sys_affinity := None\<rparr>) example_options example_world = Some (1, w')
     \<and> (\<exists>before cause. w_err w' = before @ cause @ newline)"
proof -
  have "\<exists>w'. main_benchmark (example_system\<lparr>sys_affinity := None\<rparr>) example_options example_world = Some (1, w')"
    by (simp add: main_benchmark_def run_benchmark_def allowed_cpus_def)
  then obtain w' where w: "main_benchmark (example_system\<lparr>sys_affinity := None\<rparr>) example_options example_world = Some (1, w')"
    by blast
  have "mset (sys_shuffle (example_system\<lparr>sys_affinity := None\<rparr>) xs) = mset xs" for xs
    by (simp add: example_system_def)
  from benchmark_status [OF example_parse this w] show ?thesis using w by auto
qed

text \<open>C3: a successful run with a CSV file of its own leaves a file that reads back as a header and, in order,
  one row per latency benchmark of the program, named after it and with the number of samples that the options
  ask for; the other rows are bandwidth and shared-memory results, and there are none when both are off.\<close>

theorem benchmark_report:
  assumes "parse_command_line args = Inr opts" "\<And>xs. mset (sys_shuffle sys xs) = mset xs"
    and "main_benchmark sys opts w = Some (0, w')" "opt_csv opts \<noteq> []" "opt_csv opts \<noteq> ''history.csv''"
  shows "\<exists>csv rest. w_files w' (opt_csv opts) = Some csv
     \<and> map (take 3) (map csv_fields (lines_of CHR 0x0A csv))
         = [''Type'', ''Label'', ''Samples''] # map (\<lambda>(name, n). [''latency'', name, to_dec n]) (expected_rows opts) @ rest
     \<and> list_all (\<lambda>row. hd row \<in> {''bandwidth'', ''shared_memory''}) rest
     \<and> (\<not> opt_bandwidth opts \<and> \<not> opt_shared_memory opts \<longrightarrow> rest = [])"
proof -
  have "run_benchmark sys opts w = Some (Inr 0, w')"
    by (rule main_benchmark_result [OF assms(3)]) (auto split: sum.splits)
  from run_success [OF this] obtain hz L L' u v where m: "wf_measurer L" "w_files w' = w_files v"
    "measured_phases sys opts (allowed_cpus (sys_affinity sys)) hz L u = Some (Inr 0, L', v)"
    by blast
  from phases_success [OF m(3,1) accepted_options [OF assms(1)] assms(2,4,5)]
  obtain lat bw shm where csv: "w_files w' (opt_csv opts) = Some (csv_text lat bw shm hz)"
    "map (\<lambda>r. (label r, s_count (stats r))) lat = expected_rows opts" "\<forall>b \<in> set bw. plain (allocator b)"
    "opt_bandwidth opts \<or> bw = []" "opt_shared_memory opts \<or> shm = None"
    unfolding m(2) by (elim exE conjE)
  have "\<forall>x \<in> set (map (\<lambda>r. (label r, s_count (stats r))) lat). plain (fst x)"
    unfolding csv(2) by (auto simp: expected_rows_def Let_def plain_def)
  then have plain: "\<forall>r \<in> set lat. plain (label r)" by simp
  let ?rest = "map (take 3) (map (map snd) (map bandwidth_cells bw @ (case shm of None \<Rightarrow> [] | Some r \<Rightarrow>
      if shm_success r then [summary_cells ''shared_memory'' ''Cross-process round trip'' (shm_stats r) hz] else [])))"
  have "map (\<lambda>r. [''latency'', label r, to_dec (s_count (stats r))]) lat
      = map (\<lambda>(name, n). [''latency'', name, to_dec n]) (expected_rows opts)"
    unfolding csv(2) [symmetric] by simp
  then have "map (take 3) (map csv_fields (lines_of CHR 0x0A (csv_text lat bw shm hz)))
      = [''Type'', ''Label'', ''Samples''] # map (\<lambda>(name, n). [''latency'', name, to_dec n]) (expected_rows opts) @ ?rest"
    unfolding csv_text_fields [OF plain csv(3)] csv_cells_def list.map map_append map_map comp_def first_columns
    by (rule arg_cong2 [where f = Cons, OF refl arg_cong2 [where f = append, OF _ refl]])
  moreover have "list_all (\<lambda>row. hd row \<in> {''bandwidth'', ''shared_memory''}) ?rest"
    by (auto simp: list_all_iff first_columns split: option.splits)
  ultimately show ?thesis using csv(1,4,5)
    by (intro exI [of _ "csv_text lat bw shm hz"] exI [of _ ?rest]) auto
qed

theorem benchmark_report_witness:
  "\<exists>w' csv. main_benchmark example_system example_options example_world = Some (0, w') \<and> w_files w' ''out.csv'' = Some csv
     \<and> map (take 3) (map csv_fields (lines_of CHR 0x0A csv)) ! 2
         = [''latency'', ''Forced Cache Miss (random pointer chase + CLFLUSH)'', to_dec 5000]"
proof -
  obtain w' where w: "main_benchmark example_system example_options example_world = Some (0, w')"
    using example_run by blast
  have o: "opt_csv example_options = ''out.csv''" by (simp add: example_options_def)
  have "opt_csv example_options \<noteq> []" "opt_csv example_options \<noteq> ''history.csv''" by (simp_all add: o)
  note report = benchmark_report [OF example_parse example_shuffle w this, unfolded o]
  then obtain csv rest where
    "w_files w' ''out.csv'' = Some csv" "map (take 3) (map csv_fields (lines_of CHR 0x0A csv))
      = [''Type'', ''Label'', ''Samples''] # map (\<lambda>(name, n). [''latency'', name, to_dec n]) (expected_rows example_options) @ rest"
    by (elim exE conjE)
  moreover have "expected_rows example_options ! 1 = (''Forced Cache Miss (random pointer chase + CLFLUSH)'', 5000)"
    by (simp add: expected_rows_def example_options_def default_options_def)
  ultimately show ?thesis using w by (auto simp: nth_append expected_rows_def Let_def)
qed

end
