(* ===== verification/Program.thy ===== *)
theory Program
  imports Benchmark
begin

text \<open>
  The rest of \<open>src/main.cpp\<close>: the NUMA matrix, the output of the lab modes, and \<open>main\<close> itself, which
  reads the command line and chooses one mode.  The labs run outside the \<open>try\<close> block: an exception there
  ends the process (\<open>Terminate\<close>).  \<open>run_numa_matrix\<close> is modelled with an assignable latency matrix;
  the source declares it \<open>const\<close> and does not compile as it stands.
\<close>

section \<open>NUMA matrix\<close>

fun first_allowed_cpu_for_node :: "file_system \<Rightarrow> int \<Rightarrow> int list \<Rightarrow> int option" where
  "first_allowed_cpu_for_node fs node [] = Some (- 1)"
| "first_allowed_cpu_for_node fs node (c # cs) =
     do {
       n \<leftarrow> node_for_cpu fs c;
       if n = node then Some c else first_allowed_cpu_for_node fs node cs
     }"

text \<open>The pairs of a node and the CPU that measures from it.\<close>

fun matrix_initiators :: "file_system \<Rightarrow> int list \<Rightarrow> node_info list \<Rightarrow> (int \<times> int) list option" where
  "matrix_initiators fs allowed [] = Some []"
| "matrix_initiators fs allowed (n # ns) =
     do {
       c \<leftarrow> first_allowed_cpu_for_node fs (node_id n) allowed;
       rest \<leftarrow> matrix_initiators fs allowed ns;
       Some (if 0 \<le> c then (node_id n, c) # rest else rest)
     }"

type_synonym matrix_value = "double option \<times> double option"

text \<open>The body of the \<open>try\<close> block of one cell: the values set so far and the exception, if any.\<close>

definition matrix_body ::
  "system \<Rightarrow> options \<Rightarrow> int \<Rightarrow> latency_measurer \<Rightarrow> world \<Rightarrow> (matrix_value \<times> exn option) \<times> latency_measurer \<times> world" where
  "matrix_body sys opts node L w =
     (case measure_forced_miss (sys_shuffle sys) (sys_hardware sys) (max 1 (opt_iterations opts div 2))
             (opt_warmup opts div 2) (max 1 (opt_rounds opts)) (L, machine_of w) of
        (Inl e, L', m) \<Rightarrow> (((None, None), Some e), L', after_machine m w)
      | (Inr r, L', m) \<Rightarrow>
     (case calibrate_tsc_hz (sys_hardware sys) tsc_calibration_rounds tsc_calibration_ms m of
        (Inl e, m') \<Rightarrow> (((None, None), Some e), L', after_machine m' w)
      | (Inr tsc_hz, m') \<Rightarrow>
          (let lat = Some (dbl (dbl (s_median (stats r) * 10 ^ 9) / tsc_hz)) in
           case bandwidth_on sys opts ''numa'' node (after_machine m' w) of
             (Inl e, w') \<Rightarrow> (((lat, None), Some e), L', w')
           | (Inr b, w') \<Rightarrow> (((lat, Some (read_gb_s b)), None), L', w'))))"

definition matrix_warning :: "int \<Rightarrow> int \<Rightarrow> exn \<Rightarrow> string" where
  "matrix_warning initiator node e =
     ''[warning] initiator node '' @ to_string initiator @ '' memory node '' @ to_string node @ '': '' @ what e @ newline"

definition matrix_cell ::
  "system \<Rightarrow> options \<Rightarrow> int \<Rightarrow> node_info \<Rightarrow> world \<Rightarrow> matrix_value \<times> world" where
  "matrix_cell sys opts initiator n w =
     (case new_latency_measurer (sys_hardware sys) (sys_memory sys) (opt_buffer_size opts) config_cache_line_size
             (node_id n) (w_heap w) (machine_of w) of
        (Inl e, h, m) \<Rightarrow>
          ((None, None), print_err (matrix_warning initiator (node_id n) e) (after_machine m (w\<lparr>w_heap := h\<rparr>)))
      | (Inr L, h, m) \<Rightarrow>
          (let ((v, err), L', w1) = matrix_body sys opts (node_id n) L (after_machine m (w\<lparr>w_heap := h\<rparr>));
               w2 = w1\<lparr>w_heap := delete_latency_measurer (sys_memory sys) L' (w_heap w1)\<rparr>
           in (v, case err of None \<Rightarrow> w2 | Some e \<Rightarrow> print_err (matrix_warning initiator (node_id n) e) w2)))"

fun matrix_row ::
  "system \<Rightarrow> options \<Rightarrow> int \<Rightarrow> node_info list \<Rightarrow> world \<Rightarrow> matrix_value list \<times> world" where
  "matrix_row sys opts initiator [] w = ([], w)"
| "matrix_row sys opts initiator (n # ns) w =
     (let (v, w1) = matrix_cell sys opts initiator n w; (vs, w2) = matrix_row sys opts initiator ns w1
      in (v # vs, w2))"

fun matrix_rows ::
  "system \<Rightarrow> options \<Rightarrow> node_info list \<Rightarrow> (int \<times> int) list \<Rightarrow> world \<Rightarrow> matrix_value list list \<times> world" where
  "matrix_rows sys opts ns [] w = ([], w)"
| "matrix_rows sys opts ns ((node, c) # rest) w =
     (let w1 = (if \<not> pin_current_thread (sys_set_affinity sys) c
                then print_err (''[warning] could not pin to CPU '' @ to_string c @ '' for initiator node ''
                                @ to_string node @ newline) w
                else w);
          (vs, w2) = matrix_row sys opts node ns w1; (vss, w3) = matrix_rows sys opts ns rest w2
      in (vs # vss, w3))"

text \<open>\<open>std::setw\<close>: padding on the left.\<close>

definition set_width :: "nat \<Rightarrow> string \<Rightarrow> string" where
  "set_width n s = replicate (n - length s) CHR '' '' @ s"

definition matrix_text :: "string \<Rightarrow> (int \<times> int) list \<Rightarrow> node_info list \<Rightarrow> double option list list \<Rightarrow> string" where
  "matrix_text title inits ns rows =
     newline @ title @ newline @ set_width 8 ''CPUMEM''
     @ concat (map (\<lambda>n. set_width 12 (CHR ''N'' # to_string (node_id n))) ns) @ newline
     @ concat (map (\<lambda>(i, row). set_width 8 (CHR ''N'' # to_string (fst i))
         @ concat (map (\<lambda>v. set_width 12 (case v of None \<Rightarrow> ''N/A'' | Some x \<Rightarrow> show_fixed 2 x)) row) @ newline)
         (zip inits rows))"

definition run_numa_matrix :: "system \<Rightarrow> options \<Rightarrow> world \<Rightarrow> (int \<times> world) option" where
  "run_numa_matrix sys opts w =
     do {
       ns \<leftarrow> numa_nodes (sys_files sys);
       (let allowed = allowed_cpus (sys_affinity sys) in
        if ns = [] \<or> allowed = []
        then Some (0, print_err (''NUMA matrix unavailable: no NUMA nodes or allowed CPUs found'' @ newline) w)
        else do {
          inits \<leftarrow> matrix_initiators (sys_files sys) allowed ns;
          (if inits = []
           then Some (0, print_err (''NUMA matrix unavailable: no allowed CPU is mapped to a NUMA node'' @ newline) w)
           else
             let w1 = print_out (''===== NUMA matrix ====='' @ newline
                   @ ''Latency uses forced-cache-miss dependent pointer chasing; bandwidth is NUMA-backed sequential read throughput.''
                   @ newline) w;
                 (vss, w2) = matrix_rows sys opts ns inits w1
             in Some (0, print_out (matrix_text ''Latency matrix (median ns)'' inits ns (map (map fst) vss)
                   @ matrix_text ''Read bandwidth matrix (median GiB/s)'' inits ns (map (map snd) vss)) w2))
        })
     }"

section \<open>Labs\<close>

definition save_report :: "string \<Rightarrow> string option \<Rightarrow> world \<Rightarrow> world" where
  "save_report path report w = (case report of None \<Rightarrow> w | Some t \<Rightarrow> w\<lparr>w_files := (w_files w)(path \<mapsto> t)\<rparr>)"

definition report_name :: "bool \<Rightarrow> string \<Rightarrow> string" where
  "report_name written path = (if written then path else ''FAILED'')"

definition status_of :: "bool \<Rightarrow> int" where
  "status_of written = (if written then 0 else 1)"

definition operational_text :: "operational_result \<Rightarrow> string" where
  "operational_text lab =
     ''Operational Defensive Lab'' @ newline
     @ ''Runs: '' @ to_string (op_runs lab) @ newline
     @ ''Events generated: '' @ to_string (events_generated lab) @ newline
     @ ''Detection rate: '' @ show_general (detection_rate lab) @ ''%'' @ newline
     @ ''Missed events: '' @ to_string (missed_events lab) @ newline
     @ ''False-positive rate: '' @ show_general (false_positive_rate lab) @ ''%'' @ newline
     @ ''Recovery rate: '' @ show_general (recovery_rate lab) @ ''%'' @ newline
     @ ''Boundary: '' @ reference_boundary lab @ newline
     @ ''Real network: NOT PERFORMED'' @ newline @ ''Real persistence: NOT PERFORMED'' @ newline
     @ ''Real privilege change: NOT PERFORMED'' @ newline @ ''External process access: NOT PERFORMED'' @ newline
     @ ''Report: '' @ report_name (op_report_written lab) (op_report_path lab) @ newline"

definition operational_mode :: "system \<Rightarrow> options \<Rightarrow> world \<Rightarrow> (int \<times> world) option" where
  "operational_mode sys opts w =
     map_option (\<lambda>(lab, report). (status_of (op_report_written lab),
         print_out (operational_text lab) (save_report (opt_operational_report opts) report w)))
       (run_operational (sys_writable sys) (opt_operational_runs opts) (opt_operational_report opts))"

text \<open>\<open>Evaluation::platform_signature\<close>.\<close>

definition platform_signature_of :: "system \<Rightarrow> platform_signature option" where
  "platform_signature_of sys =
     do {
       topo \<leftarrow> topology (sys_files sys) (sys_cpuid sys) (sys_online sys);
       (let cap = detect (sys_cpuid sys) (sys_files sys) (sys_cpu_supports sys);
            (release, machine_name) = (case sys_uname sys of None \<Rightarrow> ([], []) | Some names \<Rightarrow> names)
        in Some \<lparr>p_vendor = vendor cap, p_brand = brand cap, p_os_release = release, p_machine = machine_name,
                 p_physical_cores = physical_cores topo, p_logical_cpus = logical_cpus topo,
                 p_packages = packages topo, p_smt_active = smt_active topo\<rparr>)
     }"

definition evaluation_text :: "evaluation_result \<Rightarrow> string" where
  "evaluation_text r =
     ''Evaluation & Validation Lab'' @ newline
     @ ''Aligned samples: '' @ to_dec (aligned_samples r)
     @ '' | alignment loss: '' @ show_general (alignment_loss_percent r) @ ''%'' @ newline
     @ ''Fixed mean: '' @ show_general (r_mean (fixed_metrics r))
     @ '' | Random mean: '' @ show_general (r_mean (random_metrics r)) @ newline
     @ ''Outliers rejected: '' @ to_dec (rejected_count (fixed_metrics r)) @ '' / ''
     @ to_dec (rejected_count (random_metrics r)) @ newline
     @ ''SNR: '' @ show_general (snr_value r) @ '' ('' @ show_general (snr_db r) @ '' dB)'' @ newline
     @ ''Classification error: '' @ show_general (classification_error_percent r) @ ''%'' @ newline
     @ ''Capture recovery: '' @ to_string (recovered_captures r) @ ''/'' @ to_string (simulated_capture_faults r)
     @ '' ('' @ show_general (recovery_rate_percent r) @ ''%)'' @ newline
     @ ''TVLA |t|: '' @ show_general (abs_t (tvla r)) @ '' (threshold '' @ show_general (threshold_value (tvla r)) @ '')''
     @ (if leakage_detected r then '' LEAKAGE-SIGNAL-DETECTED'' else '' no-threshold-crossing'') @ newline
     @ ''Repeatability CV: '' @ show_general (repeatability_cv_percent r) @ ''% ''
     @ (if repeatability_ok r then ''OK'' else ''OUTSIDE_CRITERIA'') @ newline
     @ ''Platform: '' @ p_brand (platform r) @ '' | '' @ p_os_release (platform r) @ '' | '' @ p_machine (platform r) @ newline
     @ ''Control contracts evaluated: '' @ to_dec (length (controls r)) @ '' (synthetic; not live EDR/DLP testing)'' @ newline
     @ ''Report: '' @ report_name (report_written r) (report_path r) @ newline"

text \<open>How the process ends: with a status, or by an exception that nothing catches.\<close>

datatype program_end = Status int | Terminate exn

definition evaluation_mode :: "system \<Rightarrow> options \<Rightarrow> world \<Rightarrow> (program_end \<times> world) option" where
  "evaluation_mode sys opts w =
     do {
       sig \<leftarrow> platform_signature_of sys;
       Some (case run (sys_log10 sys) sig (sys_writable sys) (sys_hardware sys) (sys_byte_dist sys)
               (opt_evaluation_runs opts) (opt_trace_samples opts) (nat (opt_trace_average opts))
               (opt_evaluation_report opts) \<lparr>draws = 0, fixture_cpu = machine_of w\<rparr> of
           (Inl e, s) \<Rightarrow> (Terminate e, after_machine (fixture_cpu s) w)
         | (Inr (r, report), s) \<Rightarrow>
             (Status (status_of (report_written r)),
              print_out (evaluation_text r)
                (save_report (opt_evaluation_report opts) report (after_machine (fixture_cpu s) w))))
     }"

definition capability_text :: "cpu_capability \<Rightarrow> cpu_topology \<Rightarrow> compute_result \<Rightarrow> string" where
  "capability_text cap topo c =
     ''CPU Capability'' @ newline @ ''Vendor: '' @ vendor cap @ newline @ ''Model: '' @ brand cap @ newline
     @ ''Family/Model/Stepping: '' @ to_dec (unat (family cap)) @ ''/'' @ to_dec (unat (model cap)) @ ''/''
     @ to_dec (unat (stepping cap)) @ newline
     @ ''Cores/Threads: '' @ to_string (physical_cores topo) @ ''/'' @ to_string (logical_cpus topo) @ newline
     @ ''Packages: '' @ to_string (packages topo) @ newline
     @ ''SMT: '' @ (if smt_active topo then ''active'' else ''inactive'') @ newline
     @ ''Max frequency: ''
     @ (if 0 < frequency_mhz cap then show_general (frequency_mhz cap) @ '' MHz'' @ newline
        else ''unavailable'' @ newline)
     @ ''ISA: SSE='' @ yes_no (sse cap) @ '' SSE2='' @ yes_no (sse2 cap) @ '' SSE4.2='' @ yes_no (sse4_2 cap)
     @ '' AVX='' @ yes_no (avx cap) @ '' AVX2='' @ yes_no (avx2 cap) @ '' AVX-512F='' @ yes_no (avx512f cap) @ newline
     @ ''Compute benchmark: '' @ show_general (seconds c) @ '' s'' @ newline
     @ ''  FP throughput: '' @ show_general (gflops c) @ '' GFLOP/s'' @ newline
     @ ''  Integer throughput: '' @ show_general (gintops c) @ '' GIntOps/s'' @ newline
     @ newline @ ''Note: these are measured single-thread throughput values, not the CPU vendor's theoretical maximum.'' @ newline"

definition capability_mode :: "system \<Rightarrow> options \<Rightarrow> world \<Rightarrow> (int \<times> world) option" where
  "capability_mode sys opts w =
     do {
       topo \<leftarrow> topology (sys_files sys) (sys_cpuid sys) (sys_online sys);
       c \<leftarrow> benchmark (sys_steady_clock sys) (dbl (of_int (opt_compute_seconds opts)));
       Some (0, print_out (capability_text (detect (sys_cpuid sys) (sys_files sys) (sys_cpu_supports sys)) topo c) w)
     }"

definition defensive_report_path :: string where "defensive_report_path = ''phase5_defensive_report.json''"

definition defensive_text :: "defensive_result \<Rightarrow> string" where
  "defensive_text lab =
     ''Phase 5 Defensive Lab'' @ newline
     @ ''Runs: '' @ to_string (df_runs lab) @ '' | tries/byte: '' @ to_string (df_tries lab) @ newline
     @ ''Byte accuracy: '' @ show_general (byte_accuracy lab) @ ''%'' @ newline
     @ ''Exact recovery: '' @ show_general (exact_rate lab) @ ''%'' @ newline
     @ ''Simulated alerts: '' @ to_string (simulated_alerts lab) @ newline
     @ ''Confirmed alerts: '' @ to_string (simulated_confirmed lab) @ newline
     @ ''False positives: '' @ to_string (simulated_false_positives lab) @ newline
     @ ''Network access: NOT PERFORMED'' @ newline @ ''Persistence: NOT PERFORMED'' @ newline
     @ ''External process access: NOT PERFORMED'' @ newline
     @ ''Report: '' @ report_name (df_report_written lab) (df_report_path lab) @ newline"

definition defensive_mode :: "system \<Rightarrow> options \<Rightarrow> world \<Rightarrow> (int \<times> world) option" where
  "defensive_mode sys opts w =
     map_option (\<lambda>((lab, report), s). (status_of (df_report_written lab),
         print_out (defensive_text lab)
           (save_report defensive_report_path report (after_machine (cpu s) w))))
       (run_defensive (sys_writable sys) (sys_hardware sys) (opt_phase5_runs opts) (opt_spectre_tries opts)
          defensive_report_path (initial_state (machine_of w)))"

text \<open>The bytes that were correct in every run.\<close>

definition stable_bytes :: "lab_result \<Rightarrow> nat list" where
  "stable_bytes lab =
     filter (\<lambda>i. per_byte_correct_runs lab ! i = lab_runs lab) [0..<length (per_byte_correct_runs lab)]"

definition spectre_lab_text :: "lab_result \<Rightarrow> string" where
  "spectre_lab_text lab =
     ''Spectre V1 Reliability Lab'' @ newline
     @ ''Runs: '' @ to_string (lab_runs lab) @ '' | tries/byte: '' @ to_string (tries_per_byte lab) @ newline
     @ ''Exact recovery: '' @ show_general (exact_recovery_rate lab) @ ''%'' @ newline
     @ ''Byte accuracy: '' @ show_general (byte_accuracy_percent lab) @ ''%'' @ newline
     @ (if per_byte_correct_runs lab = [] then []
        else ''Stable bytes (correct in every run): '' @ separated '','' (map to_dec (stable_bytes lab)) @ newline)"

definition spectre_lab_mode :: "system \<Rightarrow> options \<Rightarrow> world \<Rightarrow> (int \<times> world) option" where
  "spectre_lab_mode sys opts w =
     map_option (\<lambda>(lab, s). (0, print_out (spectre_lab_text lab) (after_machine (cpu s) w)))
       (run_reliability_lab (sys_hardware sys) (opt_spectre_lab_runs opts) (opt_spectre_tries opts)
          (initial_state (machine_of w)))"

definition demo_text :: "int \<Rightarrow> demo_output \<Rightarrow> string" where
  "demo_text tries d =
     ''Spectre V1 self-contained demo'' @ newline @ ''tries/byte: '' @ to_string tries @ newline
     @ ''secret length: '' @ to_dec (length kSecret) @ newline @ newline
     @ progress d @ newline @ ''========== Spectre V1 Demo =========='' @ newline
     @ ''Leaked  : '' @ quote # leaked d @ quote # newline
     @ ''Original: '' @ quote # kSecret @ quote # newline
     @ ''Match   : '' @ (if matches d then ''YES'' else ''NO'') @ newline
     @ ''====================================='' @ newline"

definition spectre_mode :: "system \<Rightarrow> options \<Rightarrow> world \<Rightarrow> (int \<times> world) option" where
  "spectre_mode sys opts w =
     map_option (\<lambda>(d, s). (0, case d of
           None \<Rightarrow> print_err (''Spectre tries must be positive.'' @ newline) (after_machine (cpu s) w)
         | Some out \<Rightarrow> print_out (demo_text (opt_spectre_tries opts) out) (after_machine (cpu s) w)))
       (run_demo (sys_hardware sys) (opt_spectre_tries opts) (initial_state (machine_of w)))"

section \<open>The program\<close>

definition exits :: "(int \<times> world) option \<Rightarrow> (program_end \<times> world) option" where
  "exits r = map_option (\<lambda>(code, w). (Status code, w)) r"

definition run_mode :: "system \<Rightarrow> options \<Rightarrow> world \<Rightarrow> (program_end \<times> world) option" where
  "run_mode sys opts w =
     (if opt_numa_matrix opts then
        if \<not> numa_available (sys_memory sys)
        then Some (Status 0, print_out (''NUMA support unavailable; matrix benchmark skipped.'' @ newline) w)
        else exits (run_numa_matrix sys opts w)
      else if 0 \<le> opt_numa_node opts \<and> \<not> numa_available (sys_memory sys)
      then Some (Status 0, print_out (''NUMA support unavailable; --numa-node benchmark skipped.'' @ newline) w)
      else if opt_operational_lab opts then exits (operational_mode sys opts w)
      else if opt_evaluation_lab opts then evaluation_mode sys opts w
      else if opt_cpu_capability opts then exits (capability_mode sys opts w)
      else if opt_phase5_lab opts then exits (defensive_mode sys opts w)
      else if opt_spectre_lab opts then exits (spectre_lab_mode sys opts w)
      else if opt_spectre opts then exits (spectre_mode sys opts w)
      else exits (main_benchmark sys opts w))"

definition main :: "system \<Rightarrow> string list \<Rightarrow> world \<Rightarrow> (program_end \<times> world) option" where
  "main sys args w =
     (case parse_command_line args of
        Inl e \<Rightarrow> Some (Status (exit_code e), print_err (std_err e) (print_out (std_out e) w))
      | Inr opts \<Rightarrow> run_mode sys opts w)"

section \<open>Memory and files of the NUMA matrix\<close>

lemma matrix_body_keeps:
  assumes "matrix_body sys opts node L w = (r, L', w')"
  shows "block_of L' = block_of L" "w_files w' = w_files w" "w_out w' = w_out w"
    "\<forall>k. clock_raw (sys_hardware sys) k \<noteq> None \<Longrightarrow> node \<le> i32_max \<Longrightarrow> live (w_heap w') = live (w_heap w)"
proof -
  obtain a L1 m1 where 1: "measure_forced_miss (sys_shuffle sys) (sys_hardware sys) (max 1 (opt_iterations opts div 2))
      (opt_warmup opts div 2) (max 1 (opt_rounds opts)) (L, machine_of w) = (a, L1, m1)" by (metis prod.exhaust)
  obtain hz m2 where 2: "calibrate_tsc_hz (sys_hardware sys) tsc_calibration_rounds tsc_calibration_ms m1 = (hz, m2)"
    by fastforce
  obtain b w3 where 3: "bandwidth_on sys opts ''numa'' node (after_machine m2 w) = (b, w3)" by fastforce
  have L1: "L' = L1" and w': "w' \<in> {after_machine m1 w, after_machine m2 w, w3}"
    using assms by (auto simp: matrix_body_def 1 2 3 Let_def split: sum.splits)
  show "block_of L' = block_of L"
    using block_of_measure(2) [of "sys_shuffle sys" "sys_hardware sys" "max 1 (opt_iterations opts div 2)"
        "opt_warmup opts div 2" "max 1 (opt_rounds opts)" "(L, machine_of w)"] by (simp add: 1 L1)
  have w3: "w_files w3 = w_files w" "w_out w3 = w_out w"
    using bandwidth_on_simps [of sys opts "''numa''" node "after_machine m2 w"] by (simp_all add: 3)
  then show "w_files w' = w_files w" "w_out w' = w_out w" using w' by auto
  show "live (w_heap w') = live (w_heap w)" if "\<forall>k. clock_raw (sys_hardware sys) k \<noteq> None" "node \<le> i32_max"
    using w' bandwidth_on_live [OF that(2,1), of opts "''numa''" "after_machine m2 w"] by (auto simp: 3)
qed

lemma matrix_cell_keeps:
  assumes "matrix_cell sys opts initiator n w = (v, w')"
  shows "w_files w' = w_files w \<and> w_out w' = w_out w
     \<and> ((\<forall>k. clock_raw (sys_hardware sys) k \<noteq> None) \<longrightarrow> node_id n \<le> i32_max \<longrightarrow> live (w_heap w') = live (w_heap w))"
proof -
  obtain r h m where n: "new_latency_measurer (sys_hardware sys) (sys_memory sys) (opt_buffer_size opts)
      config_cache_line_size (node_id n) (w_heap w) (machine_of w) = (r, h, m)" by (metis prod.exhaust)
  note live_new = measurer_live [where hw = "sys_hardware sys" and env = "sys_memory sys"
      and requested = "opt_buffer_size opts" and line = config_cache_line_size and node = "node_id n"
      and h = "w_heap w" and m = "machine_of w", unfolded n prod.case]
  define u where "u = after_machine m (w\<lparr>w_heap := h\<rparr>)"
  have u: "w_files u = w_files w" "w_out u = w_out w" "w_heap u = h" by (simp_all add: u_def after_machine_def)
  show ?thesis
  proof (cases r)
    case (Inl e)
    then show ?thesis using assms live_new u by (auto simp: matrix_cell_def n u_def [symmetric])
  next
    case (Inr L)
    obtain v' err L' w1 where b: "matrix_body sys opts (node_id n) L u = ((v', err), L', w1)" by (metis prod.exhaust)
    note keeps = matrix_body_keeps [OF b]
    let ?w2 = "w1\<lparr>w_heap := delete_latency_measurer (sys_memory sys) L' (w_heap w1)\<rparr>"
    have w': "w_files w' = w_files ?w2" "w_out w' = w_out ?w2" "w_heap w' = w_heap ?w2"
      using assms by (cases err; auto simp: matrix_cell_def n Inr b u_def [symmetric] Let_def)+
    have "live (w_heap w') = live (w_heap w)"
      if "\<forall>k. clock_raw (sys_hardware sys) k \<noteq> None" "node_id n \<le> i32_max"
    proof -
      have "live (w_heap w') = live (delete_latency_measurer (sys_memory sys) L (w_heap w1))"
        using w'(3) delete_block [OF keeps(1)] by simp
      also have "\<dots> = live (delete_latency_measurer (sys_memory sys) L h)"
        by (rule delete_live) (use keeps(4) [OF that] u in simp)
      also have "\<dots> = live (w_heap w)" using live_new Inr by simp
      finally show ?thesis .
    qed
    then show ?thesis using w' keeps(2,3) u by simp
  qed
qed

lemma matrix_row_keeps:
  assumes "matrix_row sys opts initiator ns w = (vs, w')"
  shows "length vs = length ns \<and> w_files w' = w_files w \<and> w_out w' = w_out w
     \<and> ((\<forall>k. clock_raw (sys_hardware sys) k \<noteq> None) \<longrightarrow> (\<forall>n \<in> set ns. node_id n \<le> i32_max) \<longrightarrow>
        live (w_heap w') = live (w_heap w))"
  using assms
proof (induction ns arbitrary: w vs)
  case (Cons n ns)
  obtain v w1 where c: "matrix_cell sys opts initiator n w = (v, w1)" by fastforce
  obtain vs2 where r: "matrix_row sys opts initiator ns w1 = (vs2, w')" "vs = v # vs2"
    using Cons.prems by (auto simp: c Let_def split: prod.splits)
  show ?case using Cons.IH [OF r(1)] matrix_cell_keeps [OF c] r(2) by simp
qed simp

lemma matrix_rows_keep:
  assumes "matrix_rows sys opts ns inits w = (vss, w')"
  shows "length vss = length inits \<and> list_all (\<lambda>row. length row = length ns) vss
     \<and> w_files w' = w_files w \<and> w_out w' = w_out w
     \<and> ((\<forall>k. clock_raw (sys_hardware sys) k \<noteq> None) \<longrightarrow> (\<forall>n \<in> set ns. node_id n \<le> i32_max) \<longrightarrow>
        live (w_heap w') = live (w_heap w))"
  using assms
proof (induction inits arbitrary: w vss)
  case (Cons i inits)
  obtain node c where i: "i = (node, c)" by fastforce
  define w1 where "w1 = (if \<not> pin_current_thread (sys_set_affinity sys) c
      then print_err (''[warning] could not pin to CPU '' @ to_string c @ '' for initiator node ''
                      @ to_string node @ newline) w else w)"
  have w1: "w_files w1 = w_files w" "w_out w1 = w_out w" "w_heap w1 = w_heap w" by (simp_all add: w1_def)
  obtain vs w2 where r: "matrix_row sys opts node ns w1 = (vs, w2)" by fastforce
  obtain vss2 where rs: "matrix_rows sys opts ns inits w2 = (vss2, w')" "vss = vs # vss2"
    using Cons.prems by (auto simp: i Let_def w1_def [symmetric] r split: prod.splits)
  show ?case using Cons.IH [OF rs(1)] matrix_row_keeps [OF r] rs(2) w1 by simp
qed simp

lemma numa_matrix_files: "run_numa_matrix sys opts w = Some (code, w') \<Longrightarrow> code = 0 \<and> w_files w' = w_files w"
  using matrix_rows_keep [of sys opts]
  by (auto simp: run_numa_matrix_def Let_def split_beta prod_eq_iff split: bind_splits if_splits)

section \<open>Files and exit status of the modes\<close>

text \<open>The files a mode may write, and the status of a mode that returns.\<close>

definition mode_keeps :: "string list \<Rightarrow> world \<Rightarrow> (int \<times> world) option \<Rightarrow> bool" where
  "mode_keeps paths w r =
     (case r of None \<Rightarrow> True | Some (code, w') \<Rightarrow> code \<in> {0, 1} \<and> keeps_files (set paths) w w')"

lemma keeps_files_simps [simp]:
  "keeps_files S w w" "keeps_files S w (after_machine m v) = keeps_files S w v" "keeps_files S w (print_out t v) = keeps_files S w v"
  "keeps_files S w (print_err t v) = keeps_files S w v"
  "path \<in> S \<Longrightarrow> keeps_files S w (save_report path report v) = keeps_files S w v"
  by (auto simp: keeps_files_def save_report_def split: option.splits)

lemma status_of_range [simp]: "status_of b = 0 \<or> status_of b = 1"
  by (simp add: status_of_def)

lemma labs_keep:
  "mode_keeps [opt_operational_report opts] w (operational_mode sys opts w)"
  "mode_keeps [] w (capability_mode sys opts w)"
  "mode_keeps [defensive_report_path] w (defensive_mode sys opts w)"
  "mode_keeps [] w (spectre_lab_mode sys opts w)"
  "mode_keeps [] w (spectre_mode sys opts w)"
  by (simp_all add: mode_keeps_def operational_mode_def capability_mode_def defensive_mode_def spectre_lab_mode_def
      spectre_mode_def split: option.split bind_split)

lemma matrix_keeps: "mode_keeps [] w (run_numa_matrix sys opts w)"
  using numa_matrix_files [of sys opts w] by (auto simp: mode_keeps_def keeps_files_def split: option.split)

lemma benchmark_keeps: "mode_keeps [opt_csv opts, ''history.csv''] w (main_benchmark sys opts w)"
proof (cases "main_benchmark sys opts w")
  case (Some x)
  obtain code w' where x: "x = (code, w')" by fastforce
  obtain r v where r: "run_benchmark sys opts w = Some (r, v)"
    "case r of Inl e \<Rightarrow> code = 1 \<and> w' = print_err (''Error: '' @ what e @ newline) v | Inr c \<Rightarrow> code = c \<and> w' = v"
    by (rule main_benchmark_result [OF Some [unfolded x]])
  have files: "keeps_files {opt_csv opts, ''history.csv''} w v" by (rule named_files.run_keeps [OF r(1)])
  show ?thesis
  proof (cases r)
    case (Inr c)
    have "c \<in> {0, 1}" using run_success [OF r(1) [unfolded Inr]] phases_status by blast
    then show ?thesis using r(2) Inr files by (simp add: mode_keeps_def Some x)
  qed (use r(2) files in \<open>simp add: mode_keeps_def Some x\<close>)
qed (simp add: mode_keeps_def)

definition output_files :: "options \<Rightarrow> string list" where
  "output_files opts =
     (if opt_numa_matrix opts then []
      else if opt_operational_lab opts then [opt_operational_report opts]
      else if opt_evaluation_lab opts then [opt_evaluation_report opts]
      else if opt_cpu_capability opts then []
      else if opt_phase5_lab opts then [defensive_report_path]
      else if opt_spectre_lab opts \<or> opt_spectre opts then []
      else [opt_csv opts, ''history.csv''])"

lemma exits_keep:
  "mode_keeps paths w r \<Longrightarrow> exits r = Some (ending, w') \<Longrightarrow> (\<exists>c \<in> {0, 1}. ending = Status c) \<and> keeps_files (set paths) w w'"
  by (auto simp: exits_def mode_keeps_def)

lemma evaluation_keeps:
  "evaluation_mode sys opts w = Some (ending, w') \<Longrightarrow>
     (\<forall>c. ending = Status c \<longrightarrow> c \<in> {0, 1}) \<and> keeps_files {opt_evaluation_report opts} w w'"
  by (auto simp: evaluation_mode_def status_of_def split: bind_splits sum.splits prod.splits if_splits)

lemma run_mode_keeps:
  assumes "run_mode sys opts w = Some (ending, w')"
  shows "(\<forall>c. ending = Status c \<longrightarrow> c \<in> {0, 1}) \<and> keeps_files (set (output_files opts)) w w'"
  using assms
  by (auto simp: run_mode_def output_files_def keeps_files_def [of _ w w]
      dest!: exits_keep [OF labs_keep(1)] exits_keep [OF labs_keep(2)] exits_keep [OF labs_keep(3)]
        exits_keep [OF labs_keep(4)] exits_keep [OF labs_keep(5)] exits_keep [OF matrix_keeps]
        exits_keep [OF benchmark_keeps] evaluation_keeps
      split: if_splits)

lemma example_main:
  "\<exists>w'. main example_system (command_line example_options) example_world = Some (Status 0, w')"
proof -
  obtain w' where "main_benchmark example_system example_options example_world = Some (0, w')" using example_run by blast
  then show ?thesis
    by (simp add: main_def example_parse run_mode_def exits_def) (simp add: example_options_def default_options_def)
qed

section \<open>Properties\<close>

text \<open>C1: when the program returns, its status is 0, 1 or 2, and it is 2 exactly when the command line was
  rejected; then nothing was written to the standard output or to a file.\<close>

theorem main_exit_status:
  assumes "main sys args w = Some (Status c, w')"
  shows "c \<in> {0, 1, 2} \<and> (c = 2 \<longleftrightarrow> (\<exists>e. parse_command_line args = Inl e \<and> e \<noteq> print_help))
     \<and> (c = 2 \<longrightarrow> w_out w' = w_out w \<and> w_files w' = w_files w \<and> w_heap w' = w_heap w)"
proof (cases "parse_command_line args")
  case (Inl e)
  have "early_end args e"
    using Inl by (auto simp: parse_command_line_def dest: parse_args_early split: sum.splits if_splits)
  moreover have "exit_code print_help = 0" by (simp add: print_help_def)
  ultimately show ?thesis
    using assms Inl by (auto simp: main_def early_end_def print_out_def print_err_def)
next
  case (Inr opts)
  then show ?thesis using assms run_mode_keeps [of sys opts w "Status c" w'] by (auto simp: main_def)
qed

theorem main_exit_status_witness:
  "\<exists>w'. main example_system [''--rounds''] example_world = Some (Status 2, w') \<and> w_out w' = []"
proof -
  have p: "parse_command_line [''--rounds''] = Inl (usage_error ''Invalid --rounds value'')"
    by (simp add: parse_command_line_def parse_args.simps(2) option_step_def int_option_def consume_int_def)
  have "\<exists>w'. main example_system [''--rounds''] example_world = Some (Status 2, w')"
    by (simp add: main_def p usage_error_def)
  then obtain w' where w: "main example_system [''--rounds''] example_world = Some (Status 2, w')" by blast
  from main_exit_status [OF this] show ?thesis using w by (auto simp: example_world_def)
qed

text \<open>C7: however it ends, the program writes only the files of the one mode it chose: the report of that mode,
  or the CSV file and history.csv for the benchmark, and none when the command line is rejected.\<close>

theorem main_output_files:
  assumes "main sys args w = Some (ending, w')"
    and "\<And>opts. parse_command_line args = Inr opts \<Longrightarrow> path \<notin> set (output_files opts)"
  shows "w_files w' path = w_files w path"
proof (cases "parse_command_line args")
  case (Inl e)
  then show ?thesis using assms(1) by (auto simp: main_def)
next
  case (Inr opts)
  then show ?thesis using assms run_mode_keeps [of sys opts w ending w'] by (simp add: main_def keeps_files_def)
qed

theorem main_output_files_witness:
  "\<exists>w'. main example_system (command_line example_options) example_world = Some (Status 0, w')
     \<and> w_files w' ''operational_lab_report.json'' = None"
proof -
  obtain w' where w: "main example_system (command_line example_options) example_world = Some (Status 0, w')"
    using example_main by blast
  have "''operational_lab_report.json'' \<notin> set (output_files example_options)"
    by (simp add: output_files_def example_options_def default_options_def defensive_report_path_def)
  then have "w_files w' ''operational_lab_report.json'' = w_files example_world ''operational_lab_report.json''"
    by (intro main_output_files [OF w]) (simp add: example_parse)
  then show ?thesis using w by (simp add: example_world_def)
qed

text \<open>C19: the NUMA matrix has a row for every initiator and a column for every memory node, whatever fails in a
  cell, and when the clock works every measurer and bandwidth buffer of it is released.\<close>

theorem numa_matrix_complete:
  assumes "matrix_rows sys opts ns inits w = (vss, w')"
    and "\<forall>k. clock_raw (sys_hardware sys) k \<noteq> None" "\<forall>n \<in> set ns. node_id n \<le> i32_max"
  shows "length vss = length inits \<and> (\<forall>row \<in> set vss. length row = length ns)
     \<and> live (w_heap w') = live (w_heap w) \<and> w_out w' = w_out w \<and> w_files w' = w_files w"
  using matrix_rows_keep [OF assms(1)] assms(2,3) by (simp add: list_all_iff)

theorem numa_matrix_complete_witness:
  "\<exists>vss w'. matrix_rows example_system example_options [\<lparr>node_id = 0, node_cpus = [0]\<rparr>, \<lparr>node_id = 1, node_cpus = []\<rparr>]
       [(0, 0)] example_world = (vss, w') \<and> map length vss = [2] \<and> live (w_heap w') = {#}"
proof -
  let ?ns = "[\<lparr>node_id = 0, node_cpus = [0]\<rparr>, \<lparr>node_id = 1, node_cpus = []\<rparr>]"
  obtain vss w' where m: "matrix_rows example_system example_options ?ns [(0, 0)] example_world = (vss, w')" by fastforce
  have "\<forall>k. clock_raw (sys_hardware example_system) k \<noteq> None" "\<forall>n \<in> set ?ns. node_id n \<le> i32_max"
    by (simp_all add: example_system_def example_hardware_def i32_max_def)
  note complete = numa_matrix_complete [OF m this]
  then have "length vss = Suc 0" "\<forall>row \<in> set vss. length row = 2" by simp_all
  then obtain row where "vss = [row]" "length row = 2" by (cases vss) auto
  then show ?thesis using complete m by (simp add: example_world_def)
qed

end
