(* ===== verification/Json_Reader.thy ===== *)
theory Json_Reader
  imports Json "HOL-Library.Monad_Syntax"
begin

text \<open>
  A reader of JSON documents (RFC 8259 without exponents and Unicode escapes, which the program never writes),
  and the facts by which the texts built with \<open>json_object\<close>, \<open>json_objects\<close>, \<open>json_string\<close>, \<open>bool_text\<close>,
  \<open>to_string\<close> and \<open>show_fixed\<close> read back: each piece of text is shown to read as its value in front of any
  delimiter, and the pieces compose.
\<close>

section \<open>The reader\<close>

datatype json =
    JNull
  | JBool bool
  | JNumber string
  | JString string
  | JArray "json list"
  | JObject "(string \<times> json) list"

definition is_blank :: "char \<Rightarrow> bool" where
  "is_blank c \<longleftrightarrow> c \<in> {CHR '' '', CHR 0x09, CHR 0x0A, CHR 0x0D}"

abbreviation skip_blanks :: "string \<Rightarrow> string" where
  "skip_blanks \<equiv> dropWhile is_blank"

text \<open>A number is kept as its text: an optional sign, an integer part without leading zeros, and an optional
  fraction.\<close>

definition integer_part :: "string \<Rightarrow> bool" where
  "integer_part ds \<longleftrightarrow> ds \<noteq> [] \<and> (hd ds = CHR ''0'' \<longrightarrow> length ds = 1)"

definition read_number :: "string \<Rightarrow> (string \<times> string) option" where
  "read_number cs =
     (let sign = takeWhile (\<lambda>c. c = CHR ''-'') (take 1 cs);
          t = drop (length sign) cs;
          ds = takeWhile is_digit t; r = dropWhile is_digit t
      in if \<not> integer_part ds then None
         else if r \<noteq> [] \<and> hd r = CHR ''.'' then
           (let fs = takeWhile is_digit (tl r); q = dropWhile is_digit (tl r)
            in if fs = [] then None else Some (sign @ ds @ CHR ''.'' # fs, q))
         else Some (sign @ ds, r))"

text \<open>The first argument bounds the depth of the recursion; the length of the text is enough.\<close>

fun read_value :: "nat \<Rightarrow> string \<Rightarrow> (json \<times> string) option"
  and read_members :: "nat \<Rightarrow> string \<Rightarrow> ((string \<times> json) list \<times> string) option"
  and read_elements :: "nat \<Rightarrow> string \<Rightarrow> (json list \<times> string) option" where
  "read_value 0 cs = None"
| "read_value (Suc n) cs =
     (case skip_blanks cs of
        [] \<Rightarrow> None
      | c # rest \<Rightarrow>
          if c = quote then map_option (\<lambda>(s, r). (JString s, r)) (read_literal rest)
          else if c = CHR ''{'' then
            (if skip_blanks rest \<noteq> [] \<and> hd (skip_blanks rest) = CHR ''}'' then Some (JObject [], tl (skip_blanks rest))
             else map_option (\<lambda>(ms, r). (JObject ms, r)) (read_members n rest))
          else if c = CHR ''['' then
            (if skip_blanks rest \<noteq> [] \<and> hd (skip_blanks rest) = CHR '']'' then Some (JArray [], tl (skip_blanks rest))
             else map_option (\<lambda>(xs, r). (JArray xs, r)) (read_elements n rest))
          else if take 4 (c # rest) = ''true'' then Some (JBool True, drop 4 (c # rest))
          else if take 5 (c # rest) = ''false'' then Some (JBool False, drop 5 (c # rest))
          else if take 4 (c # rest) = ''null'' then Some (JNull, drop 4 (c # rest))
          else map_option (\<lambda>(t, r). (JNumber t, r)) (read_number (c # rest)))"
| "read_members 0 cs = None"
| "read_members (Suc n) cs =
     (case skip_blanks cs of
        [] \<Rightarrow> None
      | c # rest \<Rightarrow>
          if c \<noteq> quote then None
          else do {
            (key, r1) \<leftarrow> read_literal rest;
            (case skip_blanks r1 of
               [] \<Rightarrow> None
             | d # r2 \<Rightarrow>
                 if d \<noteq> CHR '':'' then None
                 else do {
                   (v, r3) \<leftarrow> read_value n r2;
                   (case skip_blanks r3 of
                      [] \<Rightarrow> None
                    | e # r4 \<Rightarrow>
                        if e = CHR '','' then map_option (\<lambda>(ms, r). ((key, v) # ms, r)) (read_members n r4)
                        else if e = CHR ''}'' then Some ([(key, v)], r4)
                        else None)
                 })
          })"
| "read_elements 0 cs = None"
| "read_elements (Suc n) cs =
     do {
       (v, r1) \<leftarrow> read_value n cs;
       (case skip_blanks r1 of
          [] \<Rightarrow> None
        | e # r2 \<Rightarrow>
            if e = CHR '','' then map_option (\<lambda>(xs, r). (v # xs, r)) (read_elements n r2)
            else if e = CHR '']'' then Some ([v], r2)
            else None)
     }"

definition read_document :: "string \<Rightarrow> json option" where
  "read_document cs =
     (case read_value (length cs) cs of
        None \<Rightarrow> None
      | Some (v, rest) \<Rightarrow> if skip_blanks rest = [] then Some v else None)"

section \<open>Texts that read as a value\<close>

text \<open>What may follow a value.\<close>

definition delimiter :: "string \<Rightarrow> bool" where
  "delimiter cs \<longleftrightarrow> cs = [] \<or> is_blank (hd cs) \<or> hd cs \<in> {CHR '','', CHR ''}'', CHR '']''}"

definition reads :: "string \<Rightarrow> json \<Rightarrow> bool" where
  "reads t v \<longleftrightarrow> (\<forall>n rest. length t \<le> n \<longrightarrow> delimiter rest \<longrightarrow> read_value n (t @ rest) = Some (v, rest))"

named_theorems reads_intros

lemma readsI: "(\<And>n rest. length t \<le> n \<Longrightarrow> delimiter rest \<Longrightarrow> read_value n (t @ rest) = Some (v, rest)) \<Longrightarrow> reads t v"
  by (simp add: reads_def)

lemma readsD: "reads t v \<Longrightarrow> length t \<le> n \<Longrightarrow> delimiter rest \<Longrightarrow> read_value n (t @ rest) = Some (v, rest)"
  by (simp add: reads_def)

lemma is_blank_simps [simp]:
  "is_blank CHR '' ''" "is_blank CHR 0x0A" "\<not> is_blank quote" "\<not> is_blank CHR ''{''" "\<not> is_blank CHR ''}''"
  "\<not> is_blank CHR ''[''" "\<not> is_blank CHR '']''" "\<not> is_blank CHR '':''" "\<not> is_blank CHR '',''"
  "\<not> is_blank CHR ''t''" "\<not> is_blank CHR ''f''" "\<not> is_blank CHR ''-''"
  by (simp_all add: is_blank_def)

lemma digit_not_blank: "is_digit c \<Longrightarrow> \<not> is_blank c"
  by (auto simp: is_digit_def is_blank_def)

lemma skip_spaces [simp]: "skip_blanks (spaces k @ cs) = skip_blanks cs"
  by (induction k) (simp_all add: spaces_def)

lemma delimiter_simps [simp]:
  "delimiter []" "delimiter (CHR '','' # cs)" "delimiter (CHR ''}'' # cs)" "delimiter (CHR '']'' # cs)"
  "delimiter (CHR 0x0A # cs)" "delimiter (CHR '' '' # cs)"
  by (simp_all add: delimiter_def)

lemma delimiter_digits: "delimiter cs \<Longrightarrow> takeWhile is_digit cs = [] \<and> dropWhile is_digit cs = cs \<and> (cs = [] \<or> hd cs \<noteq> CHR ''.'')"
  by (cases cs) (auto simp: delimiter_def is_blank_def is_digit_def)

subsection \<open>Strings, booleans and numbers\<close>

lemma reads_string [reads_intros]:
  assumes "list_all printable s"
  shows "reads (json_string s) (JString s)"
proof (rule readsI)
  fix n :: nat and rest :: string
  assume "length (json_string s) \<le> n"
  then obtain k where n: "n = Suc k" by (cases n) (auto simp: json_string_def)
  have "read_literal (json_escape s @ quote # rest) = Some (s, rest)"
    using assms by (induction s) (simp_all add: read_escape_char)
  then show "read_value n (json_string s @ rest) = Some (JString s, rest)" by (simp add: n json_string_def)
qed

lemma reads_bool [reads_intros]: "reads (bool_text b) (JBool b)"
proof (rule readsI)
  fix n :: nat and rest :: string
  assume "length (bool_text b) \<le> n"
  then obtain k where "n = Suc k" by (cases n) (auto simp: bool_text_def split: if_splits)
  then show "read_value n (bool_text b @ rest) = Some (JBool b, rest)" by (simp add: bool_text_def)
qed

lemma all_digits:
  assumes "list_all is_digit ds"
  shows "takeWhile is_digit (ds @ cs) = ds @ takeWhile is_digit cs" "dropWhile is_digit (ds @ cs) = dropWhile is_digit cs"
    "takeWhile is_digit ds = ds" "dropWhile is_digit ds = []"
  using assms by (induction ds) simp_all

lemma read_number_text:
  assumes "sign = [] \<or> sign = ''-''" "list_all is_digit ds" "integer_part ds"
    and "fraction = [] \<or> (\<exists>fs. fraction = CHR ''.'' # fs \<and> fs \<noteq> [] \<and> list_all is_digit fs)" and "delimiter rest"
  shows "read_number (sign @ ds @ fraction @ rest) = Some (sign @ ds @ fraction, rest)"
proof -
  note d = delimiter_digits [OF assms(5)]
  have start: "ds \<noteq> []" "is_digit (hd ds)" using assms(2,3) by (cases ds; simp add: integer_part_def)+
  have sign: "takeWhile (\<lambda>c. c = CHR ''-'') (take 1 (sign @ ds @ fraction @ rest)) = sign"
    using assms(1) start by (cases ds) auto
  show ?thesis
    unfolding read_number_def Let_def sign
    using assms(3,4) d by (auto simp: all_digits assms(2))
qed

lemma reads_number:
  assumes "sign = [] \<or> sign = ''-''" "list_all is_digit ds" "integer_part ds"
    and "fraction = [] \<or> (\<exists>fs. fraction = CHR ''.'' # fs \<and> fs \<noteq> [] \<and> list_all is_digit fs)"
  shows "reads (sign @ ds @ fraction) (JNumber (sign @ ds @ fraction))"
proof (rule readsI)
  fix n :: nat and rest :: string
  assume n: "length (sign @ ds @ fraction) \<le> n" and rest: "delimiter rest"
  obtain c cs where c: "sign @ ds @ fraction = c # cs" "c = CHR ''-'' \<or> is_digit c"
    using assms(1-3) by (cases ds) (auto simp: integer_part_def)
  then obtain k where k: "n = Suc k" using n by (cases n) auto
  have other: "\<not> is_blank c" "c \<noteq> quote" "c \<noteq> CHR ''{''" "c \<noteq> CHR ''[''" "c \<noteq> CHR ''t''" "c \<noteq> CHR ''f''" "c \<noteq> CHR ''n''"
    using c(2) by (auto simp: is_blank_def is_digit_def)
  have "sign @ ds @ fraction @ rest = c # cs @ rest" using arg_cong [OF c(1), of "\<lambda>t. t @ rest"] by simp
  then have "read_number (c # cs @ rest) = Some (c # cs, rest)"
    using read_number_text [OF assms rest] c(1) by (simp only:)
  then show "read_value n ((sign @ ds @ fraction) @ rest) = Some (JNumber (sign @ ds @ fraction), rest)"
    using other by (simp add: k c(1))
qed

lemma hd_to_dec: "0 < n \<Longrightarrow> hd (to_dec n) \<noteq> CHR ''0''"
proof (induction n rule: to_dec.induct)
  case (1 n)
  show ?case
  proof (cases "n < 10")
    case True
    have "digit_char n \<noteq> CHR ''0''"
    proof
      assume "digit_char n = CHR ''0''"
      then have "digit_value (digit_char n) = 0" by (simp add: digit_value_def)
      then show False using True 1(2) by simp
    qed
    then show ?thesis using True by (simp add: to_dec.simps [of n])
  next
    case False
    then have "hd (to_dec (n div 10)) \<noteq> CHR ''0''" using 1 by simp
    then show ?thesis using False by (simp add: to_dec.simps [of n])
  qed
qed

lemma integer_part_dec: "integer_part (to_dec n)"
  using hd_to_dec [of n] by (cases "n = 0") (simp_all add: integer_part_def to_dec.simps [of 0])

lemma to_dec_all_digits: "list_all is_digit (to_dec n)"
  using to_dec_digits by (simp add: list_all_iff)

lemma reads_dec [reads_intros]: "reads (to_dec n) (JNumber (to_dec n))"
  using reads_number [of "[]" "to_dec n" "[]"] by (simp add: to_dec_all_digits integer_part_dec)

lemma reads_to_string [reads_intros]: "reads (to_string i) (JNumber (to_string i))"
  using reads_number [of "''-''" "to_dec (nat (- i))" "[]"] reads_dec [of "nat i"]
  by (simp add: to_string_def to_dec_all_digits integer_part_dec)

lemma reads_fixed [reads_intros]: "reads (show_fixed k x) (JNumber (show_fixed k x))"
proof -
  define m where "m = nat (rne (\<bar>x\<bar> * 10 ^ k))"
  let ?r = "to_dec (m mod 10 ^ k)"
  let ?f = "if k = 0 then [] else CHR ''.'' # replicate (k - length ?r) CHR ''0'' @ ?r"
  have "list_all is_digit (replicate (k - length ?r) CHR ''0'' @ ?r)"
    using to_dec_digits by (auto simp: list_all_iff is_digit_def)
  then have "reads ((if x < 0 then ''-'' else []) @ to_dec (m div 10 ^ k) @ ?f)
      (JNumber ((if x < 0 then ''-'' else []) @ to_dec (m div 10 ^ k) @ ?f))"
    by (intro reads_number) (simp_all add: to_dec_all_digits integer_part_dec)
  moreover have "show_fixed k x = (if x < 0 then ''-'' else []) @ to_dec (m div 10 ^ k) @ ?f"
    by (simp only: show_fixed_def m_def Let_def)
  ultimately show ?thesis by (simp only:)
qed

subsection \<open>Objects and arrays\<close>

lemma reads_nonempty: "reads t v \<Longrightarrow> t \<noteq> []"
  using readsD [of "[]" v 0 "[]"] by auto

lemma read_value_blanks: "list_all is_blank b \<Longrightarrow> read_value n (b @ cs) = read_value n cs"
  by (cases n) (simp_all add: dropWhile_append2 list_all_iff)

lemma read_elements_blanks: "list_all is_blank b \<Longrightarrow> read_elements n (b @ cs) = read_elements n cs"
  by (cases n) (simp_all add: read_value_blanks)

lemma read_members_blanks: "list_all is_blank b \<Longrightarrow> read_members n (b @ cs) = read_members n cs"
  by (cases n) (simp_all add: dropWhile_append2 list_all_iff)

lemma reads_blanks: "list_all is_blank b \<Longrightarrow> reads t v \<Longrightarrow> reads (b @ t) v"
  by (auto simp: reads_def read_value_blanks)

lemma blank_spaces: "list_all is_blank (spaces k)"
  by (simp add: spaces_def list_all_iff is_blank_def)

lemma separated_length: "length t \<le> length (separated sep (t # ts))"
  by (cases ts) simp_all

lemma read_element_list:
  assumes "list_all2 reads ts vs" "ts \<noteq> []" "list_all is_blank b" "list_all is_blank e"
    and "length (separated (CHR '','' # b) ts) \<le> n"
  shows "read_elements (Suc n) (separated (CHR '','' # b) ts @ e @ CHR '']'' # rest) = Some (vs, rest)"
  using assms(1,2,5)
proof (induction ts arbitrary: vs n)
  case (Cons t ts)
  obtain v us where vs: "vs = v # us" "reads t v" "list_all2 reads ts us" using Cons.prems(1) by (cases vs) auto
  have n: "length t \<le> n" using separated_length Cons.prems(3) le_trans by blast
  have close: "skip_blanks (e @ CHR '']'' # rest) = CHR '']'' # rest"
    using assms(4) by (simp add: dropWhile_append2 list_all_iff)
  show ?case
  proof (cases ts)
    case Nil
    have "delimiter (e @ CHR '']'' # rest)" using assms(4) by (cases e) (simp_all add: delimiter_def)
    then show ?thesis using readsD [OF vs(2) n] vs(1,3) close by (simp add: Nil)
  next
    case (Cons u us')
    have t: "t \<noteq> []" by (rule reads_nonempty [OF vs(2)])
    then obtain k where k: "n = Suc k" using n by (cases n) auto
    let ?rest = "separated (CHR '','' # b) ts @ e @ CHR '']'' # rest"
    have "length (separated (CHR '','' # b) ts) \<le> k" using Cons.prems(3) t by (cases t) (simp_all add: Cons k)
    then have "read_elements n ?rest = Some (us, rest)" unfolding k using Cons.IH [OF vs(3)] Cons by simp
    then show ?thesis
      using readsD [OF vs(2) n, of "CHR '','' # b @ ?rest"] read_elements_blanks [OF assms(3), of n ?rest]
      by (simp add: Cons vs(1))
  qed
qed simp

lemma reads_start:
  assumes "reads t v" "delimiter rest"
  shows "skip_blanks (t @ rest) \<noteq> [] \<and> hd (skip_blanks (t @ rest)) \<noteq> CHR '']''"
proof -
  have "read_value (Suc (length t)) (t @ rest) = Some (v, rest)" by (rule readsD [OF assms(1) _ assms(2)]) simp
  moreover have "read_number (CHR '']'' # cs) = None" for cs by (simp add: read_number_def integer_part_def is_digit_def)
  ultimately show ?thesis by (cases "skip_blanks (t @ rest)") auto
qed

lemma reads_array:
  assumes "list_all2 reads ts vs" "ts \<noteq> []" "list_all is_blank a" "list_all is_blank b" "list_all is_blank e"
  shows "reads (CHR ''['' # a @ separated (CHR '','' # b) ts @ e @ '']'') (JArray vs)"
proof (rule readsI)
  let ?list = "separated (CHR '','' # b) ts"
  fix n :: nat and rest :: string
  assume n: "length (CHR ''['' # a @ ?list @ e @ '']'') \<le> n"
  then obtain k where k: "n = Suc (Suc k)" "length ?list \<le> k" by (cases n; cases "n - 1") auto
  obtain t us v where t: "ts = t # us" "reads t v" using assms(1,2) by (cases ts; cases vs) auto
  obtain tail where tail: "?list @ e @ CHR '']'' # rest = t @ tail" "delimiter tail"
  proof (cases us)
    case Nil
    have "delimiter (e @ CHR '']'' # rest)" using assms(5) by (cases e) (simp_all add: delimiter_def)
    then show thesis using that t(1) Nil by simp
  next
    case (Cons u us')
    then show thesis using that t(1) by simp
  qed
  have "skip_blanks (a @ t @ tail) = skip_blanks (t @ tail)"
    using assms(3) by (simp add: dropWhile_append2 list_all_iff)
  then have "skip_blanks (a @ ?list @ e @ CHR '']'' # rest) \<noteq> []
      \<and> hd (skip_blanks (a @ ?list @ e @ CHR '']'' # rest)) \<noteq> CHR '']''"
    using reads_start [OF t(2) tail(2)] tail(1) by simp
  moreover have "read_elements (Suc k) (a @ ?list @ e @ CHR '']'' # rest) = Some (vs, rest)"
    using read_element_list [OF assms(1,2,4,5) k(2)] read_elements_blanks [OF assms(3)] by simp
  ultimately show "read_value n ((CHR ''['' # a @ ?list @ e @ '']'') @ rest) = Some (JArray vs, rest)"
    by (simp add: k)
qed

subsection \<open>Members\<close>

definition plain :: "string \<Rightarrow> bool" where
  "plain s = list_all (\<lambda>c. escape_char c = [c] \<and> printable c) s"

lemma read_plain: "plain s \<Longrightarrow> read_literal (s @ quote # rest) = Some (s, rest)"
  unfolding plain_def
proof (induction s)
  case (Cons c s)
  have "read_literal (escape_char c @ s @ quote # rest) = Some (c # s, rest)"
    using Cons by (subst read_escape_char) simp_all
  then show ?case using Cons.prems by simp
qed simp

definition reads_member :: "string \<times> string \<Rightarrow> string \<times> json \<Rightarrow> bool" where
  "reads_member m v \<longleftrightarrow> fst v = fst m \<and> plain (fst m) \<and> reads (snd m) (snd v)"

lemma read_member_list:
  assumes "list_all2 reads_member ms vs" "ms \<noteq> []"
    and "length (separated ('','' @ [CHR 0x0A]) (map (json_member i) ms)) \<le> n"
  shows "read_members n (separated ('','' @ [CHR 0x0A]) (map (json_member i) ms) @ CHR 0x0A # spaces j @ CHR ''}'' # rest)
    = Some (vs, rest)"
  using assms
proof (induction ms arbitrary: vs n)
  case (Cons m ms)
  obtain v us where vs: "vs = v # us" "reads_member m v" "list_all2 reads_member ms us"
    using Cons.prems(1) by (cases vs) auto
  then have m: "fst v = fst m" "plain (fst m)" "reads (snd m) (snd v)" by (simp_all add: reads_member_def)
  have len: "length (json_member i m) \<le> n" 
    using separated_length [of "json_member i m" "'','' @ [CHR 0x0A]" "map (json_member i) ms"] Cons.prems(3) by simp
  then obtain k where k: "n = Suc k" "length (snd m) \<le> k" by (cases n) (auto simp: json_member_def)
  obtain w where v: "v = (fst m, w)" using m(1) by (cases v) simp
  have "read_value k (CHR '' '' # snd m @ tail) = Some (snd v, tail)" if "delimiter tail" for tail
    using readsD [OF m(3) k(2) that] read_value_blanks [of "'' ''" k "snd m @ tail"] by (simp add: is_blank_def)
  then have member: "read_members n (json_member i m @ tail) = (case skip_blanks tail of [] \<Rightarrow> None
      | e # r \<Rightarrow> if e = CHR '','' then map_option (\<lambda>(ms, q). (v # ms, q)) (read_members k r)
                else if e = CHR ''}'' then Some ([v], r) else None)" if "delimiter tail" for tail
    using that unfolding v by (simp add: json_member_def k(1) read_plain [OF m(2)] del: dropWhile_eq_Nil_conv)
  show ?case
  proof (cases ms)
    case Nil
    then show ?thesis using vs member by simp
  next
    case (Cons m' ms')
    let ?rest = "separated ('','' @ [CHR 0x0A]) (map (json_member i) ms) @ CHR 0x0A # spaces j @ CHR ''}'' # rest"
    have "length (separated ('','' @ [CHR 0x0A]) (map (json_member i) ms)) \<le> k"
      using Cons.prems(3) by (simp add: Cons k(1))
    then have "read_members k ?rest = Some (us, rest)" using Cons.IH [OF vs(3)] Cons by simp
    then have "read_members k (CHR 0x0A # ?rest) = Some (us, rest)" using read_members_blanks [of "[CHR 0x0A]" k ?rest] by simp
    moreover have "separated ('','' @ [CHR 0x0A]) (map (json_member i) (m # ms)) @ CHR 0x0A # spaces j @ CHR ''}'' # rest
        = json_member i m @ CHR '','' # CHR 0x0A # ?rest" by (simp add: Cons)
    ultimately show ?thesis using member [of "CHR '','' # CHR 0x0A # ?rest"] vs(1) by simp
  qed
qed simp

text \<open>The two layouts of the reports.\<close>

lemma reads_object [reads_intros]:
  assumes "list_all2 reads_member ms vs" "ms \<noteq> []"
  shows "reads (json_object i ms) (JObject vs)"
proof (rule readsI)
  let ?list = "separated ('','' @ [CHR 0x0A]) (map (json_member (i + 2)) ms)"
  fix n :: nat and rest :: string
  assume n: "length (json_object i ms) \<le> n"
  then obtain k where k: "n = Suc k" "length ?list \<le> k" by (cases n) (auto simp: json_object_def)
  obtain m ms' where m: "ms = m # ms'" using assms(2) by (cases ms) auto
  obtain cs where cs: "?list = spaces (i + 2) @ quote # cs"
    by (cases ms') (simp_all add: m json_member_def)
  have "read_members k (CHR 0x0A # ?list @ CHR 0x0A # spaces i @ CHR ''}'' # rest) = Some (vs, rest)"
    using read_member_list [OF assms k(2)] read_members_blanks [of "[CHR 0x0A]" k] by simp
  moreover have "hd (skip_blanks (?list @ tail)) = quote" for tail unfolding cs by simp
  ultimately show "read_value n (json_object i ms @ rest) = Some (JObject vs, rest)"
    by (simp add: json_object_def k(1))
qed

lemma separated_snoc: "separated sep (ts @ [t]) = concat (map (\<lambda>u. u @ sep) ts) @ t"
proof (induction ts)
  case (Cons u ts)
  then show ?case by (cases ts) simp_all
qed simp

lemma json_objects_separated:
  assumes "xs \<noteq> []"
  shows "json_objects i xs = CHR ''['' # [CHR 0x0A]
    @ separated (CHR '','' # [CHR 0x0A]) (map (\<lambda>x. spaces (i + 2) @ json_object (i + 2) x) xs)
    @ (CHR 0x0A # spaces i) @ '']''"
proof -
  obtain ys y where xs: "xs = ys @ [y]" using assms by (metis rev_exhaust)
  let ?f = "\<lambda>x. spaces (i + 2) @ json_object (i + 2) x"
  let ?g = "\<lambda>k. ?f (xs ! k) @ (if Suc k \<noteq> length xs then '','' else []) @ [CHR 0x0A]"
  have "map ?g [0..<length ys] = map (\<lambda>k. ?f (ys ! k) @ CHR '','' # [CHR 0x0A]) [0..<length ys]"
    by (rule map_cong) (simp_all add: xs nth_append)
  also have "\<dots> = map (\<lambda>t. t @ CHR '','' # [CHR 0x0A]) (map ?f ys)"
    by (rule nth_equalityI) (simp_all only: length_map length_upt diff_zero nth_map nth_upt add_0)
  finally have "concat (map ?g [0..<length xs])
      = separated (CHR '','' # [CHR 0x0A]) (map ?f ys @ [?f y]) @ [CHR 0x0A]"
    by (simp add: xs separated_snoc nth_append)
  then show ?thesis by (simp add: json_objects_def xs)
qed

lemma reads_objects:
  assumes "list_all2 (list_all2 reads_member) xs vs" "list_all (\<lambda>ms. ms \<noteq> []) xs"
  shows "reads (json_objects i xs) (JArray (map JObject vs))"
proof (cases "xs = []")
  case True
  have vs: "vs = []" using assms(1) True by simp
  show ?thesis
  proof (rule readsI)
    fix n :: nat and rest :: string
    assume "length (json_objects i xs) \<le> n"
    then obtain k where "n = Suc k" by (cases n) (auto simp: json_objects_def)
    then show "read_value n (json_objects i xs @ rest) = Some (JArray (map JObject vs), rest)"
      by (simp add: True vs json_objects_def)
  qed
next
  case False
  have "list_all2 reads (map (\<lambda>x. spaces (i + 2) @ json_object (i + 2) x) xs) (map JObject vs)"
    using assms by (induction xs vs rule: list_all2_induct)
      (auto intro: reads_blanks blank_spaces reads_object)
  then show ?thesis
    unfolding json_objects_separated [OF False]
    using False blank_spaces by (intro reads_array) (simp_all add: is_blank_def)
qed

lemma reads_numbers [reads_intros]:
  "reads (''['' @ separated '', '' (map (show_fixed k) xs) @ '']'') (JArray (map (\<lambda>x. JNumber (show_fixed k x)) xs))"
proof (cases "xs = []")
  case True
  show ?thesis
  proof (rule readsI)
    fix n :: nat and rest :: string
    assume "length (''['' @ separated '', '' (map (show_fixed k) xs) @ '']'') \<le> n"
    then obtain j where "n = Suc j" by (cases n) auto
    then show "read_value n ((''['' @ separated '', '' (map (show_fixed k) xs) @ '']'') @ rest)
        = Some (JArray (map (\<lambda>x. JNumber (show_fixed k x)) xs), rest)"
      by (simp add: True)
  qed
next
  case False
  have "list_all2 reads (map (show_fixed k) xs) (map (\<lambda>x. JNumber (show_fixed k x)) xs)"
    by (simp add: list_all2_conv_all_nth reads_fixed)
  from reads_array [OF this, of "[]" "'' ''" "[]"] show ?thesis using False by (simp add: is_blank_def)
qed

lemma read_document_text:
  assumes "reads t v"
  shows "read_document (t @ [CHR 0x0A]) = Some v"
  using readsD [OF assms, of "Suc (length t)" "[CHR 0x0A]"] by (simp add: read_document_def)

end
