(* ===== verification/Documents.thy ===== *)
theory Documents
  imports Json_Reader Labs Evaluation
begin

text \<open>
  The JSON documents that the reports of the three labs are meant to be, as values, and that the texts written
  by \<open>src/operational_lab.cpp\<close>, \<open>src/defensive_lab.cpp\<close> and \<open>src/evaluation_lab.cpp\<close> read back as them.
\<close>

section \<open>The documents\<close>

definition scenario_document :: "scenario_result \<Rightarrow> (string \<times> json) list" where
  "scenario_document s =
     [(''name'', JString (sc_name s)), (''stage'', JString (sc_stage s)),
      (''expected_control'', JString (expected_control s)),
      (''detected'', JBool (detected s)), (''recovered'', JBool (sc_recovered s))]"

definition operational_document :: "operational_result \<Rightarrow> json" where
  "operational_document r = JObject
     [(''lab'', JString ''operational_defensive_simulation''),
      (''reference_boundary'', JString ''in_memory_synthetic_state_machine''),
      (''runs'', JNumber (to_string (op_runs r))),
      (''events_generated'', JNumber (to_string (events_generated r))),
      (''detected_events'', JNumber (to_string (detected_events r))),
      (''missed_events'', JNumber (to_string (missed_events r))),
      (''false_positive_events'', JNumber (to_string (false_positive_events r))),
      (''recovery_attempts'', JNumber (to_string (recovery_attempts r))),
      (''recovered_events'', JNumber (to_string (recovered_events r))),
      (''detection_rate_percent'', JNumber (show_fixed 2 (detection_rate r))),
      (''false_positive_rate_percent'', JNumber (show_fixed 2 (false_positive_rate r))),
      (''recovery_rate_percent'', JNumber (show_fixed 2 (recovery_rate r))),
      (''real_network_activity'', JBool False), (''real_persistence'', JBool False),
      (''real_privilege_change'', JBool False), (''external_process_access'', JBool False),
      (''scenarios'', JArray (map (JObject \<circ> scenario_document) (scenarios r)))]"

definition event_document :: "lab_event \<Rightarrow> (string \<times> json) list" where
  "event_document e =
     [(''name'', JString (le_name e)), (''action'', JString (le_action e)),
      (''disposition'', JString (le_disposition e)), (''alert'', JBool (le_alert e)),
      (''confirmed'', JBool (le_confirmed e))]"

definition defensive_document :: "defensive_result \<Rightarrow> json" where
  "defensive_document r = JObject
     [(''lab'', JString ''phase5_defensive_lab''), (''scope'', JString ''self_contained_local_fixture''),
      (''runs'', JNumber (to_string (df_runs r))), (''tries_per_byte'', JNumber (to_string (df_tries r))),
      (''byte_accuracy_percent'', JNumber (show_fixed 2 (byte_accuracy r))),
      (''exact_recovery_rate_percent'', JNumber (show_fixed 2 (exact_rate r))),
      (''simulated_alerts'', JNumber (to_string (simulated_alerts r))),
      (''simulated_confirmed_alerts'', JNumber (to_string (simulated_confirmed r))),
      (''simulated_false_positives'', JNumber (to_string (simulated_false_positives r))),
      (''network_access_performed'', JBool False), (''persistence_performed'', JBool False),
      (''external_process_access'', JBool False),
      (''events'', JArray (map (JObject \<circ> event_document) make_events))]"

definition control_document :: "control_evaluation \<Rightarrow> (string \<times> json) list" where
  "control_document c =
     [(''control'', JString (control c)), (''scenario'', JString (scenario c)),
      (''expected_action'', JString (expected_action c)), (''executed'', JBool (executed c)),
      (''evidence'', JString (evidence c))]"

definition platform_document :: "platform_signature \<Rightarrow> (string \<times> json) list" where
  "platform_document p =
     [(''vendor'', JString (p_vendor p)), (''brand'', JString (p_brand p)),
      (''os_release'', JString (p_os_release p)), (''machine'', JString (p_machine p)),
      (''physical_cores'', JNumber (to_string (p_physical_cores p))),
      (''logical_cpus'', JNumber (to_string (p_logical_cpus p))), (''packages'', JNumber (to_string (p_packages p))),
      (''smt_active'', JBool (p_smt_active p))]"

definition evaluation_document :: "evaluation_result \<Rightarrow> tvla_result \<Rightarrow> double list \<Rightarrow> json" where
  "evaluation_document r clean medians = JObject
     [(''lab'', JString ''evaluation_validation_lab''), (''scope'', JString ''local_synthetic_reference_fixture''),
      (''runs'', JNumber (to_string (e_runs r))), (''trace_samples'', JNumber (to_string (trace_samples r))),
      (''averaging_window'', JNumber (to_string (averaging_window r))),
      (''simulated_capture_faults'', JNumber (to_string (simulated_capture_faults r))),
      (''recovered_captures'', JNumber (to_string (recovered_captures r))),
      (''recovery_rate_percent'', JNumber (show_fixed 4 (recovery_rate_percent r))),
      (''aligned_samples'', JNumber (to_dec (aligned_samples r))),
      (''alignment_loss_percent'', JNumber (show_fixed 4 (alignment_loss_percent r))),
      (''fixed_input_count'', JNumber (to_dec (input_count (fixed_metrics r)))),
      (''fixed_kept_count'', JNumber (to_dec (kept_count (fixed_metrics r)))),
      (''fixed_rejected_count'', JNumber (to_dec (rejected_count (fixed_metrics r)))),
      (''random_input_count'', JNumber (to_dec (input_count (random_metrics r)))),
      (''random_kept_count'', JNumber (to_dec (kept_count (random_metrics r)))),
      (''random_rejected_count'', JNumber (to_dec (rejected_count (random_metrics r)))),
      (''snr_linear'', JNumber (show_fixed 4 (snr_value r))), (''snr_db'', JNumber (show_fixed 4 (snr_db r))),
      (''classification_error_percent'', JNumber (show_fixed 4 (classification_error_percent r))),
      (''repeatability_cv_percent'', JNumber (show_fixed 4 (repeatability_cv_percent r))),
      (''tvla_raw_t'', JNumber (show_fixed 4 (t_statistic (tvla r)))),
      (''tvla_clean_t'', JNumber (show_fixed 4 (t_statistic clean))),
      (''tvla_threshold'', JNumber (show_fixed 4 (threshold_value (tvla r)))),
      (''tvla_raw_threshold_exceeded'', JBool (threshold_exceeded (tvla r))),
      (''tvla_clean_threshold_exceeded'', JBool (threshold_exceeded clean)),
      (''repeatability_ok'', JBool (repeatability_ok r)), (''leakage_detected'', JBool (leakage_detected r)),
      (''acceptance_criteria'', JObject
         [(''repeatability_cv_percent_max'', JNumber ''10.0''), (''classification_error_percent_max'', JNumber ''5.0''),
          (''tvla_reference_threshold'', JNumber ''4.5'')]),
      (''platform'', JObject (platform_document (platform r))),
      (''run_medians'', JArray (map (\<lambda>x. JNumber (show_fixed 4 x)) medians)),
      (''control_evaluation'', JArray (map (JObject \<circ> control_document) (controls r)))]"

section \<open>The texts read as the documents\<close>

lemma reads_memberI [reads_intros]: "plain k \<Longrightarrow> reads t v \<Longrightarrow> reads_member (k, t) (k, v)"
  by (simp add: reads_member_def)

lemma list_all2_Nil [reads_intros]: "list_all2 P [] []"
  by simp

lemma list_all2_ConsI [reads_intros]: "P x y \<Longrightarrow> list_all2 P xs ys \<Longrightarrow> list_all2 P (x # xs) (y # ys)"
  by simp

lemma reads_literals [reads_intros]:
  "reads ''false'' (JBool False)" "reads ''10.0'' (JNumber ''10.0'')" "reads ''5.0'' (JNumber ''5.0'')"
  "reads ''4.5'' (JNumber ''4.5'')"
  using reads_bool [of False] reads_number [of "[]" "''10''" "''.0''"] reads_number [of "[]" "''5''" "''.0''"]
    reads_number [of "[]" "''4''" "''.5''"]
  by (simp_all add: bool_text_def is_digit_def integer_part_def)

lemma plain_keys [reads_intros]:
  "plain ''name''" "plain ''stage''" "plain ''expected_control''" "plain ''detected''" "plain ''recovered''"
  "plain ''lab''" "plain ''reference_boundary''" "plain ''runs''" "plain ''events_generated''"
  "plain ''detected_events''" "plain ''missed_events''" "plain ''false_positive_events''"
  "plain ''recovery_attempts''" "plain ''recovered_events''" "plain ''detection_rate_percent''"
  "plain ''false_positive_rate_percent''" "plain ''recovery_rate_percent''" "plain ''real_network_activity''"
  "plain ''real_persistence''" "plain ''real_privilege_change''" "plain ''external_process_access''"
  "plain ''scenarios''" "plain ''action''" "plain ''disposition''" "plain ''alert''" "plain ''confirmed''"
  "plain ''scope''" "plain ''tries_per_byte''" "plain ''byte_accuracy_percent''"
  "plain ''exact_recovery_rate_percent''" "plain ''simulated_alerts''" "plain ''simulated_confirmed_alerts''"
  "plain ''simulated_false_positives''" "plain ''network_access_performed''" "plain ''persistence_performed''"
  "plain ''events''" "plain ''control''" "plain ''scenario''" "plain ''expected_action''" "plain ''executed''"
  "plain ''evidence''" "plain ''vendor''" "plain ''brand''" "plain ''os_release''" "plain ''machine''"
  "plain ''physical_cores''" "plain ''logical_cpus''" "plain ''packages''" "plain ''smt_active''"
  "plain ''trace_samples''" "plain ''averaging_window''" "plain ''simulated_capture_faults''"
  "plain ''recovered_captures''" "plain ''aligned_samples''" "plain ''alignment_loss_percent''"
  "plain ''fixed_input_count''" "plain ''fixed_kept_count''" "plain ''fixed_rejected_count''"
  "plain ''random_input_count''" "plain ''random_kept_count''" "plain ''random_rejected_count''"
  "plain ''snr_linear''" "plain ''snr_db''" "plain ''classification_error_percent''"
  "plain ''repeatability_cv_percent''" "plain ''tvla_raw_t''" "plain ''tvla_clean_t''"
  "plain ''tvla_threshold''" "plain ''tvla_raw_threshold_exceeded''" "plain ''tvla_clean_threshold_exceeded''"
  "plain ''repeatability_ok''" "plain ''leakage_detected''" "plain ''acceptance_criteria''"
  "plain ''repeatability_cv_percent_max''" "plain ''classification_error_percent_max''"
  "plain ''tvla_reference_threshold''" "plain ''platform''" "plain ''run_medians''"
  "plain ''control_evaluation''"
  by code_simp+

lemma printable_literals [reads_intros]:
  "list_all printable ''operational_defensive_simulation''"
  "list_all printable ''in_memory_synthetic_state_machine''"
  "list_all printable ''phase5_defensive_lab''"
  "list_all printable ''self_contained_local_fixture''"
  "list_all printable ''evaluation_validation_lab''"
  "list_all printable ''local_synthetic_reference_fixture''"
  by code_simp+

definition printable_scenario :: "scenario_result \<Rightarrow> bool" where
  "printable_scenario s \<longleftrightarrow> list_all printable (sc_name s) \<and> list_all printable (sc_stage s) \<and> list_all printable (expected_control s)"

lemma reads_scenario: "printable_scenario s \<Longrightarrow> list_all2 reads_member (scenario_members s) (scenario_document s)"
  unfolding scenario_members_def scenario_document_def printable_scenario_def
  by (intro reads_intros) simp_all

text \<open>An array of objects printed with \<open>json_objects\<close>.\<close>

lemma reads_object_list:
  assumes "\<And>x. x \<in> set xs \<Longrightarrow> list_all2 reads_member (f x) (g x)" "\<And>x. f x \<noteq> []"
  shows "reads (json_objects i (map f xs)) (JArray (map (JObject \<circ> g) xs))"
  using reads_objects [of "map f xs" "map g xs" i] assms
  by (simp add: list_all2_conv_all_nth list_all_iff)

lemma reads_operational:
  assumes "list_all printable_scenario (scenarios r)"
  shows "read_document (operational_report r) = Some (operational_document r)"
proof -
  have "reads (json_objects 2 (map scenario_members (scenarios r)))
      (JArray (map (JObject \<circ> scenario_document) (scenarios r)))"
    using assms reads_scenario by (intro reads_object_list) (auto simp: list_all_iff scenario_members_def)
  then show ?thesis
    unfolding operational_report_def operational_document_def
    by (intro read_document_text reads_intros) simp_all
qed

definition printable_event :: "lab_event \<Rightarrow> bool" where
  "printable_event e \<longleftrightarrow> list_all printable (le_name e) \<and> list_all printable (le_action e) \<and> list_all printable (le_disposition e)"

lemma reads_event: "printable_event e \<Longrightarrow> list_all2 reads_member (event_members e) (event_document e)"
  unfolding event_members_def event_document_def printable_event_def
  by (intro reads_intros) simp_all

lemma reads_defensive:
  assumes "foldl count_alert (0, 0, 0) make_events = (simulated_alerts r, simulated_confirmed r, simulated_false_positives r)"
    and "lab_runs spectre = df_runs r" "tries_per_byte spectre = df_tries r"
  shows "read_document (defensive_report spectre (byte_accuracy r) (exact_rate r) make_events) = Some (defensive_document r)"
proof -
  have "list_all printable_event make_events" by code_simp
  then have "reads (json_objects 2 (map event_members make_events)) (JArray (map (JObject \<circ> event_document) make_events))"
    using reads_event by (intro reads_object_list) (auto simp: list_all_iff event_members_def)
  then show ?thesis
    unfolding defensive_report_def defensive_document_def assms Let_def prod.case
    by (intro read_document_text reads_intros) simp_all
qed

definition printable_platform :: "platform_signature \<Rightarrow> bool" where
  "printable_platform p \<longleftrightarrow> list_all printable (p_vendor p) \<and> list_all printable (p_brand p)
     \<and> list_all printable (p_os_release p) \<and> list_all printable (p_machine p)"

definition printable_control :: "control_evaluation \<Rightarrow> bool" where
  "printable_control c \<longleftrightarrow> list_all printable (control c) \<and> list_all printable (scenario c)
     \<and> list_all printable (expected_action c) \<and> list_all printable (evidence c)"

lemma reads_platform: "printable_platform p \<Longrightarrow> list_all2 reads_member (platform_members p) (platform_document p)"
  unfolding platform_members_def platform_document_def printable_platform_def
  by (intro reads_intros) simp_all

lemma reads_control: "printable_control c \<Longrightarrow> list_all2 reads_member (control_member c) (control_document c)"
  unfolding control_member_def control_document_def printable_control_def
  by (intro reads_intros) simp_all

lemma reads_evaluation:
  assumes "printable_platform (platform r)" "list_all printable_control (controls r)"
  shows "read_document (report_text r clean medians) = Some (evaluation_document r clean medians)"
proof -
  have "reads (json_objects 2 (map control_member (controls r))) (JArray (map (JObject \<circ> control_document) (controls r)))"
    using assms(2) reads_control by (intro reads_object_list) (auto simp: list_all_iff control_member_def)
  then show ?thesis
    unfolding report_text_def report_members_def evaluation_document_def number_def
    using reads_platform [OF assms(1)]
    by (intro read_document_text reads_intros) (simp_all add: platform_members_def)
qed

section \<open>The reports of the runs\<close>

lemma operational_run_document:
  assumes "run_operational writable runs path = Some (r, Some t)"
  shows "read_document t = Some (operational_document r)"
proof -
  have runs: "0 < runs" "path \<noteq> []" "runs \<le> 107374182"
    using assms run_operational_overflow [of runs path writable]
    by (auto simp: run_operational_def Let_def split: if_splits) (meson not_le)
  let ?r = "operational_totals runs path"
  have r: "r = ?r\<lparr>op_report_written := True\<rparr>" "t = operational_report ?r"
    using assms by (auto simp: run_operational_result [OF runs(1,3,2)] Let_def split: if_splits)
  have "list_all printable_scenario (map (\<lambda>e. \<lparr>sc_name = ev_name e, sc_stage = ev_stage e,
      expected_control = ev_control e, detected = True, sc_recovered = True\<rparr>) scenario_catalog)"
    by code_simp
  then have "list_all printable_scenario (scenarios ?r)" by (simp add: operational_totals_def)
  moreover have "operational_document (?r\<lparr>op_report_written := True\<rparr>) = operational_document ?r"
    by (simp add: operational_document_def)
  ultimately show ?thesis using reads_operational r by simp
qed

lemma lab_loop_fixed: "lab_loop hw n r s = Some (r', s') \<Longrightarrow> lab_runs r' = lab_runs r \<and> tries_per_byte r' = tries_per_byte r"
  by (induction n arbitrary: r s) (auto simp: lab_record_def Let_def split: option.splits prod.splits)

lemma defensive_run_document:
  assumes "run_defensive writable hw runs tries path s = Some ((d, Some t), s')"
  shows "read_document t = Some (defensive_document d)"
proof -
  obtain sp where sp: "run_reliability_lab hw runs tries s = Some (sp, s')"
    and d: "df_runs d = runs" "df_tries d = tries" "byte_accuracy d = byte_accuracy_percent sp" "exact_rate d = exact_recovery_rate sp"
      "foldl count_alert (0, 0, 0) make_events = (simulated_alerts d, simulated_confirmed d, simulated_false_positives d)"
    and t: "t = defensive_report sp (byte_accuracy_percent sp) (exact_recovery_rate sp) make_events"
    using assms by (auto simp: run_defensive_def Let_def split: if_splits option.splits prod.splits)
  have "lab_runs sp = runs" "tries_per_byte sp = tries"
    using sp by (auto simp: run_reliability_lab_def Let_def dest!: lab_loop_fixed split: if_splits)
  then show ?thesis using reads_defensive [of d sp] d t by simp
qed

lemma evaluation_run_document:
  assumes "run lg sig writable hw bd runs samples window path f = (Inr (e, Some t), f')" "printable_platform sig"
  shows "\<exists>clean medians. read_document t = Some (evaluation_document e clean medians)"
proof -
  obtain acc r1 clean where c: "conclude lg (nat runs) (nat samples) window (initial_result sig runs samples window path) acc = (r1, clean)"
    and e: "e = r1\<lparr>report_written := True\<rparr>" "t = report_text r1 clean (run_medians acc)"
    using assms(1) by (auto simp: run_def Let_def split: if_splits sum.splits prod.splits)
  have "platform r1 = sig" "controls r1 = control_matrix" using c by (auto simp: conclude_def Let_def initial_result_def)
  moreover have "list_all printable_control control_matrix" by code_simp
  ultimately have "read_document t = Some (evaluation_document r1 clean (run_medians acc))"
    using reads_evaluation assms(2) e(2) by simp
  moreover have "evaluation_document e = evaluation_document r1" by (simp add: e(1) evaluation_document_def fun_eq_iff)
  ultimately show ?thesis by auto
qed

section \<open>Properties\<close>

text \<open>C12: whenever a lab writes its report, the file is a well-formed JSON document that reads back as the
  values of the result, every member under its own key and in the documented nesting; the evaluation lab
  needs the strings of the platform to have no control characters but newline, carriage return and tab.\<close>

theorem reports_are_json:
  "(\<forall>r t. run_operational writable runs path = Some (r, Some t) \<longrightarrow> read_document t = Some (operational_document r))
   \<and> (\<forall>d t s'. run_defensive writable hw runs tries path s = Some ((d, Some t), s')
        \<longrightarrow> read_document t = Some (defensive_document d))
   \<and> (\<forall>e t f'. run lg sig writable hw bd runs samples window path f = (Inr (e, Some t), f') \<and> printable_platform sig
        \<longrightarrow> (\<exists>clean medians. read_document t = Some (evaluation_document e clean medians)))"
  by (intro conjI allI impI)
    (erule operational_run_document defensive_run_document | elim conjE, erule (1) evaluation_run_document)+

theorem reports_are_json_witness:
  "\<exists>r t. run_operational (\<lambda>_. True) 2 ''op.json'' = Some (r, Some t) \<and> events_generated r = 18
     \<and> read_document t = Some (operational_document r)"
proof -
  have "\<exists>r t. run_operational (\<lambda>_. True) 2 ''op.json'' = Some (r, Some t) \<and> events_generated r = 18"
    by (simp add: run_operational_result operational_totals_def Let_def)
  then show ?thesis using reports_are_json [of "\<lambda>_. True" 2 "''op.json''"] by blast
qed

end
