(* ===== verification/Returns.thy ===== *)
theory Returns
  imports Program
begin

text \<open>
  When the program returns.  The loops without a bound of their own are the waits of the shared-memory
  measurement, which end with their clock, and the compute benchmark, which ends with the steady clock; the
  other way not to return is undefined behaviour: the overflow of a loop over a CPU range, of the counters of
  the operational lab and of the retries of the Spectre fixture.
\<close>

section \<open>What the environment has to provide\<close>

text \<open>The CPU lists the program reads, and a list without a range that ends at \<open>INT_MAX\<close>.\<close>

definition cpu_list_files :: "file_system \<Rightarrow> string list" where
  "cpu_list_files fs =
     ''/sys/devices/system/cpu/online'' #
     map (\<lambda>e. node_root @ ''/'' @ fst e @ ''/cpulist'') (case node_dir fs of None \<Rightarrow> [] | Some es \<Rightarrow> es)"

definition cpu_list_ok :: "string \<Rightarrow> bool" where
  "cpu_list_ok t = list_all (\<lambda>token. read_item token \<noteq> Overflow) (lines_of CHR '','' (takeWhile (\<lambda>c. c \<noteq> CHR 0x0A) t))"

definition cpu_lists_ok :: "file_system \<Rightarrow> bool" where
  "cpu_lists_ok fs =
     list_all (\<lambda>path. case contents fs path of None \<Rightarrow> True | Some t \<Rightarrow> cpu_list_ok t) (cpu_list_files fs)"

text \<open>The clock of a wait fails or reaches the deadline.\<close>

definition wait_ends :: "(nat \<Rightarrow> u64 option) \<Rightarrow> bool" where
  "wait_ends clock \<longleftrightarrow>
     (case clock 0 of
        None \<Rightarrow> True
      | Some t \<Rightarrow> \<exists>d. case clock (Suc d) of None \<Rightarrow> True | Some u \<Rightarrow> t + timeout_ms * 1000000 \<le> u)"

definition steady_unbounded :: "(nat \<Rightarrow> int) \<Rightarrow> bool" where
  "steady_unbounded clock \<longleftrightarrow> (\<forall>b. \<exists>n. b \<le> clock n)"

definition environment_ok :: "system \<Rightarrow> bool" where
  "environment_ok sys \<longleftrightarrow>
     cpu_lists_ok (sys_files sys) \<and> (\<forall>i. wait_ends (wait_clock (sys_shared sys) i)) \<and> steady_unbounded (sys_steady_clock sys)"

text \<open>The counts of a mode that can leave the range of an \<open>int\<close>: the operational lab computes 20 times the runs,
  the Spectre fixture, in the modes that use it, 3 times the tries.\<close>

definition counts_overflow :: "options \<Rightarrow> bool" where
  "counts_overflow opts \<longleftrightarrow>
     opt_operational_lab opts \<and> 107374182 < opt_operational_runs opts
     \<or> (opt_phase5_lab opts \<or> opt_spectre_lab opts \<or> opt_spectre opts) \<and> 715827882 < opt_spectre_tries opts"

section \<open>CPU lists\<close>

lemma info_loop_total:
  "list_all (\<lambda>token. read_item token \<noteq> Overflow) (lines_of CHR '','' cs) \<Longrightarrow> \<exists>xs. info_cpu_loop cpus cs = Some xs"
proof (induction cpus cs rule: info_cpu_loop.induct)
  case (1 cpus cs)
  show ?case
  proof (cases "getline CHR '','' cs")
    case None
    then show ?thesis by (simp add: info_cpu_loop.simps [of cpus cs])
  next
    case (Some g)
    obtain line rest where g: "g = (line, rest)" by fastforce
    have tokens: "read_item line \<noteq> Overflow" "list_all (\<lambda>token. read_item token \<noteq> Overflow) (lines_of CHR '','' rest)"
      using 1(2) Some by (simp_all add: lines_of.simps [of _ cs] g)
    then show ?thesis
      using 1(1) Some by (cases "read_item line") (simp_all add: info_cpu_loop.simps [of cpus cs] g)
  qed
qed

lemma cpu_list_total: "cpu_list_ok t \<Longrightarrow> \<exists>xs. info_cpu_loop [] (takeWhile (\<lambda>c. c \<noteq> CHR 0x0A) t) = Some xs"
  unfolding cpu_list_ok_def by (rule info_loop_total)

lemma topology_total: "cpu_lists_ok fs \<Longrightarrow> \<exists>topo. topology fs leaves online = Some topo"
  using cpu_list_total
  by (fastforce simp: topology_def cpu_lists_ok_def cpu_list_files_def info_parse_cpu_list_def Let_def split: option.splits)

lemma node_of_entry_total:
  assumes "\<And>t. contents fs (node_root @ ''/'' @ fst e @ ''/cpulist'') = Some t \<Longrightarrow> cpu_list_ok t"
  shows "\<exists>n. node_of_entry fs e = Some n"
proof (cases "contents fs (node_root @ ''/'' @ fst e @ ''/cpulist'')")
  case None
  have "numa_parse_cpu_list [] = Some []" by (simp add: numa_parse_cpu_list_def numa_cpu_loop.simps)
  moreover have "snd (read_text fs (node_root @ ''/'' @ fst e @ ''/cpulist'')) = []" by (simp only: read_text_def None option.case snd_conv)
  ultimately show ?thesis unfolding node_of_entry_def by (simp split: option.split)
next
  case (Some t)
  obtain xs where "numa_parse_cpu_list (takeWhile (\<lambda>c. c \<noteq> CHR 0x0A) t) = Some xs"
    using cpu_list_total assms Some by (auto simp: numa_parse_cpu_list_def loops_agree)
  moreover have "snd (read_text fs (node_root @ ''/'' @ fst e @ ''/cpulist'')) = takeWhile (\<lambda>c. c \<noteq> CHR 0x0A) t"
    by (simp only: read_text_def Some option.case snd_conv)
  ultimately show ?thesis unfolding node_of_entry_def by (simp split: option.split)
qed

lemma collect_nodes_total:
  assumes "\<And>e t. e \<in> set es \<Longrightarrow> contents fs (node_root @ ''/'' @ fst e @ ''/cpulist'') = Some t \<Longrightarrow> cpu_list_ok t"
  shows "\<exists>ns. collect_nodes fs es = Some ns"
  using assms
proof (induction es)
  case (Cons e es)
  obtain n where "node_of_entry fs e = Some n" using node_of_entry_total Cons.prems by (metis list.set_intros(1))
  moreover obtain ns where "collect_nodes fs es = Some ns" using Cons by auto
  ultimately show ?case by simp
qed simp

lemma nodes_total:
  assumes "cpu_lists_ok fs"
  shows "\<exists>ns. numa_nodes fs = Some ns"
proof (cases "node_dir fs")
  case (Some es)
  have "cpu_list_ok t" if "e \<in> set es" "contents fs (node_root @ ''/'' @ fst e @ ''/cpulist'') = Some t" for e t
    using assms that by (force simp: cpu_lists_ok_def cpu_list_files_def Some list_all_iff split: option.splits)
  then have "\<exists>ns. collect_nodes fs es = Some ns" by (rule collect_nodes_total)
  then show ?thesis by (auto simp: numa_nodes_def Some)
qed (simp add: numa_nodes_def)

lemma node_for_cpu_total: "cpu_lists_ok fs \<Longrightarrow> \<exists>n. node_for_cpu fs c = Some n"
  using nodes_total [of fs] by (auto simp: node_for_cpu_def)

lemma first_cpu_total: "cpu_lists_ok fs \<Longrightarrow> \<exists>c. first_allowed_cpu_for_node fs n cs = Some c"
proof (induction cs)
  case (Cons a cs)
  obtain k where "node_for_cpu fs a = Some k" using node_for_cpu_total Cons.prems by blast
  then show ?case using Cons by simp
qed simp

lemma initiators_total: "cpu_lists_ok fs \<Longrightarrow> \<exists>inits. matrix_initiators fs allowed ns = Some inits"
proof (induction ns)
  case (Cons n ns)
  obtain c where "first_allowed_cpu_for_node fs (node_id n) allowed = Some c" using first_cpu_total Cons.prems by blast
  then show ?case using Cons by auto
qed simp

lemma matrix_total:
  assumes "cpu_lists_ok (sys_files sys)"
  shows "\<exists>r. run_numa_matrix sys opts w = Some r"
proof -
  obtain ns where n: "numa_nodes (sys_files sys) = Some ns" using nodes_total assms by blast
  obtain inits where i: "matrix_initiators (sys_files sys) (allowed_cpus (sys_affinity sys)) ns = Some inits"
    using initiators_total assms by blast
  show ?thesis by (simp add: run_numa_matrix_def n i Let_def split_beta)
qed

section \<open>Waits\<close>

lemma deadline_wait_total:
  assumes "case clock (c + d) of None \<Rightarrow> True | Some u \<Rightarrow> deadline \<le> u"
  shows "\<exists>r. deadline_wait clock deadline cell v st c k = Some r"
  using assms
proof (induction d arbitrary: c k)
  case 0
  then show ?case by (subst deadline_wait.simps) (auto split: option.splits)
next
  case (Suc d)
  then have "\<exists>r. deadline_wait clock deadline cell v st (Suc c) k' = Some r" for k' by simp
  then show ?case by (subst deadline_wait.simps) (auto split: option.splits)
qed

lemma wait_total:
  assumes "wait_ends clock"
  shows "\<exists>r. wait_for_value clock cell v st = Some r"
proof (cases "clock 0")
  case (Some t)
  then obtain d where d: "case clock (1 + d) of None \<Rightarrow> True | Some u \<Rightarrow> t + timeout_ms * 1000000 \<le> u"
    using assms by (auto simp: wait_ends_def)
  have "\<exists>r. deadline_wait clock (t + timeout_ms * 1000000) cell v st 1 k = Some r" for k
    by (rule deadline_wait_total) (rule d)
  then show ?thesis using Some by (simp add: wait_for_value_def split: option.split prod.split)
qed (simp add: wait_for_value_def split: option.splits prod.splits)

lemma warmup_total: "\<forall>i. wait_ends (wait_clock os i) \<Longrightarrow> \<exists>r. warmup_rounds os n k = Some r"
proof (induction n arbitrary: k)
  case (Suc n)
  obtain r where "wait_response os k = Some r" using wait_total Suc.prems unfolding wait_response_def by blast
  then show ?case using Suc by (auto split: sum.split bool.split)
qed simp

lemma timed_total: "\<forall>i. wait_ends (wait_clock os i) \<Longrightarrow> \<exists>r. timed_rounds hw os n k samples m = Some r"
proof (induction n arbitrary: k samples m)
  case (Suc n)
  obtain r where "wait_response os k = Some r" using wait_total Suc.prems unfolding wait_response_def by blast
  then show ?case using Suc by (auto simp: Let_def split_beta split: sum.split)
qed simp

lemma parent_total:
  assumes "\<forall>i. wait_ends (wait_clock os i)"
  shows "\<exists>r. parent_rounds hw os name iterations warmup r0 held m = Some r"
proof -
  obtain a where a: "wait_ready os = Some a" using wait_total assms unfolding wait_ready_def by blast
  obtain b where b: "warmup_rounds os (nat warmup) 0 = Some b" using warmup_total assms by blast
  obtain c where c: "timed_rounds hw os (nat iterations) (nat warmup) [] m = Some c" using timed_total assms by blast
  show ?thesis by (simp add: parent_rounds_def a b c Let_def split: sum.split bool.split prod.split)
qed

lemma measure_cross_total:
  assumes "\<forall>i. wait_ends (wait_clock os i)"
  shows "\<exists>r. measure_cross_process hw os iterations warmup pcpu ccpu m = Some r"
  using parent_total [OF assms]
  by (simp add: measure_cross_process_def Let_def split: sum.split prod.split)

section \<open>The compute benchmark\<close>

lemma compute_loop_total:
  assumes "deadline \<le> dbl (of_int (clock (c + d)))"
  shows "\<exists>r. compute_loop clock deadline c s = Some r"
  using assms
proof (induction d arbitrary: c s)
  case 0
  then show ?case by (subst compute_loop.simps) simp
next
  case (Suc d)
  then have "\<exists>r. compute_loop clock deadline (Suc c) s' = Some r" for s' by simp
  then show ?case by (subst compute_loop.simps) auto
qed

text \<open>An unbounded clock exceeds every bound after its first reading too.\<close>

lemma steady_later:
  assumes "steady_unbounded clock"
  shows "\<exists>d. b \<le> clock (1 + d)"
proof -
  obtain n where n: "max b (clock 0 + 1) \<le> clock n" using assms unfolding steady_unbounded_def by blast
  then obtain d where "n = Suc d" by (cases n) auto
  then show ?thesis using n by (intro exI [of _ d]) simp
qed

lemma benchmark_total:
  assumes "steady_unbounded clock"
  shows "\<exists>r. benchmark clock secs = Some r"
proof -
  define deadline where "deadline = dbl (dbl (of_int (clock 0)) + dbl (secs * 10 ^ 9))"
  obtain d where "\<lceil>deadline\<rceil> \<le> clock (1 + d)" using steady_later [OF assms] by blast
  then have "deadline \<le> of_int (clock (1 + d))" by linarith
  then have "deadline \<le> dbl (of_int (clock (1 + d)))"
    using dbl.le_iff [of deadline] by (simp add: deadline_def fl_idem)
  then have "\<exists>r. compute_loop clock deadline 1 s = Some r" for s by (rule compute_loop_total)
  then obtain q where "compute_loop clock deadline 1 \<lparr>floats = float_seeds, ints = int_seeds, round_total = 0\<rparr> = Some q"
    by blast
  then show ?thesis
    by (simp add: benchmark_def run_compute_def Let_def deadline_def split: prod.split)
qed

section \<open>The modes\<close>

lemma operational_total:
  "opt_operational_runs opts \<le> 107374182 \<Longrightarrow> \<exists>r. operational_mode sys opts w = Some r"
  using run_operational_result [of "opt_operational_runs opts" "opt_operational_report opts" "sys_writable sys"]
  by (cases "0 < opt_operational_runs opts \<and> opt_operational_report opts \<noteq> []")
    (auto simp: operational_mode_def run_operational_def Let_def)

lemma capability_total: "environment_ok sys \<Longrightarrow> \<exists>r. capability_mode sys opts w = Some r"
  using topology_total [of "sys_files sys" "sys_cpuid sys" "sys_online sys"]
    benchmark_total [of "sys_steady_clock sys" "dbl (of_int (opt_compute_seconds opts))"]
  by (auto simp: environment_ok_def capability_mode_def)

lemma evaluation_total: "environment_ok sys \<Longrightarrow> \<exists>r. evaluation_mode sys opts w = Some r"
  using topology_total [of "sys_files sys" "sys_cpuid sys" "sys_online sys"]
  by (auto simp: environment_ok_def evaluation_mode_def platform_signature_of_def Let_def split: prod.split option.split)

lemma spectre_lab_total: "opt_spectre_tries opts \<le> 715827882 \<Longrightarrow> \<exists>r. spectre_lab_mode sys opts w = Some r"
  using lab_total [of "opt_spectre_tries opts" "sys_hardware sys" "opt_spectre_lab_runs opts"]
  by (fastforce simp: spectre_lab_mode_def)

lemma defensive_total: "opt_spectre_tries opts \<le> 715827882 \<Longrightarrow> \<exists>r. defensive_mode sys opts w = Some r"
  using lab_total [of "opt_spectre_tries opts" "sys_hardware sys" "opt_phase5_runs opts" "initial_state (machine_of w)"]
  by (auto simp: defensive_mode_def run_defensive_def Let_def split: option.split prod.split)

lemma demo_total: "opt_spectre_tries opts \<le> 715827882 \<Longrightarrow> \<exists>r. spectre_mode sys opts w = Some r"
proof (cases "opt_spectre_tries opts \<le> 0")
  case False
  assume "opt_spectre_tries opts \<le> 715827882"
  moreover have "kArchitecturalArraySize = 16" "length kSecret = 40"
    by (simp_all add: kSecret_def kArchitecturalArraySize_def)
  ultimately have "\<exists>str out s'. read_string (sys_hardware sys) kArchitecturalArraySize (length kSecret) (opt_spectre_tries opts) s
      = Some ((str, out), s')" for s
    using read_string_in_range [of "opt_spectre_tries opts" 16 40 "sys_hardware sys" True s] False
    by (fastforce simp: read_string_def not_le kArchitecturalArraySize_def)
  then show ?thesis using False by (fastforce simp: spectre_mode_def run_demo_def Let_def)
qed (simp add: spectre_mode_def run_demo_def)

lemma shared_total: "environment_ok sys \<Longrightarrow> \<exists>r. shared_phase sys opts allowed w = Some r"
  using measure_cross_total [of "sys_shared sys"]
  by (auto simp: environment_ok_def shared_phase_def Let_def)

lemma phases_total:
  assumes "environment_ok sys"
  shows "\<exists>r. measured_phases sys opts allowed tsc_hz L w = Some r"
proof -
  obtain lr L' m where l: "latency_phase sys opts (L, machine_of (print_unless (opt_quiet opts)
      (''[1/4] Measuring cache and access latency...'' @ newline) w)) = (lr, L', m)" by (metis prod.exhaust)
  obtain bw v where b: "bandwidth_phase sys opts (after_machine m (print_unless (opt_quiet opts)
      (''[1/4] Measuring cache and access latency...'' @ newline) w)) = (bw, v)" by fastforce
  obtain r where "shared_phase sys opts allowed v = Some r" using shared_total [OF assms] by blast
  then show ?thesis
    unfolding measured_phases_def Let_def l prod.case b by (simp split: sum.split prod.split)
qed

lemma benchmark_mode_total: "environment_ok sys \<Longrightarrow> \<exists>r. main_benchmark sys opts w = Some r"
proof -
  assume env: "environment_ok sys"
  then have files: "cpu_lists_ok (sys_files sys)" by (simp add: environment_ok_def)
  obtain topo where t: "topology (sys_files sys) (sys_cpuid sys) (sys_online sys) = Some topo"
    using topology_total [OF files] by blast
  have body: "\<exists>r. with_measurer sys a b c (measured_phases sys opts allowed hz) v = Some r" for a b c hz v allowed
    using phases_total [OF env, of opts allowed hz] by (fastforce simp: with_measurer_def split: sum.split prod.split)
  have "\<exists>r. run_benchmark sys opts w = Some r"
    using body node_for_cpu_total [OF files, of "hd (allowed_cpus (sys_affinity sys))"]
    unfolding run_benchmark_def Let_def
    by (fastforce simp: t split: sum.split prod.split)
  then show ?thesis by (auto simp: main_benchmark_def)
qed

lemma run_mode_total:
  assumes "environment_ok sys" "\<not> counts_overflow opts"
  shows "\<exists>r. run_mode sys opts w = Some r"
proof -
  have files: "cpu_lists_ok (sys_files sys)" using assms by (simp add: environment_ok_def)
  have exits: "\<exists>r. x = Some r \<Longrightarrow> \<exists>r. exits x = Some r" for x by (auto simp: exits_def)
  have runs: "opt_operational_lab opts \<Longrightarrow> opt_operational_runs opts \<le> 107374182"
    and tries: "opt_phase5_lab opts \<Longrightarrow> opt_spectre_tries opts \<le> 715827882"
      "opt_spectre_lab opts \<Longrightarrow> opt_spectre_tries opts \<le> 715827882"
      "opt_spectre opts \<Longrightarrow> opt_spectre_tries opts \<le> 715827882"
    using assms(2) by (auto simp: counts_overflow_def)
  show ?thesis
    unfolding run_mode_def
    using exits [OF matrix_total [OF files]] exits [OF operational_total [OF runs]]
      evaluation_total [OF assms(1)] exits [OF capability_total [OF assms(1)]]
      exits [OF defensive_total [OF tries(1)]] exits [OF spectre_lab_total [OF tries(2)]]
      exits [OF demo_total [OF tries(3)]] exits [OF benchmark_mode_total [OF assms(1)]]
    by (simp only: split: if_split) simp
qed

section \<open>Exceptions that leave the program\<close>

text \<open>The only exception of the evaluation pipeline is a failed clock read.\<close>

definition clock_fails :: "hardware \<Rightarrow> exn \<Rightarrow> bool" where
  "clock_fails hw e \<longleftrightarrow> e = clock_failure \<and> (\<exists>k. clock_raw hw k = None)"

lemma raw_ns_error: "monotonic_raw_ns hw m = (Inl e, m') \<Longrightarrow> clock_fails hw e"
  by (auto simp: monotonic_raw_ns_def clock_fails_def clock_failure_def split: option.splits)

lemma trace_sample_error: "trace_sample hw bd randomized leaky x s = (Inl e, s') \<Longrightarrow> clock_fails hw e"
  by (auto simp: trace_sample_def Let_def dest: raw_ns_error split: prod.splits sum.splits)

lemma trace_loop_error: "trace_loop hw bd n randomized leaky x tr s = (Inl e, s') \<Longrightarrow> clock_fails hw e"
  by (induction n arbitrary: x tr s) (auto dest: trace_sample_error split: prod.splits sum.splits)

lemma run_step_error: "run_step hw bd samples window i acc s = (Inl e, s') \<Longrightarrow> clock_fails hw e"
  by (auto simp: run_step_def repair_def collect_trace_def Let_def dest: trace_loop_error
      split: prod.splits sum.splits if_splits)

lemma run_loop_error: "run_loop hw bd samples window i n acc s = (Inl e, s') \<Longrightarrow> clock_fails hw e"
  by (induction n arbitrary: i acc s) (auto dest: run_step_error split: prod.splits sum.splits)

lemma pipeline_error: "run lg sig writable hw bd runs samples window path s = (Inl e, s') \<Longrightarrow> clock_fails hw e"
  by (auto simp: run_def Let_def dest: run_loop_error split: if_splits sum.splits prod.splits)

lemma run_mode_terminate:
  "run_mode sys opts w = Some (Terminate e, w') \<Longrightarrow> clock_fails (sys_hardware sys) e"
  by (auto simp: run_mode_def exits_def evaluation_mode_def dest!: pipeline_error split: if_splits bind_splits prod.splits sum.splits)

section \<open>Properties\<close>

text \<open>C2: when the program returns.  In an environment where the clock of each wait fails or reaches the deadline,
  the steady clock is unbounded and no CPU list holds a range up to \<open>INT_MAX\<close>, \<open>main\<close> ends for every command line,
  with one exception: the command line is accepted and asks for more than 107374182 runs of the operational lab,
  or for more than 715827882 tries in a mode that uses the Spectre fixture, whose products overflow an \<open>int\<close>.
  When \<open>main\<close> ends, it ends with an exception only if a read of the raw clock fails.\<close>

theorem main_returns:
  assumes "environment_ok sys"
  shows "(\<exists>ending w'. main sys args w = Some (ending, w')
       \<and> (\<forall>e. ending = Terminate e \<longrightarrow> e = clock_failure \<and> (\<exists>k. clock_raw (sys_hardware sys) k = None)))
     \<or> main sys args w = None \<and> (\<exists>opts. parse_command_line args = Inr opts \<and> counts_overflow opts)"
proof (cases "main sys args w")
  case None
  then obtain opts where "parse_command_line args = Inr opts" "run_mode sys opts w = None"
    by (auto simp: main_def split: sum.splits)
  then show ?thesis using None run_mode_total [OF assms, of opts w] by auto
next
  case (Some r)
  obtain ending w' where r: "r = (ending, w')" by fastforce
  have "clock_fails (sys_hardware sys) e" if "ending = Terminate e" for e
    using Some run_mode_terminate that by (auto simp: main_def r split: sum.splits)
  then show ?thesis using Some r by (auto simp: clock_fails_def)
qed

theorem main_returns_witness:
  "\<exists>ending w'. main (example_system\<lparr>sys_shared := stopping_consumer
       \<lparr>wait_clock := \<lambda>_ k. Some (if k = 0 then 0 else timeout_ms * 1000000)\<rparr>\<rparr>)
     (command_line example_options) example_world = Some (ending, w')"
proof -
  let ?os = "stopping_consumer\<lparr>wait_clock := \<lambda>_ k. Some (if k = 0 then 0 else timeout_ms * 1000000)\<rparr>"
  have "steady_unbounded int" unfolding steady_unbounded_def by (metis nat_le_iff order_refl)
  moreover have "wait_ends (wait_clock ?os i)" for i by (simp add: wait_ends_def)
  ultimately have "environment_ok (example_system\<lparr>sys_shared := ?os\<rparr>)"
    by (simp add: environment_ok_def example_system_def cpu_lists_ok_def cpu_list_files_def)
  moreover have "\<not> counts_overflow example_options"
    by (simp add: counts_overflow_def example_options_def default_options_def)
  ultimately show ?thesis
    using main_returns [of "example_system\<lparr>sys_shared := ?os\<rparr>" "command_line example_options" example_world]
    by (auto simp: example_parse)
qed

text \<open>C32: the exception for the operational lab is exact: for an accepted command line that chooses the
  operational lab, the program runs into an overflow of an \<open>int\<close>, whatever the system, if and only if more than
  107374182 runs are asked for; the command line is accepted all the same.\<close>

theorem accepted_overflow:
  assumes "parse_command_line args = Inr opts" "opt_operational_lab opts" "\<not> opt_numa_matrix opts"
    and "opt_numa_node opts < 0" "opt_operational_report opts \<noteq> []"
  shows "main sys args w = None \<longleftrightarrow> 107374182 < opt_operational_runs opts"
proof -
  have m: "main sys args w = exits (operational_mode sys opts w)"
    using assms by (simp add: main_def run_mode_def)
  show ?thesis
  proof (cases "107374182 < opt_operational_runs opts")
    case True
    then show ?thesis using assms(5) by (simp add: m exits_def operational_mode_def run_operational_overflow)
  next
    case False
    then show ?thesis using operational_total [of opts sys w] by (auto simp: m exits_def)
  qed
qed

theorem accepted_overflow_witness:
  "main example_system
     (command_line (default_options\<lparr>opt_operational_lab := True, opt_operational_runs := 107374183\<rparr>)) example_world = None"
proof -
  let ?opts = "default_options\<lparr>opt_operational_lab := True, opt_operational_runs := 107374183\<rparr>"
  have ok: "options_inv ?opts" "numeric_configuration_ok ?opts"
    using options_inv_default
    by (simp_all add: options_inv_def numeric_configuration_ok_def default_options_def in_i32_def i32_min_def i32_max_def)
  have "parse_command_line (command_line ?opts) = Inr ?opts"
    using parse_args_command_line [OF ok(1)] ok(2)
    by (simp add: parse_command_line_def) (simp add: default_options_def)
  from accepted_overflow [OF this, of example_system example_world] show ?thesis
    by (simp add: default_options_def)
qed

end
