(* ===== verification/Tests.thy ===== *)
theory Tests
  imports Topology Memory Labs Evaluation
begin

text \<open>
  The four programs under \<open>tests/\<close>, on the model's functions.  The build type is left to the caller of CMake,
  so \<open>assert\<close> is taken to be active: a test ends with an exit status or with the first assertion that is
  false.
\<close>

datatype test_end = Test_exit int | Assertion_failed string

definition run_assertions :: "(string \<times> bool) list \<Rightarrow> test_end" where
  "run_assertions assertions =
     (case find (\<lambda>(name, holds). \<not> holds) assertions of
        None \<Rightarrow> Test_exit 0
      | Some (name, holds) \<Rightarrow> Assertion_failed name)"

section \<open>The tests\<close>

definition statistics_test :: test_end where
  "statistics_test =
     (let summary = summarize_u64 [1, 2, 3, 4, 5];
          fractional = summarize [dbl (125 / 100), dbl (250 / 100), dbl (375 / 100)]
      in run_assertions
        [(''summary.count == 5'', s_count summary = 5), (''summary.mean == 3.0'', s_mean summary = 3),
         (''summary.median == 3.0'', s_median summary = 3), (''summary.min == 1.0'', s_min summary = 1),
         (''summary.max == 5.0'', s_max summary = 5), (''summary.p95 > 4.0'', 4 < s_p95 summary),
         (''summary.p99 > summary.p95'', s_p95 summary < s_p99 summary),
         (''fractional_summary.mean == 2.5'', s_mean fractional = dbl (25 / 10)),
         (''fractional_summary.median == 2.5'', s_median fractional = dbl (25 / 10))])"

definition evaluation_test :: test_end where
  "evaluation_test =
     (let aligned = align_samples [1, 2, 3] [4, 5];
          averaged = average_blocks [1, 3, 5, 7] 2;
          filtered = remove_mad_outliers [10, 11, 12, 13, 14, 15, 16, 100] outlier_default;
          fixed = replicate 100 10; random = replicate 100 20;
          tvla = welch_tvla fixed random tvla_default;
          snr = snr_linear fixed random;
          error = classification_error_rate fixed random
      in run_assertions
        [(''aligned.size() == 2U'', length aligned = 2),
         (''aligned[0] == 1.0'', aligned ! 0 = 1), (''aligned[1] == 2.0'', aligned ! 1 = 2),
         (''averaged.size() == 2U'', length averaged = 2),
         (''std::abs(averaged[0] - 2.0) < 1e-12'', \<bar>dbl (averaged ! 0 - 2)\<bar> < dbl (1 / 10 ^ 12)),
         (''std::abs(averaged[1] - 6.0) < 1e-12'', \<bar>dbl (averaged ! 1 - 6)\<bar> < dbl (1 / 10 ^ 12)),
         (''filtered.size() == 7U'', length filtered = 7),
         (''tvla.abs_t > 4.5'', dbl (45 / 10) < abs_t tvla),
         (''tvla.threshold_exceeded'', threshold_exceeded tvla),
         (''snr > 0.0'', 0 < snr), (''error == 0.0'', error = 0)])"

text \<open>The report is removed after the last assertion, so an aborted test would leave it behind.\<close>

definition operational_lab_test :: "(string \<Rightarrow> bool) \<Rightarrow> (string \<rightharpoonup> string) \<Rightarrow> (test_end \<times> (string \<rightharpoonup> string)) option" where
  "operational_lab_test writable f =
     (let path = ''operational_lab_test.json'' in
      map_option (\<lambda>(r, report).
          let written = (case report of None \<Rightarrow> f | Some t \<Rightarrow> f(path \<mapsto> t));
              ending = run_assertions
                [(''result.runs == 2'', op_runs r = 2), (''result.events_generated > 0'', 0 < events_generated r),
                 (''result.detected_events > 0'', 0 < detected_events r),
                 (''result.missed_events == 0'', missed_events r = 0),
                 (''result.false_positive_events == 2'', false_positive_events r = 2),
                 (''result.recovery_attempts == result.recovered_events'', recovery_attempts r = recovered_events r),
                 (''result.detection_rate_percent == 100.0'', detection_rate r = 100),
                 (''result.false_positive_rate_percent == 5.0'', false_positive_rate r = 5),
                 (''result.recovery_rate_percent == 100.0'', recovery_rate r = 100),
                 (''result.report_written'', op_report_written r), (''!result.scenarios.empty()'', scenarios r \<noteq> [])]
          in (ending, if ending = Test_exit 0 then written(path := None) else written))
        (run_operational writable 2 path))"

text \<open>77 is the status CTest counts as skipped.\<close>

fun numa_test_nodes ::
  "memory_env \<Rightarrow> file_system \<Rightarrow> node_info list \<Rightarrow> heap \<Rightarrow> (test_end \<times> heap) option" where
  "numa_test_nodes env fs [] h = Some (Test_exit 77, h)"
| "numa_test_nodes env fs (n # ns) h =
     (if node_cpus n = [] then numa_test_nodes env fs ns h
      else do {
        k \<leftarrow> node_for_cpu fs (hd (node_cpus n));
        (if k \<noteq> node_id n
         then Some (Assertion_failed ''NumaSupport::node_for_cpu(node.cpus.front()) == node.id'', h)
         else do {
           self_distance \<leftarrow> distance fs (node_id n) (node_id n);
           (if self_distance < 0 then Some (Assertion_failed ''self_distance >= 0'', h)
            else
              let (p, h') = allocate_on_node env (64 * 1024) (node_id n) h
              in if p = 0 then Some (Test_exit 77, h')
                 else Some (Test_exit 0, free_on_node env p (64 * 1024) h'))
         })
      })"

definition numa_test :: "memory_env \<Rightarrow> file_system \<Rightarrow> heap \<Rightarrow> (test_end \<times> heap) option" where
  "numa_test env fs h =
     (if \<not> numa_available env then Some (Test_exit 77, h)
      else do {
        ns \<leftarrow> numa_nodes fs;
        (if ns = [] then Some (Test_exit 77, h) else numa_test_nodes env fs ns h)
      })"

section \<open>Lemmas\<close>

lemma run_assertions_Nil [simp]: "run_assertions [] = Test_exit 0"
  by (simp add: run_assertions_def)

lemma run_assertions_Cons [simp]:
  "run_assertions ((name, holds) # rest) = (if holds then run_assertions rest else Assertion_failed name)"
  by (simp add: run_assertions_def)

subsection \<open>Statistics\<close>

lemma summary_of_five:
  "s_count (summarize [1, 2, 3, 4, 5]) = 5" "s_mean (summarize [1, 2, 3, 4, 5]) = 3"
  "s_median (summarize [1, 2, 3, 4, 5]) = 3" "s_min (summarize [1, 2, 3, 4, 5]) = 1"
  "s_max (summarize [1, 2, 3, 4, 5]) = 5" "4 < s_p95 (summarize [1, 2, 3, 4, 5])"
  "s_p95 (summarize [1, 2, 3, 4, 5]) < s_p99 (summarize [1, 2, 3, 4, 5])"
proof -
  have "sample_mean [1, 2, 3, 4, 5] = 3" "quantile [1, 2, 3, 4, 5] (dbl (50/100)) = 3"
    "4 < quantile [1, 2, 3, 4, 5] (dbl (95/100))"
    "quantile [1, 2, 3, 4, 5] (dbl (95/100)) < quantile [1, 2, 3, 4, 5] (dbl (99/100))"
    by code_simp+
  then show "s_count (summarize [1, 2, 3, 4, 5]) = 5" "s_mean (summarize [1, 2, 3, 4, 5]) = 3"
    "s_median (summarize [1, 2, 3, 4, 5]) = 3" "s_min (summarize [1, 2, 3, 4, 5]) = 1"
    "s_max (summarize [1, 2, 3, 4, 5]) = 5" "4 < s_p95 (summarize [1, 2, 3, 4, 5])"
    "s_p95 (summarize [1, 2, 3, 4, 5]) < s_p99 (summarize [1, 2, 3, 4, 5])"
    by (simp_all add: summarize_def Let_def)
qed

lemma summary_of_three:
  "s_mean (summarize [5/4, 5/2, 15/4]) = 5/2" "s_median (summarize [5/4, 5/2, 15/4]) = 5/2"
proof -
  have "sample_mean [5/4, 5/2, 15/4] = 5/2" "quantile [5/4, 5/2, 15/4] (dbl (50/100)) = 5/2"
    by code_simp+
  then show "s_mean (summarize [5/4, 5/2, 15/4]) = 5/2" "s_median (summarize [5/4, 5/2, 15/4]) = 5/2"
    by (simp_all add: summarize_def Let_def)
qed

lemma u64_samples: "summarize_u64 [1, 2, 3, 4, 5] = summarize [1, 2, 3, 4, 5]"
proof -
  have "map double_of_u64 [1, 2, 3, 4, 5] = [1, 2, 3, 4, 5]" by code_simp
  then show ?thesis by (simp add: summarize_u64_def)
qed

lemma fractional_samples: "dbl (125 / 100) = 5/4" "dbl (250 / 100) = 5/2" "dbl (375 / 100) = 15/4" "dbl (25 / 10) = 5/2"
  by code_simp+

subsection \<open>Evaluation\<close>

lemma outlier_sample_removed:
  "remove_mad_outliers [10, 11, 12, 13, 14, 15, 16, 100] outlier_default = [10, 11, 12, 13, 14, 15, 16]"
proof -
  let ?xs = "[10, 11, 12, 13, 14, 15, 16, 100] :: double list"
  have m: "median_of ?xs = 27/2"
  proof -
    have "dbl (dbl (13 + 14) / 2) = 27/2" by code_simp
    then show ?thesis by (simp add: median_of_def)
  qed
  have d: "map (\<lambda>x. \<bar>dbl (x - 27/2)\<bar>) ?xs = [7/2, 5/2, 3/2, 1/2, 1/2, 3/2, 5/2, 173/2]" by code_simp
  have mad: "median_of [7/2, 5/2, 3/2, 1/2, 1/2, 3/2, 5/2, 173/2] = 2"
  proof -
    have "dbl (dbl (3/2 + 5/2) / 2) = 2" by code_simp
    then show ?thesis by (simp add: median_of_def)
  qed
  have t: "\<not> 2 \<le> dbl (1 / 10 ^ 12)" "\<not> outlier_default \<le> 0" by code_simp+
  have "filter (\<lambda>x. \<bar>dbl (x - 27/2)\<bar> \<le> dbl (outlier_default * dbl (dbl (14826 / 10000) * 2))) ?xs
      = [10, 11, 12, 13, 14, 15, 16]"
    by code_simp
  then show ?thesis unfolding remove_mad_outliers_def Let_def m d mad using t by simp
qed

lemma constant_abs_t:
  assumes "0 < n" "n * c \<le> 2 ^ 64" "c \<le> 2 ^ 53" "n \<le> 2 ^ 64"
    and "0 < k" "k * d \<le> 2 ^ 64" "d \<le> 2 ^ 53" "k \<le> 2 ^ 64"
  shows "abs_t (welch_tvla (replicate n (of_nat c)) (replicate k (of_nat d)) th) = 0"
  using mean_of_const [OF assms(1-4)] mean_of_const [OF assms(5-8)] tiny_nonneg
  by (simp add: welch_tvla_def Let_def stddev_of_const)

subsection \<open>NUMA\<close>

text \<open>The first CPU of the first node with CPUs belongs to that node.\<close>

lemma node_for_first_cpu:
  assumes "numa_nodes fs = Some (pre @ n # ns)" "\<forall>x \<in> set pre. node_cpus x = []" "node_cpus n \<noteq> []"
  shows "node_for_cpu fs (hd (node_cpus n)) = Some (node_id n)"
proof -
  let ?c = "hd (node_cpus n)"
  have c: "?c \<in> set (node_cpus n)" using assms(3) by simp
  have "0 \<le> ?c" using nodes_cpus [OF assms(1) _ c] by simp
  moreover have "find (\<lambda>x. ?c \<in> set (node_cpus x)) (pre @ n # ns) = Some n"
    using assms(2) c by (induction pre) auto
  ultimately show ?thesis using assms(1) by (simp add: node_for_cpu_def)
qed

lemma distance_total: "numa_nodes fs = Some ns \<Longrightarrow> \<exists>d. distance fs a b = Some d"
  by (auto simp: distance_def Let_def split: option.splits)

lemma numa_test_nodes_verdict:
  assumes "numa_nodes fs = Some (pre @ ns)" "\<forall>x \<in> set pre. node_cpus x = []"
  shows "\<exists>r h'. numa_test_nodes env fs ns h = Some (r, h') \<and> live h' = live h
     \<and> (r \<in> {Test_exit 0, Test_exit 77} \<or> r = Assertion_failed ''self_distance >= 0''
         \<and> (\<exists>n d. n \<in> set ns \<and> node_cpus n \<noteq> [] \<and> distance fs (node_id n) (node_id n) = Some d \<and> d < 0))"
  using assms
proof (induction ns arbitrary: pre)
  case (Cons n ns)
  show ?case
  proof (cases "node_cpus n = []")
    case True
    then show ?thesis using Cons.IH [of "pre @ [n]"] Cons.prems by auto
  next
    case False
    obtain d where d: "distance fs (node_id n) (node_id n) = Some d" using distance_total [OF Cons.prems(1)] by blast
    obtain p h' where p: "allocate_on_node env (64 * 1024) (node_id n) h = (p, h')" by fastforce
    have "live h' = live h" if "p = 0" using numa.failed_unchanged p that by blast
    moreover have "live (free_on_node env p (64 * 1024) h') = live h" if "p \<noteq> 0" using numa.single [OF p that] .
    ultimately show ?thesis
      using False d p node_for_first_cpu [OF Cons.prems False] by auto
  qed
qed simp

section \<open>Properties\<close>

text \<open>C39: the shipped tests on the model: the statistics test returns 0; the operational test returns 0 and
  removes its report exactly when the report can be written; the evaluation test aborts at its assertion on two
  constant classes, after every assertion before it held; the NUMA test, whatever the files of \<open>/sys\<close> hold
  as long as they are read without overflow, always finds its CPU on the node it took it from, ends with 0 or 77
  unless that node has no distance to itself, and leaves no allocation behind.\<close>

theorem shipped_tests:
  "statistics_test = Test_exit 0
   \<and> operational_lab_test writable f
       = Some (if writable ''operational_lab_test.json'' then (Test_exit 0, f(''operational_lab_test.json'' := None))
               else (Assertion_failed ''result.report_written'', f))
   \<and> evaluation_test = Assertion_failed ''tvla.abs_t > 4.5''
   \<and> (\<forall>ns. numa_nodes fs = Some ns \<longrightarrow>
        (\<exists>r h'. numa_test env fs h = Some (r, h') \<and> live h' = live h
           \<and> (r \<in> {Test_exit 0, Test_exit 77} \<or> r = Assertion_failed ''self_distance >= 0''
               \<and> (\<exists>n d. n \<in> set ns \<and> node_cpus n \<noteq> [] \<and> distance fs (node_id n) (node_id n) = Some d \<and> d < 0))))"
proof (intro conjI allI impI)
  show "statistics_test = Test_exit 0"
    unfolding statistics_test_def u64_samples fractional_samples
    using summary_of_five summary_of_three by (simp add: Let_def)
  show "operational_lab_test writable f
       = Some (if writable ''operational_lab_test.json'' then (Test_exit 0, f(''operational_lab_test.json'' := None))
               else (Assertion_failed ''result.report_written'', f))"
    by (simp add: operational_lab_test_def run_operational_result operational_totals_def initial_operational_def
        scenario_catalog_def Let_def)
  have "\<bar>dbl (2 - 2)\<bar> < dbl (1 / 10 ^ 12)" "\<bar>dbl (6 - 6)\<bar> < dbl (1 / 10 ^ 12)" "\<not> dbl (45 / 10) < 0"
    "average_blocks [1, 3, 5, 7] 2 = [2, 6]"
    by code_simp+
  then show "evaluation_test = Assertion_failed ''tvla.abs_t > 4.5''"
    using constant_abs_t [of 100 10 100 20 tvla_default]
    by (simp add: evaluation_test_def outlier_sample_removed align_samples_def Let_def)
  fix ns
  assume "numa_nodes fs = Some ns"
  then show "\<exists>r h'. numa_test env fs h = Some (r, h') \<and> live h' = live h
     \<and> (r \<in> {Test_exit 0, Test_exit 77} \<or> r = Assertion_failed ''self_distance >= 0''
         \<and> (\<exists>n d. n \<in> set ns \<and> node_cpus n \<noteq> [] \<and> distance fs (node_id n) (node_id n) = Some d \<and> d < 0))"
    using numa_test_nodes_verdict [of fs "[]" ns env h] by (simp add: numa_test_def)
qed

theorem shipped_tests_witness:
  "\<exists>r h'. numa_test \<lparr>has_numa = True, libnuma_available = 0, alloc_result = (\<lambda>_. 4096)\<rparr> two_nodes
       \<lparr>alloc_calls = 0, live = {#}\<rparr> = Some (r, h') \<and> live h' = {#}"
proof -
  let ?env = "\<lparr>has_numa = True, libnuma_available = 0, alloc_result = (\<lambda>_. 4096)\<rparr>"
  let ?heap = "\<lparr>alloc_calls = 0, live = {#}\<rparr>"
  have "\<exists>r h'. numa_test ?env two_nodes ?heap = Some (r, h') \<and> live h' = live ?heap"
    using shipped_tests [of "\<lambda>_. True" Map.empty two_nodes ?env ?heap] two_nodes_nodes by blast
  then show ?thesis by simp
qed

end
