(* ===== verification/Spec2Isabelle.thy ===== *)
theory Spec2Isabelle
  imports Statistics Timing Decimal Memory Latency Spectre Bandwidth Json Evaluation Labs Shared_Memory
    Cpu_Lists Topology Stream_Format Reporter Cli Capability World Benchmark Program Json_Reader Documents Returns
    Tests
begin

text \<open>
  Verification of MemoryLatencyAnalyzer (Linux), the program under \<open>MemoryLatencyAnalyzer_linux/\<close>: a command
  line tool that measures cache and memory latencies by pointer chasing, memory bandwidth, and the round trip
  of a cache line between two processes, and that contains a Spectre V1 fixture and three laboratories.

  The program.  \<open>src/main.cpp\<close> reads the options and runs one mode.  The benchmark pins the process, calibrates
  the time stamp counter (\<open>timer\<close>), reads the topology (\<open>cpu_info\<close>, \<open>numa_support\<close>, \<open>platform_utils\<close>), runs
  the latency, bandwidth and shared-memory measurers, summarises their samples (\<open>statistics\<close>) and prints them
  or writes them to files (\<open>reporter\<close>).  The other modes are the NUMA matrix, \<open>cpu_capability\<close>, the Spectre
  demo and reliability lab (\<open>spectre_v1\<close>), and the evaluation, operational and defensive labs, which write
  JSON reports.

  Conventions.  Machine integers are words; \<open>int\<close> values are integers with their range written out, and an
  operation whose overflow is undefined behaviour yields \<open>None\<close>.  A \<open>double\<close> is a real number and every
  arithmetic operation of the source is rounded (\<open>Float_Arith\<close>).  An exception is the left side of a sum
  (\<open>exn\<close>).  What the program cannot decide itself is a parameter: the answers of RDTSCP and of the clock by
  number of the read, the files of \<open>/sys\<close> and \<open>/proc\<close>, CPUID, the allocators, the system calls, what another
  process stores in shared memory, \<open>std::shuffle\<close>, the random bytes, \<open>log10\<close> and the local time.  Effects are
  explicit: counters of the reads, the trace of the timed loads, stores, flushes and fences, the multiset of
  live blocks, the resources a process holds, the written files and the two output streams.

  Theories, in the order of their imports.
  \<^item> \<open>Float_Arith\<close>: rounding to nearest even; the locale \<open>rounding\<close> is its contract.
  \<^item> \<open>Prelude\<close>: word types, exceptions, medians and sorted lists shared by all (locale \<open>estimator\<close>).
  \<^item> \<open>Statistics\<close> (\<open>statistics.cpp\<close>): the summary of samples; ranges and rounding errors of its fields.
  \<^item> \<open>Timing\<close> (\<open>timer.cpp\<close>): machine state, calibration and overhead as upper medians.
  \<^item> \<open>Decimal\<close>, \<open>Stream_Format\<close>: \<open>to_string\<close>, \<open>stoi\<close>, \<open>from_chars\<close>, and numbers on an \<open>ostream\<close> with six digits.
  \<^item> \<open>Memory\<close>: allocators and the heap; locale \<open>block_allocator\<close>, interpreted for \<open>mmap\<close>, \<open>malloc\<close> and libnuma.
  \<^item> \<open>Latency\<close> (\<open>latency_measurer.cpp\<close>): the buffer as a list of successor indices; the random ring is one
    cycle and the stride rings split the buffer evenly (locales \<open>pointer_ring\<close>, \<open>cyclic_ring\<close>); the benchmarks
    as sequences of timed operations (locales \<open>timed_op\<close>, \<open>logged_op\<close>, \<open>sampled_rounds\<close>), with their samples
    and their instructions.
  \<^item> \<open>Bandwidth\<close> (\<open>bandwidth_measurer.cpp\<close>): allocation methods, passes, median rates, release of the buffers.
  \<^item> \<open>Shared_Memory\<close> (\<open>shared_memory_measurer.cpp\<close>): the handshake of the two processes as a step relation,
    with an invariant, a rank and a refinement of a synchronous call (locales \<open>transition_system\<close>,
    \<open>refinement\<close>), and the parent with its waits, system calls and resources.
  \<^item> \<open>Spectre\<close> (\<open>spectre_v1.cpp\<close>): calibration, training and attack, scores, retries, demo and reliability
    lab; what is architecturally out of bounds never shows in the result except through the ticks.
  \<^item> \<open>Json\<close>, \<open>Evaluation\<close> (\<open>evaluation_lab.cpp\<close>), \<open>Labs\<close> (\<open>operational_lab.cpp\<close>, \<open>defensive_lab.cpp\<close>): the
    validation pipeline, the labs and the texts of their reports.
  \<^item> \<open>Cpu_Lists\<close>, \<open>Topology\<close> (\<open>numa_support.cpp\<close>, \<open>cpu_info.cpp\<close>, \<open>platform_utils.cpp\<close>): CPU lists, nodes,
    distances, caches, cores, affinity and priority.
  \<^item> \<open>Capability\<close> (\<open>cpu_capability.cpp\<close>), \<open>Reporter\<close> (\<open>reporter.cpp\<close>), \<open>Cli\<close> (the options of \<open>main.cpp\<close>).
  \<^item> \<open>World\<close>: the environment and state of the whole process and the phases of the benchmark in \<open>main.cpp\<close>.
  \<^item> \<open>Benchmark\<close>: what the phases keep together (locale \<open>phase_relation\<close>, interpreted for the heap, the
    standard output and the files), the errors that remain possible, and the contents of the CSV file.
  \<^item> \<open>Program\<close>: the NUMA matrix, the output of the labs, and \<open>main\<close>.
  \<^item> \<open>Returns\<close>: under which conditions on the clocks, the CPU lists and the counts \<open>main\<close> returns.
  \<^item> \<open>Json_Reader\<close>, \<open>Documents\<close>: a reader of JSON, and the documents that the three reports read back as.
  \<^item> \<open>Tests\<close> (\<open>tests/\<close>): the four test programs and what they end with.

  What is proved.  Of the program: its exit status, the files each mode writes, that accepted options never
  make a measurer throw an argument error, that memory is released on every path when the clock works,
  that the CSV file reads back as the rows the options ask for and the JSON reports as the results of the labs,
  and that it returns for every command line when its clocks advance, unless its counts leave the range of an \<open>int\<close>.  Of the measurers: which samples they
  summarise and which instructions they time, the shape of the rings, resources and termination of the waits.
  Of the shared-memory protocol: every interleaving, with time-outs.  Of the readers and writers: round trips.
  Of the numerics: bounds on ranges and rounding errors, and equality of the two implementations of the same
  estimator.  Several theorems state behaviour that is probably not intended (a leaked zero byte is never a
  success, two classes that differ without noise are not detected, although a shipped test expects it, buffers leak
  when the clock fails); the texts before them say so.

  Termination and bounds.  Every loop of the source is structural recursion on a count or a list, except the
  wait up to a deadline and the compute benchmark, which end only if the clock advances: these are partial
  functions with value \<open>None\<close> when they never return, and their theorems state when they return.  No definition
  of the program uses fuel; the reader of JSON, which is part of the specification, takes the length of the text,
  which bounds its depth.

  Not modelled.  Overflow of doubles to infinity, NaN and subnormal numbers; exhaustion of memory by the
  standard containers; failures of an output stream after it has been opened; hexadecimal and infinite numbers in
  \<open>std::stod\<close>; the affinity and the priority the scheduler calls set, which nothing in the program reads back.
  Speculation has no state of its own: it shows in the tick parameter only.  \<open>run_numa_matrix\<close> is modelled
  with an assignable latency matrix, which the source declares \<open>const\<close>.  The build files are left
  out.  \<open>std::sort\<close> is modelled as a stable sort, which matters only for caches of equal level and type and for
  nodes with equal numbers; the empty delay loop of the Spectre training has no effect in the model; time-outs of
  the handshake are steps that find the flag not raised, to which a time-out that races with the flag commutes.
\<close>

end
